(* ===== verification/Prelude.thy ===== *)
theory Prelude
  imports Main "HOL-Library.Word"
begin

text \<open>
  Shared vocabulary of the development.  It fixes how the Go program's values are
  represented (bytes, machine integers, errors, panics), the loop shapes that several
  components share (the first matching index of a \<^verbatim>\<open>range\<close> loop, removal and
  in-place update of that element) and the byte-order codecs.  Components import this theory
  and rely on the collection \<open>go_simps\<close> for the outcome type and on the lemmas below
  for lists.
\<close>

unbundle bit_operations_syntax

named_theorems go_simps \<open>rewriting of Go outcomes: return, error, panic\<close>
named_theorems first_idx_simps \<open>facts about the first index that satisfies a test\<close>

section \<open>Values\<close>

type_synonym byte = "8 word"
type_synonym bytes = "byte list"
type_synonym u16 = "16 word"
type_synonym u32 = "32 word"
type_synonym u64 = "64 word"

text \<open>
  The outcome of a Go call: \<open>Ok v\<close> is a return with a nil error, \<open>Err msg\<close> is a
  return with a non-nil error (by its message), and \<open>Panic msg\<close> is a run-time panic
  (an index out of range, a slice bound, a failed assertion).
\<close>

datatype 'a outcome = Ok 'a | Err string | Panic string

text \<open>
  What an \<^verbatim>\<open>os.WriteFile\<close> does: it writes the file, fails to open it (the file is unchanged),
  or fails half way and leaves torn contents behind.
\<close>

datatype write_result = Written | Open_failed | Write_failed bytes

definition bind :: "'a outcome \<Rightarrow> ('a \<Rightarrow> 'b outcome) \<Rightarrow> 'b outcome" where
  "bind r f = (case r of Ok v \<Rightarrow> f v | Err e \<Rightarrow> Err e | Panic p \<Rightarrow> Panic p)"

lemma bind_simps [simp, go_simps]:
  "bind (Ok v) f = f v"
  "bind (Err e) f = Err e"
  "bind (Panic p) f = Panic p"
  by (simp_all add: bind_def)

lemma bind_cong [fundef_cong]:
  "r = r' \<Longrightarrow> (\<And>v. r' = Ok v \<Longrightarrow> f v = g v) \<Longrightarrow> bind r f = bind r' g"
  by (cases r') simp_all

lemma bind_Ok_iff [go_simps]: "bind r f = Ok v \<longleftrightarrow> (\<exists>u. r = Ok u \<and> f u = Ok v)"
  by (cases r) simp_all

lemma if_Err_Ok_iff [go_simps]: "(if P then Err e else r) = Ok v \<longleftrightarrow> \<not> P \<and> r = Ok v"
  by simp

text \<open>
  A result that is not a panic, and whose value, if there is one, satisfies \<open>Q\<close>: the weakest
  precondition of a fallible computation.
\<close>

definition safe :: "'a outcome \<Rightarrow> ('a \<Rightarrow> bool) \<Rightarrow> bool" where
  "safe r Q = (case r of Ok x \<Rightarrow> Q x | Err _ \<Rightarrow> True | Panic _ \<Rightarrow> False)"

lemma safe_simps [simp]:
  "safe (Ok x) Q = Q x"
  "safe (Err e) Q"
  "\<not> safe (Panic p) Q"
  "safe (bind r f) Q = safe r (\<lambda>x. safe (f x) Q)"
  by (simp_all add: safe_def bind_def split: outcome.splits)

lemma safe_mono: "safe r P \<Longrightarrow> (\<And>x. P x \<Longrightarrow> Q x) \<Longrightarrow> safe r Q"
  by (simp add: safe_def split: outcome.splits)

lemma safe_Ok: "safe r Q \<Longrightarrow> r = Ok x \<Longrightarrow> Q x"
  by simp

lemma safe_no_panic: "safe r Q \<Longrightarrow> r \<noteq> Panic p"
  by auto

text \<open>The same without the promise that there is no panic.\<close>

definition upon :: "'a outcome \<Rightarrow> ('a \<Rightarrow> bool) \<Rightarrow> bool" where
  "upon r Q = (case r of Ok x \<Rightarrow> Q x | _ \<Rightarrow> True)"

lemma upon_simps [simp]:
  "upon (Ok x) Q = Q x"
  "upon (Err e) Q"
  "upon (Panic p) Q"
  "upon (bind r f) Q = upon r (\<lambda>x. upon (f x) Q)"
  by (simp_all add: upon_def bind_def split: outcome.splits)

lemma uponI: "(\<And>x. r = Ok x \<Longrightarrow> Q x) \<Longrightarrow> upon r Q"
  by (simp add: upon_def split: outcome.splits)

lemma uponD: "upon r Q \<Longrightarrow> r = Ok x \<Longrightarrow> Q x"
  by simp

lemma upon_mono: "upon r P \<Longrightarrow> (\<And>x. P x \<Longrightarrow> Q x) \<Longrightarrow> upon r Q"
  by (simp add: upon_def split: outcome.splits)

lemma safe_upon: "safe r P \<Longrightarrow> upon r Q \<Longrightarrow> safe r (\<lambda>x. P x \<and> Q x)"
  by (simp add: safe_def upon_def split: outcome.splits)

text \<open>
  Go's \<^verbatim>\<open>int\<close> and \<^verbatim>\<open>int64\<close> are two's complement integers of 64 bits.
  \<open>wrap64\<close> is the value an arithmetic result is reduced to.
\<close>

definition wrap64 :: "int \<Rightarrow> int" where
  "wrap64 x = signed_take_bit 63 x"

lemma wrap64_id [simp]: "- (2 ^ 63) \<le> x \<Longrightarrow> x < 2 ^ 63 \<Longrightarrow> wrap64 x = x"
  unfolding wrap64_def by (rule signed_take_bit_int_eq_self) simp_all

lemma wrap64_range: "- (2 ^ 63) \<le> wrap64 x \<and> wrap64 x < 2 ^ 63"
  unfolding wrap64_def
  using signed_take_bit_int_greater_eq_minus_exp [of 63 x] signed_take_bit_int_less_exp [of 63 x]
  by simp

lemma wrap64_add: "wrap64 (wrap64 a + b) = wrap64 (a + b)"
  unfolding wrap64_def by (metis signed_take_bit_add signed_take_bit_signed_take_bit min.idem)

lemma wrap64_add_right: "wrap64 (b + wrap64 a) = wrap64 (b + a)"
  using wrap64_add [of a b] by (simp add: add.commute)

text \<open>The same for \<^verbatim>\<open>int32\<close>.\<close>

definition wrap32 :: "int \<Rightarrow> int" where
  "wrap32 = signed_take_bit 31"

lemma wrap32_id [simp]: "- (2 ^ 31) \<le> x \<Longrightarrow> x < 2 ^ 31 \<Longrightarrow> wrap32 x = x"
  unfolding wrap32_def by (rule signed_take_bit_int_eq_self) simp_all

lemma wrap_mod:
  "wrap32 (x mod 2 ^ 32) = wrap32 x" "wrap32 x mod 2 ^ 32 = x mod 2 ^ 32"
  "wrap64 (x mod 2 ^ 64) = wrap64 x" "wrap64 x mod 2 ^ 64 = x mod 2 ^ 64"
proof -
  show "wrap32 (x mod 2 ^ 32) = wrap32 x" and "wrap64 (x mod 2 ^ 64) = wrap64 x"
    using signed_take_bit_take_bit [of 31 32 x] signed_take_bit_take_bit [of 63 64 x]
    by (simp_all add: wrap32_def wrap64_def take_bit_eq_mod)
  show "wrap32 x mod 2 ^ 32 = x mod 2 ^ 32" and "wrap64 x mod 2 ^ 64 = x mod 2 ^ 64"
    using take_bit_signed_take_bit [of 32 31 x] take_bit_signed_take_bit [of 64 63 x]
    by (simp_all add: wrap32_def wrap64_def take_bit_eq_mod)
qed

text \<open>
  \<^verbatim>\<open>xs[lo:hi]\<close>: the elements from \<open>lo\<close> up to \<open>hi\<close>, a panic when the bounds
  do not fit.  Slices that come from the network or a file have no spare capacity, so the
  bound is the length.
\<close>

definition slice :: "'a list \<Rightarrow> nat \<Rightarrow> nat \<Rightarrow> 'a list outcome" where
  "slice xs lo hi =
     (if lo \<le> hi \<and> hi \<le> length xs then Ok (take (hi - lo) (drop lo xs))
      else Panic ''slice bounds out of range'')"

definition index :: "'a list \<Rightarrow> nat \<Rightarrow> 'a outcome" where
  "index xs i = (if i < length xs then Ok (xs ! i) else Panic ''index out of range'')"

lemma index_Ok [simp]: "i < length xs \<Longrightarrow> index xs i = Ok (xs ! i)"
  by (simp add: index_def)

lemma slice_Ok_iff [go_simps]:
  "slice xs lo hi = Ok ys \<longleftrightarrow> lo \<le> hi \<and> hi \<le> length xs \<and> ys = take (hi - lo) (drop lo xs)"
  by (auto simp: slice_def)

lemma slice_append [simp]:
  "slice (xs @ ys @ zs) (length xs) (length xs + length ys) = Ok ys"
  by (simp add: slice_def)

section \<open>The first matching element of a range loop\<close>

text \<open>
  Many operations scan a slice with \<^verbatim>\<open>for idx, x := range xs\<close>, act on the first
  element that passes a test and return.  \<open>first_idx\<close> is the index at which such a
  loop stops.
\<close>

fun first_idx :: "('a \<Rightarrow> bool) \<Rightarrow> 'a list \<Rightarrow> nat option" where
  "first_idx P [] = None"
| "first_idx P (x # xs) = (if P x then Some 0 else map_option Suc (first_idx P xs))"

definition delete_at :: "nat \<Rightarrow> 'a list \<Rightarrow> 'a list" where
  "delete_at i xs = take i xs @ drop (Suc i) xs"

lemma first_idx_None_iff [first_idx_simps]: "first_idx P xs = None \<longleftrightarrow> (\<forall>x\<in>set xs. \<not> P x)"
  by (induction xs) auto

lemma first_idx_SomeD:
  "first_idx P xs = Some i \<Longrightarrow> i < length xs \<and> P (xs ! i) \<and> (\<forall>j<i. \<not> P (xs ! j))"
proof (induction xs arbitrary: i)
  case Nil
  then show ?case by simp
next
  case (Cons x xs)
  show ?case
  proof (cases "P x")
    case True
    with Cons.prems show ?thesis by simp
  next
    case False
    with Cons.prems obtain k where "first_idx P xs = Some k" and i: "i = Suc k" by auto
    with Cons.IH [of k] False show ?thesis by (auto simp: nth_Cons split: nat.splits)
  qed
qed

lemma first_idx_find: "find P xs = map_option (\<lambda>i. xs ! i) (first_idx P xs)"
  by (induction xs) (auto simp: option.map_comp comp_def)

lemma first_idx_split:
  assumes "first_idx P xs = Some i"
  shows "xs = take i xs @ xs ! i # drop (Suc i) xs" and "\<forall>x\<in>set (take i xs). \<not> P x"
  using first_idx_SomeD [OF assms] by (auto simp: id_take_nth_drop in_set_conv_nth)

lemma first_idx_map:
  assumes "\<And>x. P (f x) = P x"
  shows "first_idx P (map f xs) = first_idx P xs"
  by (induction xs) (auto simp: assms)

lemma first_idx_update:
  assumes "i < length xs" and "P v = P (xs ! i)"
  shows "first_idx P (xs[i := v]) = first_idx P xs"
  using assms
proof (induction xs arbitrary: i)
  case Nil
  then show ?case by simp
next
  case (Cons x xs)
  then show ?case by (cases i) auto
qed

lemma delete_at_Cons [simp]:
  "delete_at 0 (x # xs) = xs"
  "delete_at (Suc i) (x # xs) = x # delete_at i xs"
  by (simp_all add: delete_at_def)

lemma length_delete_at: "i < length xs \<Longrightarrow> length (delete_at i xs) = length xs - 1"
  by (simp add: delete_at_def)

lemma map_delete_at: "map f (delete_at i xs) = delete_at i (map f xs)"
  by (simp add: delete_at_def take_map drop_map)

lemma set_delete_at: "set (delete_at i xs) \<subseteq> set xs"
  by (auto simp: delete_at_def dest: in_set_takeD in_set_dropD)

lemma distinct_delete_at: "distinct xs \<Longrightarrow> distinct (delete_at i xs)"
proof (induction xs arbitrary: i)
  case Nil
  then show ?case by (simp add: delete_at_def)
next
  case (Cons x xs)
  then show ?case using set_delete_at [of _ xs] by (cases i) auto
qed

lemma delete_first_distinct:
  assumes "distinct (map f xs)" and "first_idx (\<lambda>x. f x = k) xs = Some i"
  shows "delete_at i xs = filter (\<lambda>x. f x \<noteq> k) xs"
  using assms
proof (induction xs arbitrary: i)
  case Nil
  then show ?case by simp
next
  case (Cons x xs)
  show ?case
  proof (cases "f x = k")
    case True
    with Cons.prems have "\<forall>y\<in>set xs. f y \<noteq> k" by (auto simp: image_iff)
    with True Cons.prems show ?thesis by (simp add: filter_id_conv)
  next
    case False
    with Cons show ?thesis by auto
  qed
qed

section \<open>Byte orders\<close>

text \<open>
  \<^verbatim>\<open>binary.LittleEndian.PutUint32\<close> and \<^verbatim>\<open>binary.LittleEndian.Uint32\<close>: the low
  byte comes first.  Both are instances of the digits of a number in base 256.
\<close>

fun le_bytes :: "nat \<Rightarrow> nat \<Rightarrow> bytes" where
  "le_bytes 0 n = []"
| "le_bytes (Suc k) n = of_nat (n mod 256) # le_bytes k (n div 256)"

fun le_value :: "bytes \<Rightarrow> nat" where
  "le_value [] = 0"
| "le_value (b # bs) = unat b + 256 * le_value bs"

definition be_bytes :: "nat \<Rightarrow> nat \<Rightarrow> bytes" where
  "be_bytes k n = rev (le_bytes k n)"

definition be_value :: "bytes \<Rightarrow> nat" where
  "be_value bs = le_value (rev bs)"

lemma length_le_bytes [simp]: "length (le_bytes k n) = k"
  by (induction k arbitrary: n) simp_all

lemma unat_byte_less: "unat (b :: byte) < 256"
  using unsigned_less [of b] by simp

lemma unat_of_nat_byte: "unat (of_nat (n mod 256) :: byte) = n mod 256"
  by (simp add: unat_of_nat)

lemma le_value_le_bytes: "le_value (le_bytes k n) = n mod 256 ^ k"
proof (induction k arbitrary: n)
  case 0
  then show ?case by simp
next
  case (Suc k)
  have "n mod (256 * 256 ^ k) = n mod 256 + 256 * (n div 256 mod 256 ^ k)"
    by (simp add: mod_mult2_eq)
  with Suc show ?case by (simp add: unat_of_nat_byte)
qed

lemma le_value_less: "le_value bs < 256 ^ length bs"
proof (induction bs)
  case Nil
  then show ?case by simp
next
  case (Cons b bs)
  have "unat b < 256" by (rule unat_byte_less)
  with Cons show ?case by simp
qed

lemma le_bytes_le_value: "le_bytes (length bs) (le_value bs) = bs"
proof (induction bs)
  case Nil
  then show ?case by simp
next
  case (Cons b bs)
  have "unat b < 256" by (rule unat_byte_less)
  then have "(unat b + 256 * le_value bs) mod 256 = unat b"
    and "(unat b + 256 * le_value bs) div 256 = le_value bs" by simp_all
  with Cons show ?case by simp
qed

lemma length_be_bytes [simp]: "length (be_bytes k n) = k"
  by (simp add: be_bytes_def)

lemma be_value_be_bytes: "be_value (be_bytes k n) = n mod 256 ^ k"
  by (simp add: be_value_def be_bytes_def le_value_le_bytes)

lemma le_value_append: "le_value (xs @ ys) = le_value xs + 256 ^ length xs * le_value ys"
  by (induction xs) (simp_all add: algebra_simps)

lemma be_value_Nil [simp]: "be_value [] = 0"
  by (simp add: be_value_def)

lemma be_value_Cons: "be_value (b # bs) = unat b * 256 ^ length bs + be_value bs"
  by (simp add: be_value_def le_value_append)

lemma be_value_less: "be_value bs < 256 ^ length bs"
  using le_value_less [of "rev bs"] by (simp add: be_value_def)

lemma of_nat_mod_byte: "(of_nat (n mod 256) :: byte) = of_nat n"
  by (simp only: word_of_nat_eq_iff) (simp add: take_bit_eq_mod)

lemma le_bytes_nth: "i < k \<Longrightarrow> le_bytes k n ! i = of_nat (n div 256 ^ i)"
proof (induction k arbitrary: n i)
  case 0
  then show ?case by simp
next
  case (Suc k)
  show ?case
  proof (cases i)
    case 0
    with of_nat_mod_byte [of n] show ?thesis by simp
  next
    case (Suc j)
    with Suc.IH [of j "n div 256"] Suc.prems show ?thesis
      by (simp add: div_mult2_eq)
  qed
qed

lemma le_bytes_map: "le_bytes k n = map (\<lambda>i. of_nat (n div 256 ^ i)) [0..<k]"
  by (rule nth_equalityI) (simp_all add: le_bytes_nth)

section \<open>Words\<close>

lemma unat_ucast_byte: "LENGTH('n::len) \<ge> 8 \<Longrightarrow> unat (ucast (b :: byte) :: 'n word) = unat b"
proof -
  assume "LENGTH('n) \<ge> 8"
  then have "(2::nat) ^ 8 \<le> 2 ^ LENGTH('n)" by (rule power_increasing) simp
  then have "unat b < 2 ^ LENGTH('n)" using unat_byte_less [of b] by simp
  then show ?thesis by (simp add: unsigned_ucast_eq take_bit_nat_eq_self)
qed

text \<open>Shifting \<open>b\<close> above the bits of \<open>a\<close> and joining them adds the two values.\<close>

lemma unat_push_OR:
  assumes "unat (a :: 'n::len word) < 2 ^ k" and "unat b * 2 ^ k < 2 ^ LENGTH('n)"
  shows "unat (push_bit k b OR a) = unat b * 2 ^ k + unat a"
proof -
  have a: "unat a = take_bit k (unat a)"
    using assms(1) by (simp add: take_bit_nat_eq_self)
  have "push_bit k (unat b) < 2 ^ LENGTH('n)" using assms(2) by (simp add: push_bit_eq_mult)
  then have "unat (push_bit k b) = push_bit k (unat b)"
    by (simp only: unsigned_push_bit_eq take_bit_nat_eq_self)
  then have "unat (push_bit k b OR a) = push_bit k (unat b) OR take_bit k (unat a)"
    using a by (simp only: unsigned_or_eq)
  also have "\<dots> = push_bit k (unat b) + take_bit k (unat a)"
    by (rule disjunctive_add [symmetric]) (auto simp: bit_simps)
  finally show ?thesis using a by (simp add: push_bit_eq_mult)
qed

lemma unat_drop_bit_div: "unat (drop_bit k (w :: 'n::len word)) = unat w div 2 ^ k"
  by (simp only: unat_drop_bit_eq) (simp only: drop_bit_eq_div)

lemma unat_u16_less: "unat (w :: u16) < 65536"
  using unsigned_less [of w] by simp

lemma unat_u64_less: "unat (w :: u64) < 18446744073709551616"
  using unsigned_less [of w] by simp

end
