(* ===== verification/Http.thy ===== *)
theory Http
  imports Prelude
begin

text \<open>
  The part of \<^verbatim>\<open>net/http\<close> that the handlers of the peer use: the request method and
  a response writer.  A response writer sends its header once: the first
  \<^verbatim>\<open>WriteHeader\<close> fixes the status code, a \<^verbatim>\<open>Write\<close> before it fixes 200, and
  header fields set afterwards are not sent.  Bodies are kept as the list of the parts
  written, each a status message or a JSON value of the handler's own type.
\<close>

datatype http_method = GET | PUT | POST | PATCH | DELETE | OTHER string

datatype 'p part = Status_msg string | Text string | Payload 'p

record 'p response =
  status_code :: "nat option"
  content_type :: "string option"
  body :: "'p part list"

definition fresh_response :: "'p response" where
  "fresh_response = \<lparr>status_code = None, content_type = None, body = []\<rparr>"

definition WriteHeader :: "nat \<Rightarrow> 'p response \<Rightarrow> 'p response" where
  "WriteHeader code w = (if status_code w = None then w\<lparr>status_code := Some code\<rparr> else w)"

definition SetContentType :: "string \<Rightarrow> 'p response \<Rightarrow> 'p response" where
  "SetContentType t w = (if status_code w = None then w\<lparr>content_type := Some t\<rparr> else w)"

definition Write :: "'p part \<Rightarrow> 'p response \<Rightarrow> 'p response" where
  "Write p w = (let w' = WriteHeader 200 w in w'\<lparr>body := body w' @ [p]\<rparr>)"

definition writeStatusUpdate :: "string \<Rightarrow> 'p response \<Rightarrow> 'p response" where
  "writeStatusUpdate message w =
     Write (Status_msg message) (SetContentType ''application/json'' w)"

definition http_Error :: "string \<Rightarrow> nat \<Rightarrow> 'p response \<Rightarrow> 'p response" where
  "http_Error message code w =
     Write (Text message) (WriteHeader code (SetContentType ''text/plain'' w))"

text \<open>The status the client sees: a handler that writes nothing answers 200.\<close>

definition final_status :: "'p response \<Rightarrow> nat" where
  "final_status w = (case status_code w of None \<Rightarrow> 200 | Some c \<Rightarrow> c)"

lemmas http_defs = WriteHeader_def SetContentType_def Write_def writeStatusUpdate_def
  http_Error_def final_status_def fresh_response_def

lemma status_code_WriteHeader [simp]:
  "status_code (WriteHeader c w) = (case status_code w of None \<Rightarrow> Some c | Some d \<Rightarrow> Some d)"
  by (simp add: WriteHeader_def split: option.splits)

lemma status_code_Write [simp]:
  "status_code (Write p w) = (case status_code w of None \<Rightarrow> Some 200 | Some d \<Rightarrow> Some d)"
  by (simp add: Write_def Let_def)

lemma status_code_SetContentType [simp]: "status_code (SetContentType t w) = status_code w"
  by (simp add: SetContentType_def)

lemma status_code_writeStatusUpdate [simp]:
  "status_code (writeStatusUpdate msg w) =
     (case status_code w of None \<Rightarrow> Some 200 | Some d \<Rightarrow> Some d)"
  by (simp add: writeStatusUpdate_def)

lemma body_simps [simp]:
  "body (WriteHeader c w) = body w"
  "body (SetContentType t w) = body w"
  "body (Write p w) = body w @ [p]"
  "body (writeStatusUpdate msg w) = body w @ [Status_msg msg]"
  by (simp_all add: http_defs Let_def)

lemma fresh_response_simps [simp]:
  "status_code fresh_response = None" "body fresh_response = []"
  by (simp_all add: fresh_response_def)

end
