(* ===== verification/Keyed_Store.thy ===== *)
theory Keyed_Store
  imports Prelude
begin

text \<open>
  The interface that the peer's in-memory tables share: a store of values by key, an update
  that acts on the value under a key, a removal.  The job table, the activity list and the
  peer storage implement it.  The locale states what a client may rely on; its lemmas
  about whole batches of updates are proved once and hold for every implementation.
  The second part gives the slice-based implementation used by the job table and the
  activity list: values carry their key, updates go to the first match.
\<close>

section \<open>The interface\<close>

locale keyed_store =
  fixes abs :: "'s \<Rightarrow> 'k \<Rightarrow> 'v option"
    and inv :: "'s \<Rightarrow> bool"
    and act :: "'u \<Rightarrow> 'v \<Rightarrow> 'v"
    and modify :: "'u \<Rightarrow> 'k \<Rightarrow> 's \<Rightarrow> 's"
    and remove :: "'k \<Rightarrow> 's \<Rightarrow> 's"
  assumes abs_modify: "inv s \<Longrightarrow> abs (modify u k s) = (abs s)(k := map_option (act u) (abs s k))"
    and inv_modify: "inv s \<Longrightarrow> inv (modify u k s)"
    and abs_remove: "inv s \<Longrightarrow> abs (remove k s) = (abs s)(k := None)"
    and inv_remove: "inv s \<Longrightarrow> inv (remove k s)"
begin

lemma inv_fold_modify: "inv s \<Longrightarrow> inv (fold (modify u) ks s)"
  by (induction ks arbitrary: s) (simp_all add: inv_modify)

lemma fold_modify:
  assumes "inv s"
  shows "abs (fold (modify u) ks s) k =
    map_option ((act u) ^^ count_list ks k) (abs s k)"
  using assms
proof (induction ks arbitrary: s)
  case Nil
  then show ?case by (cases "abs s k") simp_all
next
  case (Cons j ks)
  then show ?case
    by (cases "abs s k") (auto simp: inv_modify abs_modify funpow_swap1)
qed

lemma fold_modify_idem:
  assumes "inv s" and idem: "\<And>v. act u (act u v) = act u v"
  shows "abs (fold (modify u) ks s) k =
    (if k \<in> set ks then map_option (act u) (abs s k) else abs s k)"
  using assms(1)
  by (induction ks arbitrary: s) (auto simp: inv_modify abs_modify option.map_comp comp_def idem)

lemma fold_modify_dom: "inv s \<Longrightarrow> dom (abs (fold (modify u) ks s)) = dom (abs s)"
  by (auto simp: dom_def fold_modify)

lemma modify_absent: "inv s \<Longrightarrow> abs s k = None \<Longrightarrow> abs (modify u k s) = abs s"
  by (simp add: abs_modify fun_upd_idem)

lemma fold_remove:
  assumes "inv s"
  shows "abs (fold remove ks s) k = (if k \<in> set ks then None else abs s k)"
  using assms by (induction ks arbitrary: s) (auto simp: inv_remove abs_remove)

lemma modify_remove_commute:
  "inv s \<Longrightarrow> j \<noteq> k \<Longrightarrow> abs (modify u j (remove k s)) = abs (remove k (modify u j s))"
  by (auto simp: abs_modify abs_remove inv_modify inv_remove)

end

section \<open>Slices of values that carry their key\<close>

definition assoc :: "('v \<Rightarrow> 'k) \<Rightarrow> 'v list \<Rightarrow> 'k \<Rightarrow> 'v option" where
  "assoc key xs k = find (\<lambda>x. key x = k) xs"

definition update_first :: "('v \<Rightarrow> 'k) \<Rightarrow> ('v \<Rightarrow> 'v) \<Rightarrow> 'k \<Rightarrow> 'v list \<Rightarrow> 'v list" where
  "update_first key f k xs =
     (case first_idx (\<lambda>x. key x = k) xs of None \<Rightarrow> xs | Some i \<Rightarrow> xs[i := f (xs ! i)])"

definition remove_first :: "('v \<Rightarrow> 'k) \<Rightarrow> 'k \<Rightarrow> 'v list \<Rightarrow> 'v list" where
  "remove_first key k xs =
     (case first_idx (\<lambda>x. key x = k) xs of None \<Rightarrow> xs | Some i \<Rightarrow> delete_at i xs)"

lemma first_idx_key_cases:
  obtains (absent) "k \<notin> key ` set xs" "first_idx (\<lambda>x. key x = k) xs = None"
  | (present) i where "k \<in> key ` set xs" "first_idx (\<lambda>x. key x = k) xs = Some i"
proof (cases "first_idx (\<lambda>x. key x = k) xs")
  case None
  then show ?thesis by (intro absent) (auto simp: first_idx_None_iff)
next
  case (Some i)
  with first_idx_SomeD [OF Some] show ?thesis by (intro present [of i]) force+
qed

lemma update_first_Cons [simp]:
  "update_first key f k [] = []"
  "update_first key f k (x # xs) =
     (if key x = k then f x # xs else x # update_first key f k xs)"
  by (auto simp: update_first_def split: option.splits)

lemma remove_first_Cons [simp]:
  "remove_first key k [] = []"
  "remove_first key k (x # xs) = (if key x = k then xs else x # remove_first key k xs)"
  by (auto simp: remove_first_def split: option.splits)

lemma assoc_Cons [simp]:
  "assoc key [] k = None"
  "assoc key (x # xs) k = (if key x = k then Some x else assoc key xs k)"
  by (simp_all add: assoc_def)

lemma assoc_Some_iff_first_idx: "assoc key xs k = Some v \<longleftrightarrow>
    (\<exists>i. first_idx (\<lambda>x. key x = k) xs = Some i \<and> v = xs ! i)"
  by (auto simp: assoc_def first_idx_find)

lemma assoc_None_iff: "assoc key xs k = None \<longleftrightarrow> k \<notin> key ` set xs"
  by (induction xs) auto

lemma assoc_key: "assoc key xs k = Some v \<Longrightarrow> key v = k \<and> v \<in> set xs"
  by (induction xs) (auto split: if_splits)

lemma assoc_append: "assoc key (xs @ ys) k =
    (case assoc key xs k of None \<Rightarrow> assoc key ys k | Some v \<Rightarrow> Some v)"
  by (induction xs) auto

lemma assoc_snoc_fresh:
  "key v \<notin> key ` set xs \<Longrightarrow> assoc key (xs @ [v]) = (assoc key xs)(key v \<mapsto> v)"
  by (induction xs) (auto simp: fun_eq_iff)

lemma keys_update_first:
  "(\<And>x. key (f x) = key x) \<Longrightarrow> map key (update_first key f k xs) = map key xs"
  by (induction xs) simp_all

lemma length_update_first [simp]: "length (update_first key f k xs) = length xs"
  by (simp add: update_first_def split: option.splits)

lemma assoc_update_first:
  assumes "\<And>x. key (f x) = key x"
  shows "assoc key (update_first key f k xs) = (assoc key xs)(k := map_option f (assoc key xs k))"
  by (rule ext, induction xs) (simp_all add: assms)

lemma update_first_absent: "k \<notin> key ` set xs \<Longrightarrow> update_first key f k xs = xs"
  by (induction xs) auto

lemma remove_first_distinct:
  "distinct (map key xs) \<Longrightarrow> remove_first key k xs = filter (\<lambda>x. key x \<noteq> k) xs"
  by (cases rule: first_idx_key_cases [of k key xs])
     (auto simp: remove_first_def delete_first_distinct intro!: filter_True [symmetric])

lemma distinct_remove_first: "distinct (map key xs) \<Longrightarrow> distinct (map key (remove_first key k xs))"
  by (simp add: remove_first_distinct distinct_map_filter)

lemma assoc_filter_key:
  "assoc key (filter (\<lambda>x. key x \<noteq> k) xs) = (assoc key xs)(k := None)"
  by (rule ext, induction xs) auto

lemma assoc_remove_first:
  "distinct (map key xs) \<Longrightarrow> assoc key (remove_first key k xs) = (assoc key xs)(k := None)"
  by (simp add: remove_first_distinct assoc_filter_key)

end
