(* ===== verification/Jobs.thy ===== *)
theory Jobs
  imports Keyed_Store
begin

text \<open>
  The job manager of the peer (\<^verbatim>\<open>peer/internal/jobs/job.go\<close> and the manager part of
  \<^verbatim>\<open>api.go\<close>): a slice of jobs guarded by a mutex, a flag that says whether the table
  changed since it was last written, and the history file.  An operation that finds the
  mutex held blocks, which is \<open>None\<close>; otherwise it returns its Go result and the manager
  it leaves.  The section on refinement shows that the slice implements a map from job id to
  job.
\<close>

section \<open>State and operations\<close>

record Job =
  FileHash :: string
  JobId :: string
  TimeQueued :: string
  Status :: string
  AccumulatedCost :: int
  ProjectedCost :: int
  ETA :: int
  PeerId :: string

record JobManager =
  Jobs :: "Job list"
  Mutex :: bool
  Changed :: bool

definition empty_manager :: JobManager where
  "empty_manager = \<lparr>Jobs = [], Mutex = False, Changed = False\<rparr>"

definition lock :: "JobManager \<Rightarrow> JobManager option" where
  "lock m = (if Mutex m then None else Some (m\<lparr>Mutex := True\<rparr>))"

definition unlock :: "JobManager \<Rightarrow> JobManager" where
  "unlock m = m\<lparr>Mutex := False\<rparr>"

definition AddJob :: "Job \<Rightarrow> JobManager \<Rightarrow> JobManager option" where
  "AddJob job m0 =
     (case lock m0 of None \<Rightarrow> None
      | Some m \<Rightarrow> Some (unlock (m\<lparr>Jobs := Jobs m @ [job], Changed := True\<rparr>)))"

definition RemoveFromHistory :: "string \<Rightarrow> JobManager \<Rightarrow> (unit outcome \<times> JobManager) option" where
  "RemoveFromHistory jobId m0 =
     (case lock m0 of None \<Rightarrow> None
      | Some m \<Rightarrow>
          (case first_idx (\<lambda>job. JobId job = jobId) (Jobs m) of
             Some idx \<Rightarrow>
               Some (Ok (), unlock (m\<lparr>Jobs := delete_at idx (Jobs m), Changed := True\<rparr>))
           | None \<Rightarrow> Some (Err ''unable to find job that matches jobID'', unlock m)))"

text \<open>
  \<^verbatim>\<open>ClearHistory\<close> keeps the jobs that are not completed.  The flag is set inside the
  loop, once per job that is kept.
\<close>

fun clear_loop :: "Job list \<Rightarrow> bool \<Rightarrow> Job list \<Rightarrow> bool \<times> Job list" where
  "clear_loop [] changed newJobs = (changed, newJobs)"
| "clear_loop (job # js) changed newJobs =
     (if Status job \<noteq> ''completed'' then clear_loop js True (newJobs @ [job])
      else clear_loop js changed newJobs)"

definition ClearHistory :: "JobManager \<Rightarrow> JobManager option" where
  "ClearHistory m0 =
     (case lock m0 of None \<Rightarrow> None
      | Some m \<Rightarrow>
          (let (changed, newJobs) = clear_loop (Jobs m) (Changed m) []
           in Some (unlock (m\<lparr>Changed := changed, Jobs := newJobs\<rparr>))))"

definition set_status_loop ::
    "string \<Rightarrow> string \<Rightarrow> JobManager \<Rightarrow> (unit outcome \<times> JobManager) option" where
  "set_status_loop status jobId m0 =
     (case lock m0 of None \<Rightarrow> None
      | Some m \<Rightarrow>
          (case first_idx (\<lambda>job. JobId job = jobId) (Jobs m) of
             Some idx \<Rightarrow>
               Some (Ok (), unlock (m\<lparr>Jobs := (Jobs m)[idx := (Jobs m ! idx)\<lparr>Status := status\<rparr>],
                                      Changed := True\<rparr>))
           | None \<Rightarrow> Some (Err (''Unable to find jobId: '' @ jobId), unlock m)))"

definition TerminateJob :: "string \<Rightarrow> JobManager \<Rightarrow> (unit outcome \<times> JobManager) option" where
  "TerminateJob jobId m = set_status_loop ''terminated'' jobId m"

definition PauseJob :: "string \<Rightarrow> JobManager \<Rightarrow> (unit outcome \<times> JobManager) option" where
  "PauseJob jobId m = set_status_loop ''paused'' jobId m"

definition StartJob :: "string \<Rightarrow> JobManager \<Rightarrow> (unit outcome \<times> JobManager) option" where
  "StartJob jobId m = set_status_loop ''active'' jobId m"

definition FindJob :: "string \<Rightarrow> JobManager \<Rightarrow> (Job outcome \<times> JobManager) option" where
  "FindJob jobId m0 =
     (case lock m0 of None \<Rightarrow> None
      | Some m \<Rightarrow>
          (case find (\<lambda>job. JobId job = jobId) (Jobs m) of
             Some job \<Rightarrow> Some (Ok job, unlock m)
           | None \<Rightarrow> Some (Err ''unable to find job with specified jobId'', unlock m)))"

text \<open>
  \<^verbatim>\<open>UpdateJobStatus\<close> and \<^verbatim>\<open>UpdateJobCost\<close> return a nil error even when no job
  matches; \<^verbatim>\<open>GetJobStatus\<close> reads without the lock.
\<close>

definition update_loop ::
    "(Job \<Rightarrow> Job) \<Rightarrow> string \<Rightarrow> JobManager \<Rightarrow> (unit outcome \<times> JobManager) option" where
  "update_loop f jobId m0 =
     (case lock m0 of None \<Rightarrow> None
      | Some m \<Rightarrow>
          (case first_idx (\<lambda>job. JobId job = jobId) (Jobs m) of
             Some idx \<Rightarrow>
               Some (Ok (), unlock (m\<lparr>Jobs := (Jobs m)[idx := f (Jobs m ! idx)], Changed := True\<rparr>))
           | None \<Rightarrow> Some (Ok (), unlock m)))"

definition UpdateJobStatus ::
    "string \<Rightarrow> string \<Rightarrow> JobManager \<Rightarrow> (unit outcome \<times> JobManager) option" where
  "UpdateJobStatus jobId status m = update_loop (\<lambda>j. j\<lparr>Status := status\<rparr>) jobId m"

definition UpdateJobCost ::
    "string \<Rightarrow> int \<Rightarrow> JobManager \<Rightarrow> (unit outcome \<times> JobManager) option" where
  "UpdateJobCost jobId additionalCost m =
     update_loop (\<lambda>j. j\<lparr>AccumulatedCost := wrap64 (AccumulatedCost j + additionalCost)\<rparr>) jobId m"

definition GetJobStatus :: "string \<Rightarrow> JobManager \<Rightarrow> string" where
  "GetJobStatus jobId m =
     (case find (\<lambda>job. JobId job = jobId) (Jobs m) of Some job \<Rightarrow> Status job | None \<Rightarrow> [])"

section \<open>Every operation takes and releases the mutex\<close>

lemmas lock_defs = lock_def unlock_def

lemma lock_free: "\<not> Mutex m \<Longrightarrow> lock m = Some (m\<lparr>Mutex := True\<rparr>)"
  by (simp add: lock_def)

lemma Jobs_unlock [simp]: "Jobs (unlock m) = Jobs m" "Mutex (unlock m) = False"
    "Changed (unlock m) = Changed m"
  by (simp_all add: unlock_def)

lemma AddJob_eq:
  "\<not> Mutex m \<Longrightarrow> AddJob job m = Some (m\<lparr>Jobs := Jobs m @ [job], Changed := True\<rparr>)"
  by (cases m) (simp add: AddJob_def lock_defs)

lemma RemoveFromHistory_eq:
  assumes "\<not> Mutex m"
  shows "RemoveFromHistory jobId m =
    Some (if jobId \<in> JobId ` set (Jobs m)
          then (Ok (), m\<lparr>Jobs := remove_first JobId jobId (Jobs m), Changed := True\<rparr>)
          else (Err ''unable to find job that matches jobID'', m))"
  using assms
  by (cases rule: first_idx_key_cases [of jobId JobId "Jobs m"]; cases m)
     (simp_all add: RemoveFromHistory_def lock_defs remove_first_def)

lemma update_loop_eq:
  assumes "\<not> Mutex m"
  shows "update_loop f jobId m =
    Some (Ok (), if jobId \<in> JobId ` set (Jobs m)
                 then m\<lparr>Jobs := update_first JobId f jobId (Jobs m), Changed := True\<rparr> else m)"
  using assms
  by (cases rule: first_idx_key_cases [of jobId JobId "Jobs m"]; cases m)
     (simp_all add: update_loop_def lock_defs update_first_def)

lemma set_status_loop_eq:
  assumes "\<not> Mutex m"
  shows "set_status_loop st jobId m =
    Some (if jobId \<in> JobId ` set (Jobs m)
          then (Ok (), m\<lparr>Jobs := update_first JobId (\<lambda>j. j\<lparr>Status := st\<rparr>) jobId (Jobs m),
                         Changed := True\<rparr>)
          else (Err (''Unable to find jobId: '' @ jobId), m))"
  using assms
  by (cases rule: first_idx_key_cases [of jobId JobId "Jobs m"]; cases m)
     (simp_all add: set_status_loop_def lock_defs update_first_def)

lemma FindJob_eq:
  "\<not> Mutex m \<Longrightarrow> FindJob jobId m =
    Some (case assoc JobId (Jobs m) jobId of
            Some job \<Rightarrow> Ok job | None \<Rightarrow> Err ''unable to find job with specified jobId'', m)"
  by (cases m) (auto simp: FindJob_def lock_defs assoc_def split: option.splits)

lemma clear_loop_eq:
  "clear_loop js ch acc =
    (ch \<or> (\<exists>j\<in>set js. Status j \<noteq> ''completed''),
     acc @ filter (\<lambda>j. Status j \<noteq> ''completed'') js)"
  by (induction js arbitrary: ch acc) auto

lemma ClearHistory_eq:
  "\<not> Mutex m \<Longrightarrow> ClearHistory m =
    Some (m\<lparr>Changed := Changed m \<or> (\<exists>j\<in>set (Jobs m). Status j \<noteq> ''completed''),
            Jobs := filter (\<lambda>j. Status j \<noteq> ''completed'') (Jobs m)\<rparr>)"
  by (cases m) (simp add: ClearHistory_def lock_defs clear_loop_eq)

lemmas job_op_eqs = AddJob_eq RemoveFromHistory_eq update_loop_eq set_status_loop_eq
  FindJob_eq ClearHistory_eq
lemmas job_op_defs = TerminateJob_def PauseJob_def StartJob_def UpdateJobStatus_def
  UpdateJobCost_def GetJobStatus_def

section \<open>The slice implements a map from job id to job\<close>

datatype job_update = Set_status string | Add_cost int

fun job_act :: "job_update \<Rightarrow> Job \<Rightarrow> Job" where
  "job_act (Set_status st) j = j\<lparr>Status := st\<rparr>"
| "job_act (Add_cost c) j = j\<lparr>AccumulatedCost := wrap64 (AccumulatedCost j + c)\<rparr>"

definition jobs_abs :: "JobManager \<Rightarrow> string \<Rightarrow> Job option" where
  "jobs_abs m = assoc JobId (Jobs m)"

definition jobs_inv :: "JobManager \<Rightarrow> bool" where
  "jobs_inv m \<longleftrightarrow> \<not> Mutex m \<and> distinct (map JobId (Jobs m))"

definition job_modify :: "job_update \<Rightarrow> string \<Rightarrow> JobManager \<Rightarrow> JobManager" where
  "job_modify u jobId m =
     (case update_loop (job_act u) jobId m of Some (_, m') \<Rightarrow> m' | None \<Rightarrow> m)"

definition job_remove :: "string \<Rightarrow> JobManager \<Rightarrow> JobManager" where
  "job_remove jobId m = (case RemoveFromHistory jobId m of Some (_, m') \<Rightarrow> m' | None \<Rightarrow> m)"

lemma JobId_job_act [simp]: "JobId (job_act u j) = JobId j"
  by (cases u) simp_all

lemma update_first_job_keys [simp]:
  "map JobId (update_first JobId (job_act u) k js) = map JobId js"
  by (rule keys_update_first) simp

lemma job_modify_simps:
  assumes "\<not> Mutex m"
  shows "Jobs (job_modify u jobId m) = update_first JobId (job_act u) jobId (Jobs m)"
    and "Mutex (job_modify u jobId m) = False"
  using assms by (auto simp: job_modify_def update_loop_eq update_first_absent)

lemma job_remove_simps:
  assumes "\<not> Mutex m"
  shows "Jobs (job_remove jobId m) = remove_first JobId jobId (Jobs m)"
    and "Mutex (job_remove jobId m) = False"
  using assms
  by (auto simp: job_remove_def RemoveFromHistory_eq remove_first_def first_idx_None_iff
      split: option.splits dest!: first_idx_SomeD)

interpretation job_table: keyed_store jobs_abs jobs_inv job_act job_modify job_remove
  by unfold_locales
     (simp_all add: jobs_abs_def jobs_inv_def job_modify_simps job_remove_simps
        assoc_update_first assoc_remove_first distinct_remove_first)

text \<open>
  The operations as one step function, and what each does to the abstract map.  A run stops
  being defined (\<open>None\<close>) where an operation would block.
\<close>

datatype job_op = Add Job | Remove string | Clear | Terminate string | Pause string
  | Start string | Update_status string string | Update_cost string int

fun job_step :: "job_op \<Rightarrow> JobManager \<Rightarrow> JobManager option" where
  "job_step (Add job) m = AddJob job m"
| "job_step (Remove k) m = map_option snd (RemoveFromHistory k m)"
| "job_step Clear m = ClearHistory m"
| "job_step (Terminate k) m = map_option snd (TerminateJob k m)"
| "job_step (Pause k) m = map_option snd (PauseJob k m)"
| "job_step (Start k) m = map_option snd (StartJob k m)"
| "job_step (Update_status k st) m = map_option snd (UpdateJobStatus k st m)"
| "job_step (Update_cost k c) m = map_option snd (UpdateJobCost k c m)"

fun jobs_run :: "job_op list \<Rightarrow> JobManager \<Rightarrow> JobManager option" where
  "jobs_run [] m = Some m"
| "jobs_run (p # ps) m = (case job_step p m of None \<Rightarrow> None | Some m' \<Rightarrow> jobs_run ps m')"

fun spec_step :: "job_op \<Rightarrow> (string \<Rightarrow> Job option) \<Rightarrow> string \<Rightarrow> Job option" where
  "spec_step (Add job) t = t(JobId job \<mapsto> job)"
| "spec_step (Remove k) t = t(k := None)"
| "spec_step Clear t = (\<lambda>k. case t k of None \<Rightarrow> None
     | Some j \<Rightarrow> if Status j = ''completed'' then None else Some j)"
| "spec_step (Terminate k) t = t(k := map_option (job_act (Set_status ''terminated'')) (t k))"
| "spec_step (Pause k) t = t(k := map_option (job_act (Set_status ''paused'')) (t k))"
| "spec_step (Start k) t = t(k := map_option (job_act (Set_status ''active'')) (t k))"
| "spec_step (Update_status k st) t = t(k := map_option (job_act (Set_status st)) (t k))"
| "spec_step (Update_cost k c) t = t(k := map_option (job_act (Add_cost c)) (t k))"

text \<open>Added jobs carry a fresh identifier (the handler draws a UUID).\<close>

fun fresh_ids :: "job_op list \<Rightarrow> string set \<Rightarrow> bool" where
  "fresh_ids [] used = True"
| "fresh_ids (Add job # ps) used = (JobId job \<notin> used \<and> fresh_ids ps (insert (JobId job) used))"
| "fresh_ids (_ # ps) used = fresh_ids ps used"

lemma job_act_eta:
  "job_act (Set_status st) = Status_update (\<lambda>_. st)"
  "job_act (Add_cost c) = (\<lambda>j. j\<lparr>AccumulatedCost := wrap64 (AccumulatedCost j + c)\<rparr>)"
  by (simp_all add: fun_eq_iff)

lemma set_status_step:
  "\<not> Mutex m \<Longrightarrow> map_option snd (set_status_loop st k m) = Some (job_modify (Set_status st) k m)"
  by (simp add: set_status_loop_eq job_modify_def update_loop_eq job_act_eta)

lemma update_step:
  "\<not> Mutex m \<Longrightarrow> map_option snd (update_loop (job_act u) k m) = Some (job_modify u k m)"
  by (simp add: job_modify_def update_loop_eq)

lemma remove_step:
  "\<not> Mutex m \<Longrightarrow> map_option snd (RemoveFromHistory k m) = Some (job_remove k m)"
  by (simp add: job_remove_def RemoveFromHistory_eq)

text \<open>Six of the operations are updates of the job under one key.\<close>

fun modify_of :: "job_op \<Rightarrow> (job_update \<times> string) option" where
  "modify_of (Terminate k) = Some (Set_status ''terminated'', k)"
| "modify_of (Pause k) = Some (Set_status ''paused'', k)"
| "modify_of (Start k) = Some (Set_status ''active'', k)"
| "modify_of (Update_status k st) = Some (Set_status st, k)"
| "modify_of (Update_cost k c) = Some (Add_cost c, k)"
| "modify_of _ = None"

lemma update_step_eta:
  "\<not> Mutex m \<Longrightarrow> map_option snd (UpdateJobStatus k st m) = Some (job_modify (Set_status st) k m)"
  "\<not> Mutex m \<Longrightarrow> map_option snd (UpdateJobCost k c m) = Some (job_modify (Add_cost c) k m)"
  by (simp_all add: UpdateJobStatus_def UpdateJobCost_def job_modify_def update_loop_eq job_act_eta)

lemma job_step_modify:
  assumes "\<not> Mutex m" and "modify_of p = Some (u, k)"
  shows "job_step p m = Some (job_modify u k m)"
  using assms
  by (cases p)
     (auto simp: TerminateJob_def PauseJob_def StartJob_def set_status_step update_step_eta
        simp del: map_option_eq_Some)

lemma spec_step_modify:
  "modify_of p = Some (u, k) \<Longrightarrow> spec_step p t = t(k := map_option (job_act u) (t k))"
  by (cases p) auto

lemma assoc_filter_Clear:
  "distinct (map JobId js) \<Longrightarrow>
    assoc JobId (filter (\<lambda>j. Status j \<noteq> ''completed'') js) k = spec_step Clear (assoc JobId js) k"
proof (induction js)
  case Nil
  then show ?case by simp
next
  case (Cons j js)
  then have "assoc JobId js (JobId j) = None" by (simp add: assoc_None_iff)
  with Cons show ?case by auto
qed

lemma AddJob_refines:
  assumes "jobs_inv m" and "jobs_abs m (JobId j) = None"
  shows "\<exists>m'. AddJob j m = Some m' \<and> jobs_inv m' \<and> jobs_abs m' = (jobs_abs m)(JobId j \<mapsto> j)"
proof -
  from assms(2) have "JobId j \<notin> JobId ` set (Jobs m)"
    by (simp add: jobs_abs_def assoc_None_iff)
  with assms show ?thesis
    by (simp add: AddJob_eq jobs_inv_def jobs_abs_def assoc_snoc_fresh)
qed

lemma ClearHistory_refines:
  assumes "jobs_inv m"
  shows "\<exists>m'. ClearHistory m = Some m' \<and> jobs_inv m' \<and> jobs_abs m' = spec_step Clear (jobs_abs m)"
  using assms
  by (simp add: ClearHistory_eq jobs_inv_def jobs_abs_def assoc_filter_Clear distinct_map_filter
      fun_eq_iff del: spec_step.simps)

lemma job_step_refines:
  assumes inv: "jobs_inv m" and fresh: "\<And>j. p = Add j \<Longrightarrow> jobs_abs m (JobId j) = None"
  shows "\<exists>m'. job_step p m = Some m' \<and> jobs_inv m' \<and> jobs_abs m' = spec_step p (jobs_abs m)"
proof -
  from inv have free: "\<not> Mutex m" by (simp add: jobs_inv_def)
  show ?thesis
  proof (cases "modify_of p")
    case (Some uk)
    obtain u k where uk: "uk = (u, k)" by (cases uk)
    with Some have "modify_of p = Some (u, k)" by simp
    from job_step_modify [OF free this] spec_step_modify [OF this] inv show ?thesis
      by (simp add: job_table.abs_modify job_table.inv_modify)
  next
    case None
    then consider j where "p = Add j" | k where "p = Remove k" | "p = Clear"
      by (cases p) simp_all
    then show ?thesis
    proof cases
      case 1
      with AddJob_refines [OF inv fresh [OF 1]] show ?thesis by simp
    next
      case 2
      with remove_step [OF free] inv show ?thesis
        by (simp only: job_step.simps spec_step.simps)
           (simp add: job_table.abs_remove job_table.inv_remove)
    next
      case 3
      with ClearHistory_refines [OF inv] show ?thesis by (simp del: spec_step.simps)
    qed
  qed
qed

lemma dom_spec_step: "dom (spec_step p t) \<subseteq> dom t \<union> {JobId j | j. p = Add j}"
  by (cases p) (auto simp: dom_def split: option.splits if_splits)

lemma jobs_run_refines_used:
  assumes "jobs_inv m" and "fresh_ids ps used" and "dom (jobs_abs m) \<subseteq> used"
  shows "\<exists>m'. jobs_run ps m = Some m' \<and> jobs_inv m' \<and> jobs_abs m' = fold spec_step ps (jobs_abs m)"
  using assms
proof (induction ps arbitrary: m used)
  case Nil
  then show ?case by simp
next
  case (Cons p ps)
  from Cons.prems have "\<And>j. p = Add j \<Longrightarrow> jobs_abs m (JobId j) = None" by auto
  from job_step_refines [OF Cons.prems(1) this] obtain m1 where
    m1: "job_step p m = Some m1" "jobs_inv m1" "jobs_abs m1 = spec_step p (jobs_abs m)" by blast
  let ?used = "used \<union> {JobId j | j. p = Add j}"
  have "fresh_ids ps ?used" using Cons.prems(2) by (cases p) simp_all
  moreover have "dom (jobs_abs m1) \<subseteq> ?used"
    using dom_spec_step [of p "jobs_abs m"] Cons.prems(3) m1(3) by auto
  ultimately show ?case using Cons.IH [OF m1(2)] m1 by fastforce
qed

text \<open>
  C23: Job table refinement.  From a manager whose mutex is free and whose job ids are
  distinct, every sequence of job operations in which added jobs have fresh ids runs to the
  end (no operation blocks on the mutex), keeps the mutex free and the ids distinct, and has
  on the map from job id to job exactly the effect of the abstract operations: add, remove,
  drop the completed jobs, set the status, add to the accumulated cost.
\<close>

theorem jobs_run_refines:
  assumes "jobs_inv m" and "fresh_ids ps (dom (jobs_abs m))"
  shows "\<exists>m'. jobs_run ps m = Some m' \<and> jobs_inv m' \<and> jobs_abs m' = fold spec_step ps (jobs_abs m)"
  using jobs_run_refines_used [OF assms] by simp

definition sample_job :: "string \<Rightarrow> string \<Rightarrow> Job" where
  "sample_job k st = \<lparr>FileHash = ''f'', JobId = k, TimeQueued = ''t'', Status = st,
     AccumulatedCost = 0, ProjectedCost = -1, ETA = -1, PeerId = ''p''\<rparr>"

theorem jobs_run_refines_witness:
  "\<exists>m'. jobs_run [Add (sample_job ''a'' ''active''), Pause ''a'', Update_cost ''a'' 7] empty_manager
      = Some m' \<and> jobs_inv m' \<and>
    jobs_abs m' = fold spec_step [Add (sample_job ''a'' ''active''), Pause ''a'', Update_cost ''a'' 7]
      (jobs_abs empty_manager)"
  by (rule jobs_run_refines)
     (simp_all add: jobs_inv_def empty_manager_def jobs_abs_def sample_job_def dom_def)

end
