(* ===== verification/Job_History.thy ===== *)
theory Job_History
  imports Jobs
begin

text \<open>
  Persistence of the job table: the history file, \<^verbatim>\<open>LoadHistory\<close> and
  \<^verbatim>\<open>SaveHistory\<close> of \<^verbatim>\<open>peer/internal/jobs/job.go\<close> and the periodic saver of
  \<^verbatim>\<open>api.go\<close>.  The lemmas show when the file and the table agree.
\<close>

section \<open>The history file\<close>

text \<open>
  The file \<^verbatim>\<open>jobs.json\<close> is absent, holds the JSON of a job slice, or holds bytes that
  do not parse.  \<^verbatim>\<open>os.WriteFile\<close> truncates the file before it writes: it can fail to
  open (the file is unchanged) or fail half way (a torn file stays behind).
\<close>

datatype job_file = Jobs_json "Job list" | Not_json bytes

record job_world =
  Manager :: JobManager
  jobs_file :: "job_file option"

definition LoadHistory :: "job_world \<Rightarrow> Job list outcome" where
  "LoadHistory w =
     (case jobs_file w of
        None \<Rightarrow> Err ''no such file or directory''
      | Some (Not_json _) \<Rightarrow> Err ''invalid JSON''
      | Some (Jobs_json js) \<Rightarrow> Ok js)"

definition SaveHistory :: "write_result \<Rightarrow> Job list \<Rightarrow> job_world \<Rightarrow> unit outcome \<times> job_world" where
  "SaveHistory res jobs w0 =
     (let w = w0\<lparr>Manager := (Manager w0)\<lparr>Changed := False\<rparr>\<rparr>
      in case res of
           Written \<Rightarrow> (Ok (), w\<lparr>jobs_file := Some (Jobs_json jobs)\<rparr>)
         | Open_failed \<Rightarrow> (Err ''open failed'', w)
         | Write_failed torn \<Rightarrow> (Err ''write failed'', w\<lparr>jobs_file := Some (Not_json torn)\<rparr>))"

text \<open>One round of the loop of \<^verbatim>\<open>InitPeriodicJobSave\<close>; the error of the save is dropped.\<close>

definition periodic_save :: "write_result \<Rightarrow> job_world \<Rightarrow> job_world option" where
  "periodic_save res w0 =
     (case lock (Manager w0) of None \<Rightarrow> None
      | Some m \<Rightarrow>
          (let w = w0\<lparr>Manager := m\<rparr>;
               w' = (if Changed m then snd (SaveHistory res (Jobs m) w) else w)
           in Some (w'\<lparr>Manager := unlock (Manager w')\<rparr>)))"

section \<open>Interleaving of job operations and saves\<close>

datatype store_event = Op job_op | Save write_result

fun event_step :: "store_event \<Rightarrow> job_world \<Rightarrow> job_world option" where
  "event_step (Op p) w = map_option (\<lambda>m. w\<lparr>Manager := m\<rparr>) (job_step p (Manager w))"
| "event_step (Save res) w = periodic_save res w"

fun events_run :: "store_event list \<Rightarrow> job_world \<Rightarrow> job_world option" where
  "events_run [] w = Some w"
| "events_run (e # es) w = (case event_step e w of None \<Rightarrow> None | Some w' \<Rightarrow> events_run es w')"

definition in_sync :: "job_world \<Rightarrow> bool" where
  "in_sync w \<longleftrightarrow> \<not> Mutex (Manager w) \<and>
     (\<not> Changed (Manager w) \<longrightarrow> jobs_file w = Some (Jobs_json (Jobs (Manager w))))"

lemma periodic_save_eq:
  "\<not> Mutex (Manager w) \<Longrightarrow> periodic_save Written w = Some
     (if Changed (Manager w)
      then w\<lparr>Manager := (Manager w)\<lparr>Changed := False\<rparr>, jobs_file := Some (Jobs_json (Jobs (Manager w)))\<rparr>
      else w)"
  by (cases w; cases "Manager w") (auto simp: periodic_save_def SaveHistory_def lock_defs Let_def)

text \<open>An operation other than \<^verbatim>\<open>ClearHistory\<close> sets the flag whenever it changes the jobs.\<close>

lemma job_step_marks:
  assumes "\<not> Mutex m" and "p \<noteq> Clear"
  shows "\<exists>m'. job_step p m = Some m' \<and> \<not> Mutex m' \<and> (Changed m' \<or> m' = m)"
proof (cases p)
  case (Remove k)
  with assms show ?thesis by (simp add: RemoveFromHistory_eq)
qed (use assms in \<open>simp_all add: AddJob_eq TerminateJob_def PauseJob_def StartJob_def
       UpdateJobStatus_def UpdateJobCost_def set_status_loop_eq update_loop_eq\<close>)

lemma event_step_in_sync:
  assumes "in_sync w" and "e \<noteq> Op Clear" and "\<And>res. e = Save res \<Longrightarrow> res = Written"
  shows "\<exists>w'. event_step e w = Some w' \<and> in_sync w' \<and>
    (case e of Op p \<Rightarrow> job_step p (Manager w) = Some (Manager w')
     | Save _ \<Rightarrow> Jobs (Manager w') = Jobs (Manager w) \<and> \<not> Changed (Manager w'))"
proof (cases e)
  case (Op p)
  with assms(1,2) job_step_marks [of "Manager w" p] obtain m where
    "job_step p (Manager w) = Some m" "\<not> Mutex m" "Changed m \<or> m = Manager w"
    by (auto simp: in_sync_def)
  with Op assms(1) show ?thesis by (auto simp: in_sync_def)
next
  case (Save res)
  with assms have "res = Written" by blast
  with Save assms(1) show ?thesis by (auto simp: in_sync_def periodic_save_eq)
qed

lemma events_run_in_sync:
  assumes "in_sync w" and "Op Clear \<notin> set es" and "\<forall>res. Save res \<in> set es \<longrightarrow> res = Written"
  shows "\<exists>w'. events_run es w = Some w' \<and> in_sync w'"
  using assms
proof (induction es arbitrary: w)
  case Nil
  then show ?case by simp
next
  case (Cons e es)
  from Cons.prems have "e \<noteq> Op Clear" and "\<And>res. e = Save res \<Longrightarrow> res = Written" by auto
  from event_step_in_sync [OF Cons.prems(1) this] obtain w1
    where "event_step e w = Some w1" "in_sync w1" by blast
  with Cons show ?case by auto
qed

lemma events_run_append:
  "events_run (es @ fs) w = (case events_run es w of None \<Rightarrow> None | Some w' \<Rightarrow> events_run fs w')"
  by (induction es arbitrary: w) (auto split: option.splits)

text \<open>
  C24: The history file.  Start from a state in which the flag is set or the file holds the
  table.  After any interleaving of job operations other than \<^verbatim>\<open>ClearHistory\<close> with
  successful rounds of the periodic saver, one further successful round makes
  \<^verbatim>\<open>LoadHistory\<close> return exactly the jobs of the manager.
\<close>

theorem save_then_load:
  assumes "in_sync w" and "Op Clear \<notin> set es" and "\<forall>res. Save res \<in> set es \<longrightarrow> res = Written"
  shows "\<exists>w'. events_run (es @ [Save Written]) w = Some w' \<and> LoadHistory w' = Ok (Jobs (Manager w'))"
proof -
  from events_run_in_sync [OF assms] obtain w1
    where w1: "events_run es w = Some w1" "in_sync w1" by blast
  from event_step_in_sync [OF w1(2), of "Save Written"] obtain w2
    where "event_step (Save Written) w1 = Some w2" "in_sync w2" "\<not> Changed (Manager w2)" by auto
  then show ?thesis by (auto simp: events_run_append w1 in_sync_def LoadHistory_def)
qed

definition sample_world :: job_world where
  "sample_world = \<lparr>Manager = empty_manager, jobs_file = Some (Jobs_json [])\<rparr>"

theorem save_then_load_witness:
  "\<exists>w'. events_run ([Op (Add (sample_job ''a'' ''active'')), Save Written, Op (Remove ''a'')]
      @ [Save Written]) sample_world = Some w' \<and> LoadHistory w' = Ok (Jobs (Manager w'))"
  by (rule save_then_load) (simp_all add: in_sync_def sample_world_def empty_manager_def)

text \<open>
  \<^verbatim>\<open>ClearHistory\<close> sets the flag only for jobs it keeps.  When the table was saved
  and every job is completed, clearing empties the table but the next round of the saver
  writes nothing, and \<^verbatim>\<open>LoadHistory\<close> still returns the cleared jobs.
\<close>

theorem clear_history_not_saved:
  assumes "\<not> Mutex (Manager w)" and "\<not> Changed (Manager w)"
    and "jobs_file w = Some (Jobs_json (Jobs (Manager w)))"
    and "\<forall>j\<in>set (Jobs (Manager w)). Status j = ''completed''"
  shows "\<exists>w'. events_run [Op Clear, Save Written] w = Some w' \<and> Jobs (Manager w') = []
    \<and> LoadHistory w' = Ok (Jobs (Manager w))"
  using assms by (auto simp: ClearHistory_eq periodic_save_eq LoadHistory_def)

theorem clear_history_not_saved_witness:
  "\<exists>w'. events_run [Op Clear, Save Written]
      (sample_world\<lparr>Manager := empty_manager\<lparr>Jobs := [sample_job ''a'' ''completed'']\<rparr>,
                    jobs_file := Some (Jobs_json [sample_job ''a'' ''completed''])\<rparr>) = Some w'
    \<and> Jobs (Manager w') = []
    \<and> LoadHistory w' = Ok [sample_job ''a'' ''completed'']"
  using clear_history_not_saved [of "sample_world\<lparr>
      Manager := empty_manager\<lparr>Jobs := [sample_job ''a'' ''completed'']\<rparr>,
      jobs_file := Some (Jobs_json [sample_job ''a'' ''completed''])\<rparr>"]
  by (simp add: sample_world_def empty_manager_def sample_job_def)

end
