(* ===== verification/Job_Handlers.thy ===== *)
theory Job_Handlers
  imports Http Job_History
begin

text \<open>
  The HTTP handlers of the job manager (\<^verbatim>\<open>peer/internal/jobs/api.go\<close>) and the handler
  that queues a job (\<^verbatim>\<open>AddJobHandler\<close> of \<^verbatim>\<open>peer/internal/server/server.go\<close>).
  A request is its method and its decoded payload, \<open>None\<close> where the JSON decoder fails;
  a handler returns the response and the manager it leaves, \<open>None\<close> where it blocks.
\<close>

section \<open>Handlers\<close>

datatype job_payload = Job_json Job | Job_list "Job list" | History_json "Job list option"
  | Job_id_json string

type_synonym job_response = "job_payload response"

abbreviation bad_payload :: string where
  "bad_payload \<equiv>
     ''Cannot marshal payload in Go object. Does the payload have the correct body structure?''"

definition RemoveFromHistoryHandler ::
    "http_method \<Rightarrow> string option \<Rightarrow> JobManager \<Rightarrow> (job_response \<times> JobManager) option" where
  "RemoveFromHistoryHandler method payload m =
     (if method = PATCH then
        case payload of
          None \<Rightarrow> Some (writeStatusUpdate bad_payload (WriteHeader 400 fresh_response), m)
        | Some jobId \<Rightarrow>
            (case RemoveFromHistory jobId m of
               None \<Rightarrow> None
             | Some (Err e, m') \<Rightarrow> Some (writeStatusUpdate e (WriteHeader 400 fresh_response), m')
             | Some (_, m') \<Rightarrow>
                 Some (writeStatusUpdate ''success'' (WriteHeader 200 fresh_response), m'))
      else Some (writeStatusUpdate ''Only PATCH requests will be handled.''
                   (WriteHeader 405 fresh_response), m))"

definition ClearHistoryHandler ::
    "http_method \<Rightarrow> JobManager \<Rightarrow> (job_response \<times> JobManager) option" where
  "ClearHistoryHandler method m =
     (if method = PATCH then
        case ClearHistory m of
          None \<Rightarrow> None
        | Some m' \<Rightarrow> Some (WriteHeader 200 (SetContentType ''application/json'' fresh_response), m')
      else Some (writeStatusUpdate ''Only PATCH requests will be handled.''
                   (WriteHeader 405 fresh_response), m))"

definition JobInfoHandler ::
    "http_method \<Rightarrow> string \<Rightarrow> JobManager \<Rightarrow> (job_response \<times> JobManager) option" where
  "JobInfoHandler method jobId m =
     (if method = GET then
        case FindJob jobId m of
          None \<Rightarrow> None
        | Some (Ok job, m') \<Rightarrow>
            Some (Write (Payload (Job_json job))
                    (WriteHeader 200 (SetContentType ''application/json'' fresh_response)), m')
        | Some (Err e, m') \<Rightarrow> Some (writeStatusUpdate e (WriteHeader 400 fresh_response), m')
        | Some (Panic e, m') \<Rightarrow> Some (writeStatusUpdate e (WriteHeader 400 fresh_response), m')
      else Some (writeStatusUpdate ''Only GET requests will be handled.''
                   (WriteHeader 405 fresh_response), m))"

text \<open>
  The loop of \<^verbatim>\<open>StartJobsHandler\<close>, \<^verbatim>\<open>PauseJobsHandler\<close> and
  \<^verbatim>\<open>TerminateJobsHandler\<close>: an id that is not found writes an error status and message
  and the loop goes on.
\<close>

fun batch_loop ::
    "(string \<Rightarrow> JobManager \<Rightarrow> (unit outcome \<times> JobManager) option) \<Rightarrow> string list \<Rightarrow>
     job_response \<Rightarrow> JobManager \<Rightarrow> (job_response \<times> JobManager) option" where
  "batch_loop f [] w m = Some (w, m)"
| "batch_loop f (jobId # jobIds) w m =
     (case f jobId m of
        None \<Rightarrow> None
      | Some (Err e, m') \<Rightarrow> batch_loop f jobIds (writeStatusUpdate e (WriteHeader 400 w)) m'
      | Some (_, m') \<Rightarrow> batch_loop f jobIds w m')"

definition batch_handler ::
    "(string \<Rightarrow> JobManager \<Rightarrow> (unit outcome \<times> JobManager) option) \<Rightarrow>
     http_method \<Rightarrow> string list option \<Rightarrow> JobManager \<Rightarrow> (job_response \<times> JobManager) option" where
  "batch_handler f method payload m =
     (if method = PATCH then
        case payload of
          None \<Rightarrow> Some (writeStatusUpdate bad_payload (WriteHeader 400 fresh_response), m)
        | Some jobIds \<Rightarrow>
            (case batch_loop f jobIds fresh_response m of
               None \<Rightarrow> None
             | Some (w, m') \<Rightarrow>
                 Some (writeStatusUpdate ''Successfully added job.'' (WriteHeader 200 w), m'))
      else Some (writeStatusUpdate ''Only PATCH requests will be handled.''
                   (WriteHeader 405 fresh_response), m))"

definition StartJobsHandler ::
    "http_method \<Rightarrow> string list option \<Rightarrow> JobManager \<Rightarrow> (job_response \<times> JobManager) option" where
  "StartJobsHandler = batch_handler StartJob"

definition PauseJobsHandler ::
    "http_method \<Rightarrow> string list option \<Rightarrow> JobManager \<Rightarrow> (job_response \<times> JobManager) option" where
  "PauseJobsHandler = batch_handler PauseJob"

definition TerminateJobsHandler ::
    "http_method \<Rightarrow> string list option \<Rightarrow> JobManager \<Rightarrow> (job_response \<times> JobManager) option" where
  "TerminateJobsHandler = batch_handler TerminateJob"

definition JobListHandler :: "http_method \<Rightarrow> JobManager \<Rightarrow> job_response" where
  "JobListHandler method m =
     (if method = GET then
        Write (Payload (Job_list (Jobs m)))
          (WriteHeader 200 (SetContentType ''application/json'' fresh_response))
      else writeStatusUpdate ''Only GET requests will be handled.''
             (WriteHeader 405 fresh_response))"

text \<open>
  \<^verbatim>\<open>GetHistoryHandler\<close> has no return after a failed load: the JSON of the nil slice
  follows the error message.
\<close>

definition GetHistoryHandler :: "http_method \<Rightarrow> job_world \<Rightarrow> job_response" where
  "GetHistoryHandler method w =
     (if method = GET then
        (let (r, histories) =
           (case LoadHistory w of
              Ok js \<Rightarrow> (fresh_response, Some js)
            | _ \<Rightarrow> (writeStatusUpdate ''Unable to read all histories''
                      (WriteHeader 500 fresh_response), None))
         in Write (Payload (History_json histories))
              (WriteHeader 200 (SetContentType ''application/json'' r)))
      else writeStatusUpdate ''Only GET requests will be handled.''
             (WriteHeader 405 fresh_response))"

text \<open>
  \<^verbatim>\<open>AddJobHandler\<close>: the fresh UUID and the time are inputs; the goroutine it starts is
  the third component of the result, with the arguments of \<^verbatim>\<open>jobRoutine\<close>.
\<close>

definition AddJobHandler ::
    "http_method \<Rightarrow> (string \<times> string) option \<Rightarrow> string \<Rightarrow> string \<Rightarrow> JobManager \<Rightarrow>
     (job_response \<times> JobManager \<times> (string \<times> string \<times> string) option) option" where
  "AddJobHandler method payload uuid timeString m =
     (if method = PUT then
        case payload of
          None \<Rightarrow> Some (writeStatusUpdate bad_payload (WriteHeader 400 fresh_response), m, None)
        | Some (fileHash, peerId) \<Rightarrow>
            (let newJob = \<lparr>FileHash = fileHash, JobId = uuid, TimeQueued = timeString,
                           Status = ''active'', AccumulatedCost = 0, ProjectedCost = -1,
                           ETA = -1, PeerId = peerId\<rparr>
             in case AddJob newJob m of
                  None \<Rightarrow> None
                | Some m' \<Rightarrow>
                    Some (Write (Payload (Job_id_json (JobId newJob)))
                            (WriteHeader 200 (SetContentType ''application/json''
                              (WriteHeader 200 fresh_response))),
                          m', Some (JobId newJob, fileHash, peerId)))
      else Some (writeStatusUpdate ''Only PUT requests will be handled.''
                   (WriteHeader 405 fresh_response), m, None))"

section \<open>Batches of status changes\<close>

text \<open>
  What the three batch handlers rely on: an operation that applies one idempotent update to
  the job under an id, and returns an error when there is no such job.
\<close>

locale batch_op =
  fixes f :: "string \<Rightarrow> JobManager \<Rightarrow> (unit outcome \<times> JobManager) option"
    and u :: job_update
  assumes op_present: "jobs_inv m \<Longrightarrow> k \<in> dom (jobs_abs m) \<Longrightarrow> f k m = Some (Ok (), job_modify u k m)"
    and op_absent: "jobs_inv m \<Longrightarrow> k \<notin> dom (jobs_abs m) \<Longrightarrow> \<exists>e. f k m = Some (Err e, m)"
    and act_idem: "job_act u (job_act u j) = job_act u j"
begin

lemma modify_dom: "jobs_inv m \<Longrightarrow> dom (jobs_abs (job_modify u k m)) = dom (jobs_abs m)"
  using job_table.fold_modify_dom [of m u "[k]"] by simp

lemma batch_loop_result:
  assumes "jobs_inv m"
  shows "\<exists>w' m'. batch_loop f ids w m = Some (w', m') \<and> jobs_inv m' \<and>
    (\<forall>k. jobs_abs m' k = (if k \<in> set ids then map_option (job_act u) (jobs_abs m k)
                           else jobs_abs m k)) \<and>
    status_code w' = (if set ids \<subseteq> dom (jobs_abs m) then status_code w
                      else case status_code w of None \<Rightarrow> Some 400 | Some c \<Rightarrow> Some c)"
  using assms
proof (induction ids arbitrary: w m)
  case Nil
  then show ?case by simp
next
  case (Cons k ids)
  show ?case
  proof (cases "k \<in> dom (jobs_abs m)")
    case True
    have inv: "jobs_inv (job_modify u k m)" using Cons.prems by (rule job_table.inv_modify)
    from Cons.IH [OF this, of w] obtain w' m' where IH:
      "batch_loop f ids w (job_modify u k m) = Some (w', m')" "jobs_inv m'"
      "\<forall>j. jobs_abs m' j = (if j \<in> set ids then map_option (job_act u) (jobs_abs (job_modify u k m) j)
                             else jobs_abs (job_modify u k m) j)"
      "status_code w' = (if set ids \<subseteq> dom (jobs_abs m) then status_code w
                         else case status_code w of None \<Rightarrow> Some 400 | Some c \<Rightarrow> Some c)"
      using modify_dom [OF Cons.prems] by auto
    have "jobs_abs m' j = (if j \<in> set (k # ids) then map_option (job_act u) (jobs_abs m j)
                            else jobs_abs m j)" for j
      using IH(3) Cons.prems
      by (auto simp: job_table.abs_modify option.map_comp comp_def act_idem)
    with IH True show ?thesis by (auto simp: op_present [OF Cons.prems])
  next
    case False
    then obtain e where e: "f k m = Some (Err e, m)" using op_absent [OF Cons.prems] by blast
    from Cons.IH [OF Cons.prems, of "writeStatusUpdate e (WriteHeader 400 w)"] False
    show ?thesis
      by (fastforce simp: e dom_def split: option.splits)
  qed
qed

lemma batch_handler_result:
  assumes "jobs_inv m"
  shows "\<exists>w m'. batch_handler f PATCH (Some ids) m = Some (w, m') \<and> jobs_inv m' \<and>
    (\<forall>k. jobs_abs m' k = (if k \<in> set ids then map_option (job_act u) (jobs_abs m k)
                           else jobs_abs m k)) \<and>
    final_status w = (if set ids \<subseteq> dom (jobs_abs m) then 200 else 400) \<and>
    last (body w) = Status_msg ''Successfully added job.''"
  using batch_loop_result [OF assms, of ids fresh_response]
  by (auto simp: batch_handler_def final_status_def split: if_splits)

end

lemma set_status_batch: "batch_op (set_status_loop st) (Set_status st)"
  by unfold_locales
     (auto simp: set_status_loop_eq jobs_inv_def job_modify_def update_loop_eq job_act_eta
        jobs_abs_def dom_def assoc_None_iff)

interpretation start_batch: batch_op StartJob "Set_status ''active''"
  using set_status_batch [of "''active''"] by (simp add: StartJob_def [abs_def])

interpretation pause_batch: batch_op PauseJob "Set_status ''paused''"
  using set_status_batch [of "''paused''"] by (simp add: PauseJob_def [abs_def])

interpretation terminate_batch: batch_op TerminateJob "Set_status ''terminated''"
  using set_status_batch [of "''terminated''"] by (simp add: TerminateJob_def [abs_def])

text \<open>
  Terminating a batch of jobs.  On a well-formed manager the handler always answers; every
  listed job that exists ends with status "terminated" and no other job or field changes; the
  response is 200 when all ids exist and 400 when one does not, and in both cases the body
  ends with the success message.
\<close>

theorem terminate_jobs_handler:
  assumes "jobs_inv m"
  shows "\<exists>w m'. TerminateJobsHandler PATCH (Some ids) m = Some (w, m') \<and> jobs_inv m' \<and>
    (\<forall>k. jobs_abs m' k = (if k \<in> set ids then map_option (\<lambda>j. j\<lparr>Status := ''terminated''\<rparr>) (jobs_abs m k)
                           else jobs_abs m k)) \<and>
    final_status w = (if set ids \<subseteq> dom (jobs_abs m) then 200 else 400) \<and>
    last (body w) = Status_msg ''Successfully added job.''"
  using terminate_batch.batch_handler_result [OF assms, of ids]
  by (simp only: TerminateJobsHandler_def job_act_eta)

theorem terminate_jobs_handler_witness:
  "\<exists>w m'. TerminateJobsHandler PATCH (Some [''a'', ''zz''])
      (empty_manager\<lparr>Jobs := [sample_job ''a'' ''active'']\<rparr>) = Some (w, m') \<and> jobs_inv m' \<and>
    (\<forall>k. jobs_abs m' k = (if k \<in> set [''a'', ''zz'']
       then map_option (\<lambda>j. j\<lparr>Status := ''terminated''\<rparr>)
              (jobs_abs (empty_manager\<lparr>Jobs := [sample_job ''a'' ''active'']\<rparr>) k)
       else jobs_abs (empty_manager\<lparr>Jobs := [sample_job ''a'' ''active'']\<rparr>) k)) \<and>
    final_status w = (if set [''a'', ''zz'']
       \<subseteq> dom (jobs_abs (empty_manager\<lparr>Jobs := [sample_job ''a'' ''active'']\<rparr>)) then 200 else 400) \<and>
    last (body w) = Status_msg ''Successfully added job.''"
  by (rule terminate_jobs_handler) (simp add: jobs_inv_def empty_manager_def)

text \<open>
  Queueing a job.  With a fresh id the handler starts one download routine with that id,
  answers with the id, and a following job-info request for the id is answered 200 with a job
  that is active, has cost 0 and carries the requested file hash and peer.
\<close>

theorem add_job_then_info:
  assumes "jobs_inv m" and "jobs_abs m uuid = None"
  shows "\<exists>w m' j r m''. AddJobHandler PUT (Some (h, p)) uuid t m = Some (w, m', Some (uuid, h, p)) \<and>
    jobs_inv m' \<and> body w = [Payload (Job_id_json uuid)] \<and>
    JobInfoHandler GET uuid m' = Some (r, m'') \<and> final_status r = 200 \<and>
    body r = [Payload (Job_json j)] \<and> Status j = ''active'' \<and> AccumulatedCost j = 0 \<and>
    FileHash j = h \<and> PeerId j = p"
proof -
  let ?j = "\<lparr>FileHash = h, JobId = uuid, TimeQueued = t, Status = ''active'', AccumulatedCost = 0,
             ProjectedCost = -1, ETA = -1, PeerId = p\<rparr>"
  from AddJob_refines [OF assms(1), of ?j] assms(2) obtain m' where
    m': "AddJob ?j m = Some m'" "jobs_inv m'" "jobs_abs m' uuid = Some ?j" by auto
  then have "FindJob uuid m' = Some (Ok ?j, m')"
    by (simp add: FindJob_eq jobs_inv_def jobs_abs_def)
  with m' show ?thesis by (simp add: AddJobHandler_def JobInfoHandler_def final_status_def Let_def)
qed

theorem add_job_then_info_witness:
  "\<exists>w m' j r m''. AddJobHandler PUT (Some (''h'', ''p'')) ''id'' ''t'' empty_manager
      = Some (w, m', Some (''id'', ''h'', ''p'')) \<and>
    jobs_inv m' \<and> body w = [Payload (Job_id_json ''id'')] \<and>
    JobInfoHandler GET ''id'' m' = Some (r, m'') \<and> final_status r = 200 \<and>
    body r = [Payload (Job_json j)] \<and> Status j = ''active'' \<and> AccumulatedCost j = 0 \<and>
    FileHash j = ''h'' \<and> PeerId j = ''p''"
  by (rule add_job_then_info) (simp_all add: jobs_inv_def jobs_abs_def empty_manager_def)

end
