(* ===== verification/Peer_Storage.thy ===== *)
theory Peer_Storage
  imports Keyed_Store
begin

text \<open>
  The in-memory stores behind the peer's HTTP API: the peer storage
  (\<^verbatim>\<open>peer/internal/api/peers.go\<close>) and the activity list of the backend
  (\<^verbatim>\<open>activities.go\<close> and \<^verbatim>\<open>files.go\<close>).  Every method takes the store's mutex and
  releases it with \<^verbatim>\<open>defer\<close>, so a method is one atomic step.  Both stores implement the
  keyed-store interface.
\<close>

section \<open>Peer storage\<close>

record PeerInfo =
  Location :: string
  Latency :: string
  PeerID :: string
  Connection :: string
  OpenStreams :: string
  FlagUrl :: string

type_synonym PeerStorage = "string \<Rightarrow> PeerInfo option"

definition NewPeerStorage :: PeerStorage where
  "NewPeerStorage = Map.empty"

text \<open>\<^verbatim>\<open>AddPeer\<close> on a nil storage only logs; a peer without an id is ignored.\<close>

definition AddPeer :: "PeerInfo \<Rightarrow> PeerStorage option \<Rightarrow> PeerStorage option" where
  "AddPeer peer ps =
     (case ps of
        None \<Rightarrow> None
      | Some peers \<Rightarrow> if PeerID peer = [] then Some peers else Some (peers(PeerID peer \<mapsto> peer)))"

definition GetPeer :: "string \<Rightarrow> PeerStorage \<Rightarrow> PeerInfo option" where
  "GetPeer peerID peers = peers peerID"

definition UpdatePeer :: "string \<Rightarrow> PeerInfo \<Rightarrow> PeerStorage \<Rightarrow> PeerStorage" where
  "UpdatePeer peerID newPeerInfo peers =
     (if peers peerID \<noteq> None then peers(peerID \<mapsto> newPeerInfo) else peers)"

definition RemovePeer :: "string \<Rightarrow> PeerStorage \<Rightarrow> PeerStorage" where
  "RemovePeer peerID peers = peers(peerID := None)"

interpretation peer_store: keyed_store "\<lambda>ps k. GetPeer k ps" "\<lambda>_. True" "\<lambda>new _. new"
    "\<lambda>new k. UpdatePeer k new" RemovePeer
  by unfold_locales (auto simp: GetPeer_def UpdatePeer_def RemovePeer_def fun_eq_iff)

section \<open>Activities\<close>

record Activity =
  ID :: int
  act_Name :: string
  act_Size :: string
  act_Hash :: string
  act_Status :: string
  ShowDropdown :: bool
  act_Peers :: int

record Backend =
  activities :: "Activity list"
  counter :: int

definition NewBackend :: Backend where
  "NewBackend = \<lparr>activities = [], counter = 0\<rparr>"

definition GetActivities :: "Backend \<Rightarrow> Activity list" where
  "GetActivities b = activities b"

definition SetActivity :: "Activity \<Rightarrow> Backend \<Rightarrow> Backend" where
  "SetActivity activity b = b\<lparr>activities := activities b @ [activity]\<rparr>"

definition RemoveActivity :: "int \<Rightarrow> Backend \<Rightarrow> Backend" where
  "RemoveActivity i b =
     (case first_idx (\<lambda>a. ID a = i) (activities b) of
        Some k \<Rightarrow> b\<lparr>activities := delete_at k (activities b)\<rparr>
      | None \<Rightarrow> b)"

definition UpdateActivityName :: "int \<Rightarrow> string \<Rightarrow> Backend \<Rightarrow> Backend" where
  "UpdateActivityName i name b =
     (case first_idx (\<lambda>a. ID a = i) (activities b) of
        Some k \<Rightarrow> b\<lparr>activities := (activities b)[k := (activities b ! k)\<lparr>act_Name := name\<rparr>]\<rparr>
      | None \<Rightarrow> b)"

text \<open>
  \<^verbatim>\<open>UploadFile\<close>: \<open>decode\<close> is the base64 decoder, \<open>hash\<close> the hex SHA-256 of the
  written temporary file, \<open>io\<close> the first error of creating, writing or seeking that
  file.  Only a fully written file adds an activity.
\<close>

definition UploadFile ::
    "(string \<Rightarrow> bytes outcome) \<Rightarrow> (bytes \<Rightarrow> string) \<Rightarrow> unit outcome \<Rightarrow>
     string \<Rightarrow> string \<Rightarrow> string \<Rightarrow> Backend \<Rightarrow> unit outcome \<times> Backend" where
  "UploadFile decode hash io base64File originalFileName fileSize b =
     (case bind (decode base64File) (\<lambda>decodedFile. bind io (\<lambda>_. Ok decodedFile)) of
        Ok decodedFile \<Rightarrow>
          (Ok (), b\<lparr>activities := activities b @
                     [\<lparr>ID = counter b, act_Name = originalFileName, act_Size = fileSize,
                       act_Hash = hash decodedFile, act_Status = ''Uploaded'',
                       ShowDropdown = False, act_Peers = 0\<rparr>],
                   counter := wrap64 (counter b + 1)\<rparr>)
      | Err e \<Rightarrow> (Err e, b)
      | Panic p \<Rightarrow> (Panic p, b))"

definition activities_abs :: "Backend \<Rightarrow> int \<Rightarrow> Activity option" where
  "activities_abs b = assoc ID (activities b)"

text \<open>Ids are distinct and were all handed out by the counter.\<close>

definition activities_inv :: "Backend \<Rightarrow> bool" where
  "activities_inv b \<longleftrightarrow> distinct (map ID (activities b)) \<and>
     0 \<le> counter b \<and> (\<forall>a\<in>set (activities b). 0 \<le> ID a \<and> ID a < counter b)"

lemma UpdateActivityName_eq:
  "UpdateActivityName i name b =
     b\<lparr>activities := update_first ID (\<lambda>a. a\<lparr>act_Name := name\<rparr>) i (activities b)\<rparr>"
  by (simp add: UpdateActivityName_def update_first_def split: option.splits)

lemma RemoveActivity_eq:
  "RemoveActivity i b = b\<lparr>activities := remove_first ID i (activities b)\<rparr>"
  by (simp add: RemoveActivity_def remove_first_def split: option.splits)

lemma ids_update_name [simp]:
  "map ID (update_first ID (\<lambda>a. a\<lparr>act_Name := name\<rparr>) i xs) = map ID xs"
  by (rule keys_update_first) simp

lemma activities_inv_update: "activities_inv b \<Longrightarrow> activities_inv (UpdateActivityName i name b)"
proof -
  assume "activities_inv b"
  moreover have "ID ` set (update_first ID (\<lambda>a. a\<lparr>act_Name := name\<rparr>) i (activities b)) =
      ID ` set (activities b)"
    by (metis ids_update_name list.set_map)
  ultimately show ?thesis
    by (auto simp: activities_inv_def UpdateActivityName_eq) (metis imageE imageI)+
qed

lemma activities_inv_remove: "activities_inv b \<Longrightarrow> activities_inv (RemoveActivity i b)"
  by (auto simp: activities_inv_def RemoveActivity_eq remove_first_distinct distinct_map_filter)

interpretation activity_store: keyed_store activities_abs activities_inv
    "\<lambda>name a. a\<lparr>act_Name := name\<rparr>" "\<lambda>name k. UpdateActivityName k name" RemoveActivity
proof unfold_locales
  fix s u k
  assume "activities_inv s"
  then show "activities_abs (RemoveActivity k s) = (activities_abs s)(k := None)"
    by (simp add: activities_abs_def RemoveActivity_eq assoc_remove_first activities_inv_def)
next
  fix s u k
  show "activities_abs (UpdateActivityName k u s) =
      (activities_abs s)(k := map_option (\<lambda>a. a\<lparr>act_Name := u\<rparr>) (activities_abs s k))"
    by (simp add: activities_abs_def UpdateActivityName_eq assoc_update_first)
qed (simp_all add: activities_inv_update activities_inv_remove)

text \<open>
  Activity ids.  From a backend whose ids are distinct and below the counter, a successful
  upload adds exactly one activity, under the counter's value, which no activity had before;
  it keeps the invariant as long as the counter does not reach the largest integer; renaming
  and removing keep it too and touch only the activity named.
\<close>

theorem activity_ids:
  assumes inv: "activities_inv b" and room: "counter b < 2 ^ 63 - 1"
    and up: "UploadFile decode hash io f name fsize b = (Ok (), b')"
  shows "activities_inv b' \<and> activities_abs b (counter b) = None \<and>
    (\<exists>a. activities_abs b' = (activities_abs b)(counter b \<mapsto> a) \<and> act_Name a = name) \<and>
    activities_abs (UpdateActivityName i n b') =
      (activities_abs b')(i := map_option (\<lambda>a. a\<lparr>act_Name := n\<rparr>) (activities_abs b' i)) \<and>
    activities_abs (RemoveActivity i b') = (activities_abs b')(i := None) \<and>
    activities_inv (UpdateActivityName i n b') \<and> activities_inv (RemoveActivity i b')"
proof -
  obtain a where b': "b' = b\<lparr>activities := activities b @ [a], counter := wrap64 (counter b + 1)\<rparr>"
    and a: "ID a = counter b" "act_Name a = name"
    using up by (auto simp: UploadFile_def split: outcome.splits)
  have wrap: "wrap64 (counter b + 1) = counter b + 1"
    using inv room by (simp add: activities_inv_def)
  have fresh: "counter b \<notin> ID ` set (activities b)"
    using inv by (auto simp: activities_inv_def)
  have inv': "activities_inv b'"
    using inv fresh a by (force simp: activities_inv_def b' wrap)
  have abs: "activities_abs b' = (activities_abs b)(counter b \<mapsto> a)"
    using fresh assoc_snoc_fresh [of ID a "activities b"] a by (simp add: activities_abs_def b')
  show ?thesis
    using activity_store.abs_modify [OF inv', of i n] activity_store.abs_remove [OF inv', of i]
      activity_store.inv_modify [OF inv', of i n] activity_store.inv_remove [OF inv', of i]
      inv' abs a fresh by (auto simp: activities_abs_def assoc_None_iff intro!: exI [of _ a])
qed

theorem activity_ids_witness:
  "\<exists>b'. UploadFile (\<lambda>_. Ok [1]) (\<lambda>_. ''h'') (Ok ()) ''AQ=='' ''f'' ''1'' NewBackend = (Ok (), b') \<and>
    activities_inv b'"
proof -
  let ?r = "UploadFile (\<lambda>_. Ok [1]) (\<lambda>_. ''h'') (Ok ()) ''AQ=='' ''f'' ''1'' NewBackend"
  have up: "?r = (Ok (), snd ?r)" by (simp add: UploadFile_def)
  have "activities_inv (snd ?r)"
    using activity_ids [OF _ _ up, of 0 "''n''"] by (simp add: NewBackend_def activities_inv_def)
  with up show ?thesis by metis
qed

end
