(* ===== verification/Market_Record.thy ===== *)
theory Market_Record
  imports Prelude
begin

text \<open>
  The value that the file-sharing market keeps in the DHT under a file's key, and the
  validator that every DHT node runs on it (\<^verbatim>\<open>peer/internal/server/validator.go\<close>).  A
  value is a sequence of records, each two length fields of two bytes, a protocol-buffer
  message describing a user and a signature, followed by a timestamp of eight bytes.
  Protocol buffers and RSA are third-party code: they are the fields of \<open>market_env\<close>,
  an argument of every definition that calls them.
\<close>

section \<open>Records, the validator and the selector\<close>

record User =
  Id :: bytes
  Name :: string
  Ip :: string
  Port :: int
  Price :: int

record 'pk market_env =
  proto_Unmarshal :: "bytes \<Rightarrow> User outcome"
  proto_Marshal :: "User \<Rightarrow> bytes outcome"
  UnmarshalRsaPublicKey :: "bytes \<Rightarrow> 'pk outcome"
  Verify :: "'pk \<Rightarrow> bytes \<Rightarrow> bytes \<Rightarrow> bool outcome"

text \<open>
  The length fields at offset \<open>i\<close>.  The content length is a sum of two \<^verbatim>\<open>uint16\<close>
  values and wraps at \<open>2 ^ 16\<close>.  The callers' loop guard keeps the four reads in range.
\<close>

definition uint16_at :: "bytes \<Rightarrow> nat \<Rightarrow> u16" where
  "uint16_at value i = push_bit 8 (ucast (value ! (i + 1))) OR ucast (value ! i)"

definition messageLength :: "bytes \<Rightarrow> nat \<Rightarrow> u16" where
  "messageLength value i = uint16_at value i"

definition digitalSignatureLength :: "bytes \<Rightarrow> nat \<Rightarrow> u16" where
  "digitalSignatureLength value i = uint16_at value (i + 2)"

definition contentLength :: "bytes \<Rightarrow> nat \<Rightarrow> u16" where
  "contentLength value i = messageLength value i + digitalSignatureLength value i"

definition messageBytes :: "bytes \<Rightarrow> nat \<Rightarrow> bytes outcome" where
  "messageBytes value i = slice value (i + 4) (i + 4 + unat (messageLength value i))"

definition signatureBytes :: "bytes \<Rightarrow> nat \<Rightarrow> bytes outcome" where
  "signatureBytes value i =
     slice value (i + 4 + unat (messageLength value i)) (i + 4 + unat (contentLength value i))"

function validate_loop ::
    "('pk, 'x) market_env_scheme \<Rightarrow> bytes \<Rightarrow> nat \<Rightarrow> bytes set \<Rightarrow> unit outcome" where
  "validate_loop env value i pubKeySet =
     (if i + 8 < length value then
        bind (bind (messageBytes value i) (proto_Unmarshal env)) (\<lambda>user.
        if Id user \<in> pubKeySet then Err ''Duplicate record for the same public key found!''
        else
          bind (messageBytes value i) (\<lambda>userMessageBytes.
          bind (UnmarshalRsaPublicKey env (Id user)) (\<lambda>publicKey.
          bind (signatureBytes value i) (\<lambda>signature.
          bind (Verify env publicKey userMessageBytes signature) (\<lambda>valid.
          if \<not> valid then Err ''Signature invalid!''
          else validate_loop env value (i + 4 + unat (contentLength value i))
                 (insert (Id user) pubKeySet))))))
      else Ok ())"
  by pat_completeness auto
termination
  by (relation "measure (\<lambda>(env, value, i, pubKeySet). length value - i)") auto

declare validate_loop.simps [simp del]

text \<open>
  \<^verbatim>\<open>ConvertBytesTo64BitInt\<close>: the shift starts at 7 and goes down; Go panics on a
  negative shift count, so a ninth byte panics.
\<close>

fun convert_loop :: "bytes \<Rightarrow> int \<Rightarrow> u64 \<Rightarrow> u64 outcome" where
  "convert_loop [] shift suppliedTime = Ok suppliedTime"
| "convert_loop (b # bs) shift suppliedTime =
     (if shift < 0 then Panic ''negative shift amount''
      else convert_loop bs (shift - 1) (suppliedTime OR push_bit (nat (shift * 8)) (ucast b)))"

definition ConvertBytesTo64BitInt :: "bytes \<Rightarrow> u64 outcome" where
  "ConvertBytesTo64BitInt value = convert_loop value 7 0"

text \<open>The last eight bytes, \<^verbatim>\<open>value[len(value)-8:]\<close>; a shorter value panics.\<close>

definition timestampBytes :: "bytes \<Rightarrow> bytes outcome" where
  "timestampBytes value =
     (if length value < 8 then Panic ''slice bounds out of range''
      else Ok (drop (length value - 8) value))"

definition suppliedTime :: "bytes \<Rightarrow> u64 outcome" where
  "suppliedTime value = bind (timestampBytes value) ConvertBytesTo64BitInt"

text \<open>
  \<^verbatim>\<open>strings.Replace(key, "orcanet/market/", "", -1)\<close> and the pattern
  \<^verbatim>\<open>^[a-fA-F0-9]{64}$\<close>.
\<close>

definition market_prefix :: string where
  "market_prefix = ''orcanet/market/''"

function strip_prefixes :: "string \<Rightarrow> string" where
  "strip_prefixes s =
     (if s = [] then []
      else if take (length market_prefix) s = market_prefix
      then strip_prefixes (drop (length market_prefix) s)
      else hd s # strip_prefixes (tl s))"
  by pat_completeness auto
termination
  by (relation "measure length") (auto simp: market_prefix_def)

declare strip_prefixes.simps [simp del]

definition hex_digit :: "char \<Rightarrow> bool" where
  "hex_digit c \<longleftrightarrow> c \<in> set ''0123456789abcdefABCDEF''"

definition sha256_key :: "string \<Rightarrow> bool" where
  "sha256_key s \<longleftrightarrow> length s = 64 \<and> list_all hex_digit s"

text \<open>\<^verbatim>\<open>Validate\<close>; the clock reading is an argument.\<close>

definition Validate ::
    "('pk, 'x) market_env_scheme \<Rightarrow> u64 \<Rightarrow> string \<Rightarrow> bytes \<Rightarrow> unit outcome" where
  "Validate env now key value =
     (if \<not> sha256_key (strip_prefixes key)
      then Err ''Provided key is not in the form of a SHA-256 digest!''
      else
        bind (validate_loop env value 0 {}) (\<lambda>_.
        bind (suppliedTime value) (\<lambda>t.
        if t > now then Err ''Supplied time cannot be less than current time'' else Ok ())))"

text \<open>
  \<^verbatim>\<open>Select\<close> scans the candidate values and keeps the best so far: its index, its
  length and its time.
\<close>

fun select_loop :: "bytes list \<Rightarrow> nat \<Rightarrow> nat \<Rightarrow> u64 \<Rightarrow> nat \<Rightarrow> nat outcome" where
  "select_loop [] i maxLen latestTime maxIndex = Ok maxIndex"
| "select_loop (v # vs) i maxLen latestTime maxIndex =
     bind (suppliedTime v) (\<lambda>t.
       if length v \<ge> maxLen \<and> t \<ge> latestTime then select_loop vs (Suc i) (length v) t i
       else select_loop vs (Suc i) maxLen latestTime maxIndex)"

definition Select :: "string \<Rightarrow> bytes list \<Rightarrow> nat outcome" where
  "Select key value =
     (case value of
        [] \<Rightarrow> Panic ''index out of range''
      | v # vs \<Rightarrow> bind (suppliedTime v) (\<lambda>t. select_loop vs 1 (length v) t 0))"

text \<open>
  The record \<^verbatim>\<open>RegisterFile\<close> appends: both lengths low byte first, the message, the
  signature.  A length of 65536 or more is cut to its low 16 bits.
\<close>

definition newRecord :: "bytes \<Rightarrow> bytes \<Rightarrow> bytes" where
  "newRecord userProtoBytes signature =
     [of_nat (length userProtoBytes), of_nat (length userProtoBytes div 256),
      of_nat (length signature), of_nat (length signature div 256)]
     @ userProtoBytes @ signature"

section \<open>Timestamps\<close>

lemma convert_loop_value:
  assumes "length bs \<le> 8" and "unat c < 256 ^ (8 - length bs)"
  shows "\<exists>t. convert_loop bs (int (length bs) - 1) (push_bit (8 * length bs) c) = Ok t
    \<and> unat t = unat c * 256 ^ length bs + be_value bs"
  using assms
proof (induction bs arbitrary: c)
  case Nil
  then show ?case by simp
next
  case (Cons b bs)
  let ?n = "length bs"
  let ?c = "push_bit 8 c OR ucast b :: u64"
  have "unat (ucast b :: u64) = unat b" by (rule unat_ucast_byte) simp
  moreover have c: "unat c < 256 ^ (7 - ?n)" using Cons.prems by simp
  moreover have "(256::nat) ^ (7 - ?n) \<le> 256 ^ 7" by (rule power_increasing) auto
  ultimately have c': "unat ?c = unat c * 256 + unat b"
    using unat_byte_less [of b] by (subst unat_push_OR) auto
  have "8 - ?n = Suc (7 - ?n)" using Cons.prems by simp
  then have "unat ?c < 256 ^ (8 - ?n)" using c c' unat_byte_less [of b] by simp
  moreover have "push_bit (8 * Suc ?n) c OR push_bit (8 * ?n) (ucast b) = push_bit (8 * ?n) ?c"
    by (simp add: add.commute)
  moreover have "nat ((int (length (b # bs)) - 1) * 8) = 8 * ?n" by simp
  ultimately show ?case using Cons.IH [of ?c] Cons.prems
    by (simp add: c' be_value_Cons algebra_simps)
qed

lemma ConvertBytesTo64BitInt_value:
  assumes "length bs = 8"
  shows "\<exists>t. ConvertBytesTo64BitInt bs = Ok t \<and> unat t = be_value bs"
  using convert_loop_value [of bs 0] assms by (simp add: ConvertBytesTo64BitInt_def)

section \<open>Values as chains of records\<close>

type_synonym entry = "bytes \<times> bytes \<times> bytes"

definition entry_bytes :: "entry \<Rightarrow> bytes" where
  "entry_bytes e = (case e of (k, m, s) \<Rightarrow> newRecord m s)"

definition chain_bytes :: "entry list \<Rightarrow> bytes" where
  "chain_bytes es = concat (map entry_bytes es)"

definition entry_fits :: "entry \<Rightarrow> bool" where
  "entry_fits e = (case e of (k, m, s) \<Rightarrow> length m + length s < 65536)"

definition signed_entry :: "('pk, 'x) market_env_scheme \<Rightarrow> entry \<Rightarrow> bool" where
  "signed_entry env e = (case e of (k, m, s) \<Rightarrow>
     (case proto_Unmarshal env m of
        Ok user \<Rightarrow> Id user = k \<and>
          (case UnmarshalRsaPublicKey env k of
             Ok pk \<Rightarrow> Verify env pk m s = Ok True
           | _ \<Rightarrow> False)
      | _ \<Rightarrow> False))"

lemma drop_four: "drop (4 + n) (a # b # c # d # xs) = drop n xs"
  by (simp add: numeral_eq_Suc)

lemma take_four:
  "i + 4 \<le> length xs \<Longrightarrow> take 4 (drop i xs) = [xs ! i, xs ! (i + 1), xs ! (i + 2), xs ! (i + 2 + 1)]"
  by (rule nth_equalityI) (auto simp: numeral_eq_Suc less_Suc_eq)

lemma uint16_of_length:
  assumes "n < 65536" and "value ! i = of_nat n" and "value ! (i + 1) = of_nat (n div 256)"
  shows "unat (uint16_at value i) = n"
proof -
  have lo: "unat (ucast (value ! i) :: u16) = n mod 256"
    using assms(2) by (subst unat_ucast_byte) (simp_all add: unat_of_nat)
  have hi: "unat (ucast (value ! (i + 1)) :: u16) = n div 256"
    using assms(1,3) by (subst unat_ucast_byte) (simp_all add: unat_of_nat)
  have "n mod 256 < 2 ^ 8" "n div 256 * 2 ^ 8 < 2 ^ 16" using assms(1) by simp_all
  then show ?thesis
    unfolding uint16_at_def using lo hi by (subst unat_push_OR) simp_all
qed

lemma uint16_bytes:
  "value ! i = of_nat (unat (uint16_at value i))"
  "value ! (i + 1) = of_nat (unat (uint16_at value i) div 256)"
proof -
  let ?lo = "value ! i" and ?hi = "value ! (i + 1)"
  have "unat (ucast ?lo :: u16) = unat ?lo" "unat (ucast ?hi :: u16) = unat ?hi"
    by (simp_all add: unat_ucast_byte)
  then have "unat (uint16_at value i) = unat ?hi * 256 + unat ?lo"
    unfolding uint16_at_def using unat_byte_less [of ?lo] unat_byte_less [of ?hi]
    by (subst unat_push_OR) simp_all
  moreover have "of_nat (unat ?hi * 256 + unat ?lo) = ?lo"
    using of_nat_mod_byte [of "unat ?hi * 256 + unat ?lo"] unat_byte_less [of ?lo] by simp
  moreover have "(unat ?hi * 256 + unat ?lo) div 256 = unat ?hi"
    using unat_byte_less [of ?lo] by simp
  ultimately show "?lo = of_nat (unat (uint16_at value i))"
    "?hi = of_nat (unat (uint16_at value i) div 256)"
    by simp_all
qed

text \<open>Reading a record that was written at offset \<open>length pre\<close>.\<close>

lemma read_record:
  assumes val: "value = pre @ newRecord m s @ post" and fits: "length m + length s < 65536"
  shows "unat (contentLength value (length pre)) = length m + length s"
    and "messageBytes value (length pre) = Ok m"
    and "signatureBytes value (length pre) = Ok s"
proof -
  have ml: "unat (messageLength value (length pre)) = length m"
    unfolding messageLength_def using fits
    by (intro uint16_of_length) (simp_all add: val newRecord_def nth_append)
  have sl: "unat (digitalSignatureLength value (length pre)) = length s"
    unfolding digitalSignatureLength_def using fits
    by (intro uint16_of_length) (simp_all add: val newRecord_def nth_append)
  show cl: "unat (contentLength value (length pre)) = length m + length s"
    using ml sl fits by (simp add: contentLength_def unat_word_ariths)
  show "messageBytes value (length pre) = Ok m"
    by (simp add: messageBytes_def ml slice_def) (simp add: val newRecord_def)
  show "signatureBytes value (length pre) = Ok s"
    by (simp add: signatureBytes_def ml cl slice_def) (simp add: val newRecord_def drop_four)
qed

text \<open>Conversely, what the two slice expressions return is a record.\<close>

lemma record_read:
  assumes "i + 8 < length value" and m: "messageBytes value i = Ok m" and s: "signatureBytes value i = Ok s"
  shows "drop i value = newRecord m s @ drop (i + 4 + unat (contentLength value i)) value"
    and "unat (contentLength value i) = length m + length s"
    and "length m + length s < 65536"
    and "i + 4 + length m + length s \<le> length value"
proof -
  let ?ml = "unat (messageLength value i)" and ?sl = "unat (digitalSignatureLength value i)"
    and ?cl = "unat (contentLength value i)"
  from m have m': "i + 4 + ?ml \<le> length value" "m = take ?ml (drop (i + 4) value)"
    by (auto simp: messageBytes_def slice_Ok_iff)
  from s have s': "?ml \<le> ?cl" "i + 4 + ?cl \<le> length value"
      "s = take (?cl - ?ml) (drop (i + 4 + ?ml) value)"
    by (auto simp: signatureBytes_def slice_Ok_iff)
  have "?ml < 65536" "?sl < 65536"
    by (rule unat_u16_less)+
  moreover have "?cl = (?ml + ?sl) mod 65536" by (simp add: contentLength_def unat_word_ariths)
  ultimately have cl: "?cl = ?ml + ?sl" using s'(1)
    by (cases "?ml + ?sl < 65536") (simp_all add: le_mod_geq)
  have lens: "length m = ?ml" "length s = ?sl" using m' s' cl by simp_all
  show "?cl = length m + length s" by (simp add: cl lens)
  then show "length m + length s < 65536" using unat_u16_less [of "contentLength value i"] by simp
  show "i + 4 + length m + length s \<le> length value" using s'(2) cl lens by simp
  have split: "drop i value = take 4 (drop i value) @ drop (i + 4) value"
    by (metis add.commute append_take_drop_id drop_drop)
  have head: "take 4 (drop i value) = [value ! i, value ! (i + 1), value ! (i + 2), value ! (i + 2 + 1)]"
    using assms(1) by (intro take_four) simp
  have "drop (i + 4) value = m @ s @ drop (i + 4 + ?cl) value"
  proof -
    have "drop (i + 4) value = m @ drop (i + 4 + ?ml) value"
      using m' by (metis add.commute append_take_drop_id drop_drop)
    also have "drop (i + 4 + ?ml) value = s @ drop (i + 4 + ?cl) value"
      using s' by (metis (no_types) append_take_drop_id drop_drop add.assoc add.commute le_add_diff_inverse)
    finally show ?thesis by simp
  qed
  then show "drop i value = newRecord m s @ drop (i + 4 + ?cl) value"
    using split head uint16_bytes [of "value" i] uint16_bytes [of "value" "i + 2"] lens
    by (simp add: newRecord_def messageLength_def digitalSignatureLength_def)
qed


section \<open>What the validator accepts\<close>

lemma chain_bytes_simps [simp]:
  "chain_bytes [] = []"
  "chain_bytes (e # es) = entry_bytes e @ chain_bytes es"
  by (simp_all add: chain_bytes_def)

lemma validate_loop_end: "length value \<le> i + 8 \<Longrightarrow> validate_loop env value i seen = Ok ()"
  by (subst validate_loop.simps) simp

text \<open>What every loop over a value reads at the start of a record.\<close>

lemma chain_head:
  assumes "value = pre @ entry_bytes e @ post" and "e = (k, m, s)" and "8 \<le> length post"
    and "entry_fits e"
  shows "length pre + 8 < length value"
    and "messageBytes value (length pre) = Ok m"
    and "signatureBytes value (length pre) = Ok s"
    and "length pre + 4 + unat (contentLength value (length pre)) = length (pre @ entry_bytes e)"
proof -
  have val: "value = pre @ newRecord m s @ post" and fits: "length m + length s < 65536"
    using assms by (simp_all add: entry_bytes_def entry_fits_def)
  show "messageBytes value (length pre) = Ok m" "signatureBytes value (length pre) = Ok s"
    using read_record [OF val fits] by simp_all
  show "length pre + 8 < length value"
    and "length pre + 4 + unat (contentLength value (length pre)) = length (pre @ entry_bytes e)"
    using read_record [OF val fits] assms by (simp_all add: val newRecord_def entry_bytes_def)
qed

lemma signed_entry_cases:
  assumes "signed_entry env (k, m, s)"
  obtains user pk where "proto_Unmarshal env m = Ok user" "Id user = k"
    "UnmarshalRsaPublicKey env k = Ok pk" "Verify env pk m s = Ok True"
  using assms by (auto simp: signed_entry_def split: outcome.splits)

lemma validate_loop_step:
  assumes "value = pre @ entry_bytes e @ post" and "e = (k, m, s)" and "8 \<le> length post"
    and "entry_fits e" and "signed_entry env e"
  shows "validate_loop env value (length pre) seen =
    (if k \<in> seen then Err ''Duplicate record for the same public key found!''
     else validate_loop env value (length (pre @ entry_bytes e)) (insert k seen))"
  using assms(5) chain_head [OF assms(1-4)] unfolding assms(2)
  by (subst validate_loop.simps) (auto simp: add.assoc elim!: signed_entry_cases)

lemma validate_loop_chain:
  assumes "list_all entry_fits es" and "list_all (signed_entry env) es"
    and "distinct (map fst es)" and "seen \<inter> fst ` set es = {}" and "length ts = 8"
  shows "validate_loop env (pre @ chain_bytes es @ ts) (length pre) seen = Ok ()"
  using assms
proof (induction es arbitrary: pre seen)
  case Nil
  then show ?case by (intro validate_loop_end) simp
next
  case (Cons e es)
  obtain k m s where e: "e = (k, m, s)" by (cases e) auto
  have "validate_loop env (pre @ chain_bytes (e # es) @ ts) (length pre) seen =
      validate_loop env ((pre @ entry_bytes e) @ chain_bytes es @ ts) (length (pre @ entry_bytes e)) (insert k seen)"
    using Cons.prems e by (subst validate_loop_step [OF _ e]) auto
  also have "\<dots> = Ok ()" using Cons.prems e by (intro Cons.IH) auto
  finally show ?case .
qed

lemma suppliedTime_chain:
  assumes "length ts = 8"
  shows "\<exists>t. suppliedTime (xs @ ts) = Ok t \<and> unat t = be_value ts"
  using ConvertBytesTo64BitInt_value [OF assms] assms
  by (simp add: suppliedTime_def timestampBytes_def)

text \<open>A successful run of the loop has read a chain of signed records with distinct keys.\<close>

lemma validate_loop_sound:
  assumes "validate_loop env value i seen = Ok ()" and "i \<le> length value"
  shows "\<exists>es rest. drop i value = chain_bytes es @ rest \<and> length rest \<le> 8 \<and>
    list_all entry_fits es \<and> list_all (signed_entry env) es \<and>
    distinct (map fst es) \<and> seen \<inter> fst ` set es = {}"
  using assms
proof (induction env "value" i seen rule: validate_loop.induct)
  case (1 env val i seen)
  show ?case
  proof (cases "i + 8 < length val")
    case False
    then show ?thesis by (intro exI [of _ "[]"] exI [of _ "drop i val"]) simp
  next
    case True
    with "1.prems" obtain m u pk s where
      m: "messageBytes val i = Ok m" and u: "proto_Unmarshal env m = Ok u" and k: "Id u \<notin> seen"
      and pk: "UnmarshalRsaPublicKey env (Id u) = Ok pk" and s: "signatureBytes val i = Ok s"
      and v: "Verify env pk m s = Ok True"
      and rest: "validate_loop env val (i + 4 + unat (contentLength val i)) (insert (Id u) seen) = Ok ()"
      by (subst (asm) validate_loop.simps) (auto simp: bind_Ok_iff split: if_splits)
    note r = record_read [OF True m s]
    from "1.IH" [OF True _ k m pk s v _ rest] r m u obtain es rest' where IH:
      "drop (i + 4 + unat (contentLength val i)) val = chain_bytes es @ rest'" "length rest' \<le> 8"
      "list_all entry_fits es" "list_all (signed_entry env) es" "distinct (map fst es)"
      "insert (Id u) seen \<inter> fst ` set es = {}" by auto
    let ?e = "(Id u, m, s)"
    have "drop i val = chain_bytes (?e # es) @ rest'"
      using r(1) IH(1) by (simp add: entry_bytes_def)
    moreover have "entry_fits ?e" "signed_entry env ?e"
      using r(3) u pk v by (simp_all add: entry_fits_def signed_entry_def)
    ultimately show ?thesis using IH k
      by (intro exI [of _ "?e # es"] exI [of _ rest']) auto
  qed
qed

lemma validate_iff:
  "Validate env now key val = Ok () \<longleftrightarrow>
     sha256_key (strip_prefixes key) \<and> validate_loop env val 0 {} = Ok () \<and>
     (\<exists>t. suppliedTime val = Ok t \<and> t \<le> now)"
  by (auto simp: Validate_def bind_Ok_iff not_less)

lemma suppliedTime_iff:
  "suppliedTime val = Ok t \<longleftrightarrow> 8 \<le> length val \<and> unat t = be_value (drop (length val - 8) val)"
proof (cases "8 \<le> length val")
  case True
  then have "length (drop (length val - 8) val) = 8" by simp
  from ConvertBytesTo64BitInt_value [OF this] True show ?thesis
    by (auto simp: suppliedTime_def timestampBytes_def word_unat_eq_iff)
next
  case False
  then show ?thesis by (simp add: suppliedTime_def timestampBytes_def)
qed


text \<open>
  C21: Validator completeness.  A value made of records that fit their length fields, are
  signed by distinct keys and are followed by an eight-byte time not in the future is accepted
  under every key that is a SHA-256 digest.
\<close>

theorem validate_complete:
  assumes "sha256_key (strip_prefixes key)" and "list_all entry_fits es"
    and "list_all (signed_entry env) es" and "distinct (map fst es)"
    and "length ts = 8" and "be_value ts \<le> unat now"
  shows "Validate env now key (chain_bytes es @ ts) = Ok ()"
  using validate_loop_chain [of es env "{}" ts "[]"] suppliedTime_chain [OF assms(5), of "chain_bytes es"] assms
  by (auto simp: validate_iff word_le_nat_alt)

text \<open>
  A short value crashes the validator.  A value of fewer than eight bytes under a
  well-formed key is not rejected with an error: the validator panics when it slices the
  timestamp.
\<close>

theorem validate_short_panics:
  assumes "sha256_key (strip_prefixes key)" and "length val < 8"
  shows "Validate env now key val = Panic ''slice bounds out of range''"
  using assms by (simp add: Validate_def validate_loop_end suppliedTime_def timestampBytes_def)

section \<open>What the selector chooses\<close>

definition value_time :: "bytes \<Rightarrow> nat" where
  "value_time v = be_value (drop (length v - 8) v)"

lemma suppliedTime_value_time: "8 \<le> length v \<Longrightarrow> \<exists>t. suppliedTime v = Ok t \<and> unat t = value_time v"
  using suppliedTime_chain [of "drop (length v - 8) v" "take (length v - 8) v"]
  by (simp add: value_time_def)

text \<open>\<open>pareto vs k\<close>: no value is at least as long and at least as late as number \<open>k\<close>, and better.\<close>

definition pareto :: "bytes list \<Rightarrow> nat \<Rightarrow> bool" where
  "pareto vs k \<longleftrightarrow> k < length vs \<and>
     (\<forall>v\<in>set vs. length (vs ! k) \<le> length v \<and> value_time (vs ! k) \<le> value_time v \<longrightarrow>
        length v = length (vs ! k) \<and> value_time v = value_time (vs ! k))"

lemma pareto_snoc:
  assumes "pareto ps k"
  shows "if length (ps ! k) \<le> length v \<and> value_time (ps ! k) \<le> value_time v
         then pareto (ps @ [v]) (length ps) else pareto (ps @ [v]) k"
  using assms by (fastforce simp: pareto_def nth_append)

lemma select_loop_pareto:
  assumes "pareto ps k" and "\<forall>v\<in>set vs. 8 \<le> length v" and "unat t = value_time (ps ! k)"
  shows "\<exists>k'. select_loop vs (length ps) (length (ps ! k)) t k = Ok k' \<and> pareto (ps @ vs) k'"
  using assms
proof (induction vs arbitrary: ps k t)
  case Nil
  then show ?case by simp
next
  case (Cons v vs)
  from Cons.prems(2) obtain tv where tv: "suppliedTime v = Ok tv" "unat tv = value_time v"
    using suppliedTime_value_time [of v] by auto
  let ?better = "length (ps ! k) \<le> length v \<and> value_time (ps ! k) \<le> value_time v"
  have cmp: "length v \<ge> length (ps ! k) \<and> tv \<ge> t \<longleftrightarrow> ?better"
    using Cons.prems(3) tv(2) by (simp add: word_le_nat_alt)
  show ?case
  proof (cases ?better)
    case True
    with pareto_snoc [OF Cons.prems(1), of v] have "pareto (ps @ [v]) (length ps)" by simp
    from Cons.IH [OF this, of tv] Cons.prems(2) tv(2) True cmp show ?thesis
      by (simp add: tv(1) nth_append)
  next
    case False
    have k: "k < length ps" using Cons.prems(1) by (simp add: pareto_def)
    from False pareto_snoc [OF Cons.prems(1), of v] have "pareto (ps @ [v]) k" by auto
    from Cons.IH [OF this, of t] Cons.prems(2,3) False cmp k show ?thesis
      by (auto simp: tv(1) nth_append)
  qed
qed

text \<open>
  C22: The selector.  On a non-empty list of values that all carry a timestamp, \<^verbatim>\<open>Select\<close>
  returns the index of one of them, and no candidate is at least as long and at least as late
  as the chosen one without having the same length and the same time.
\<close>

theorem select_pareto:
  assumes "vals \<noteq> []" and "\<forall>v\<in>set vals. 8 \<le> length v"
  shows "\<exists>k. Select key vals = Ok k \<and> pareto vals k"
proof -
  obtain v vs where vals: "vals = v # vs" using assms(1) by (cases vals) auto
  from assms(2) vals obtain t where t: "suppliedTime v = Ok t" "unat t = value_time v"
    using suppliedTime_value_time [of v] by auto
  have "pareto [v] 0" by (simp add: pareto_def)
  from select_loop_pareto [OF this, of vs t] assms(2) vals t show ?thesis
    by (simp add: Select_def)
qed

section \<open>Sample values\<close>

text \<open>
  A small market used to run the properties: a message is the key byte followed by a price
  byte, a signature is the key followed by the message.
\<close>

definition sample_env :: "bytes market_env" where
  "sample_env = \<lparr>
     proto_Unmarshal = (\<lambda>m. if length m = 2
       then Ok \<lparr>Id = [m ! 0], Name = [], Ip = [], Port = 0, Price = uint (m ! 1)\<rparr>
       else Err ''proto: cannot parse''),
     proto_Marshal = (\<lambda>u. Ok (Id u @ [of_int (Price u)])),
     UnmarshalRsaPublicKey = (\<lambda>k. Ok k),
     Verify = (\<lambda>pk m s. Ok (s = pk @ m))\<rparr>"

definition sample_chain :: "entry list" where
  "sample_chain = [([1], [1, 5], [1, 1, 5]), ([2], [2, 7], [2, 2, 7])]"

abbreviation sample_key :: string where
  "sample_key \<equiv> replicate 64 (CHR ''a'')"

definition sample_value :: bytes where
  "sample_value = chain_bytes sample_chain @ be_bytes 8 1000"

lemma sample_hex_key: "sha256_key (strip_prefixes sample_key)"
  by code_simp

lemma sample_validates: "Validate sample_env 2000 sample_key sample_value = Ok ()"
  by code_simp


theorem validate_complete_witness:
  "Validate sample_env 2000 sample_key (chain_bytes sample_chain @ be_bytes 8 1000) = Ok ()"
  by (rule validate_complete)
     (simp_all add: sample_hex_key,
      simp_all add: sample_chain_def sample_env_def entry_fits_def signed_entry_def be_value_be_bytes)

theorem validate_short_panics_witness:
  "Validate sample_env 2000 sample_key [0, 1, 2] = Panic ''slice bounds out of range''"
  by (rule validate_short_panics) (simp_all add: sample_hex_key)

theorem select_pareto_witness:
  "\<exists>k. Select sample_key [sample_value, be_bytes 8 5] = Ok k \<and> pareto [sample_value, be_bytes 8 5] k"
  by (rule select_pareto) (simp_all add: sample_value_def)

end
