(* ===== verification/Market.thy ===== *)
theory Market
  imports Market_Record Go_Text
begin

text \<open>
  The market server of the peer (\<^verbatim>\<open>peer/internal/server/serverRPC.go\<close>): registering a
  file on the DHT, looking up its holders, and the choice of a holder by the download routine
  (\<^verbatim>\<open>jobRoutine\<close> of \<^verbatim>\<open>server.go\<close>).  The DHT and the node's RSA key are
  third-party code and appear as arguments: \<open>get\<close> is \<^verbatim>\<open>GetValue\<close>, \<open>put\<close> is
  \<^verbatim>\<open>PutValue\<close>, the fields of \<open>node\<close> are \<^verbatim>\<open>PubKey.Raw\<close> and
  \<^verbatim>\<open>PrivKey.Sign\<close>.
\<close>

section \<open>Registering a file\<close>

record node_keys =
  PubKey_Raw :: "bytes outcome"
  Sign :: "bytes \<Rightarrow> bytes outcome"

text \<open>
  The loop that removes the caller's own record.  It skips from record to record, stops at
  the first one with the caller's id and cuts it out.
\<close>

function remove_own_loop ::
    "('pk, 'x) market_env_scheme \<Rightarrow> bytes \<Rightarrow> nat \<Rightarrow> bytes \<Rightarrow> bytes outcome" where
  "remove_own_loop env value i ownId =
     (if i + 8 < length value then
        bind (bind (messageBytes value i) (proto_Unmarshal env)) (\<lambda>user.
        if Id user = ownId then
          bind (slice value (i + 4 + unat (contentLength value i)) (length value)) (\<lambda>tail.
          Ok (take i value @ tail))
        else remove_own_loop env value (i + 4 + unat (contentLength value i)) ownId)
      else Ok value)"
  by pat_completeness auto
termination
  by (relation "measure (\<lambda>(env, value, i, ownId). length value - i)") auto

declare remove_own_loop.simps [simp del]

text \<open>The eight timestamp bytes, most significant first.\<close>

definition time_bytes :: "u64 \<Rightarrow> bytes" where
  "time_bytes t = map (\<lambda>i. ucast (drop_bit (i * 8) t)) [7, 6, 5, 4, 3, 2, 1, 0]"

text \<open>\<^verbatim>\<open>value[:len(value)-8]\<close> for a non-empty value; fewer than eight bytes panic.\<close>

definition drop_timestamp :: "bytes \<Rightarrow> bytes outcome" where
  "drop_timestamp value =
     (if value = [] then Ok []
      else if length value < 8 then Panic ''slice bounds out of range''
      else Ok (take (length value - 8) value))"

definition market_key :: "string \<Rightarrow> string" where
  "market_key hash = ''orcanet/market/'' @ hash"

definition RegisterFile ::
    "('pk, 'x) market_env_scheme \<Rightarrow> node_keys \<Rightarrow> u64 \<Rightarrow> (string \<Rightarrow> bytes outcome) \<Rightarrow>
     (string \<Rightarrow> bytes \<Rightarrow> 'd outcome) \<Rightarrow> string \<Rightarrow> User \<Rightarrow> 'd outcome" where
  "RegisterFile env node now get put fileKey user0 =
     bind (PubKey_Raw node) (\<lambda>pubKeyBytes.
     let user = user0\<lparr>Id := pubKeyBytes\<rparr>;
         value0 = (case get (market_key fileKey) of Ok v \<Rightarrow> v | _ \<Rightarrow> [])
     in
     bind (remove_own_loop env value0 0 (Id user)) (\<lambda>value1.
     bind (proto_Marshal env user) (\<lambda>userProtoBytes.
     bind (Sign node userProtoBytes) (\<lambda>signature.
     bind (drop_timestamp value1) (\<lambda>value2.
     put (market_key fileKey)
       (value2 @ newRecord userProtoBytes signature @ time_bytes now))))))"

section \<open>Looking up holders\<close>

function holders_loop ::
    "('pk, 'x) market_env_scheme \<Rightarrow> bytes \<Rightarrow> nat \<Rightarrow> User list \<Rightarrow> User list outcome" where
  "holders_loop env value i users =
     (if i + 8 < length value then
        bind (bind (messageBytes value i) (proto_Unmarshal env)) (\<lambda>user.
        holders_loop env value (i + 4 + unat (contentLength value i)) (users @ [user]))
      else Ok users)"
  by pat_completeness auto
termination
  by (relation "measure (\<lambda>(env, value, i, users). length value - i)") auto

declare holders_loop.simps [simp del]

definition CheckHolders ::
    "('pk, 'x) market_env_scheme \<Rightarrow> (string \<Rightarrow> bytes outcome) \<Rightarrow> string \<Rightarrow> User list outcome" where
  "CheckHolders env get fileKey =
     (case get (market_key fileKey) of
        Ok value \<Rightarrow> holders_loop env value 0 []
      | _ \<Rightarrow> Ok [])"

section \<open>Choosing a holder\<close>

fun choose_loop ::
    "User list \<Rightarrow> string \<Rightarrow> User option \<Rightarrow> User option \<Rightarrow> User option \<times> User option" where
  "choose_loop [] peerId bestHolder selectedHolder = (bestHolder, selectedHolder)"
| "choose_loop (holder # holders) peerId bestHolder selectedHolder =
     choose_loop holders peerId
       (case bestHolder of
          None \<Rightarrow> Some holder
        | Some best \<Rightarrow> if Price holder < Price best then Some holder else Some best)
       (if Id holder = string_bytes peerId then Some holder else selectedHolder)"

definition choose_holder :: "User list \<Rightarrow> string \<Rightarrow> User option" where
  "choose_holder holders peerId =
     (case choose_loop holders peerId None None of
        (bestHolder, Some selected) \<Rightarrow> Some selected
      | (bestHolder, None) \<Rightarrow> bestHolder)"

text \<open>
  \<^verbatim>\<open>jobRoutine\<close> up to the download.  \<open>pem\<close> stands for the conversion of the
  holder's key to the address that is paid (\<^verbatim>\<open>x509\<close> and \<^verbatim>\<open>pem\<close>, a parse failure
  ends the process); \<open>fetch\<close> is the client's \<^verbatim>\<open>GetFileOnce\<close>, whose error is only
  printed.
\<close>

definition jobRoutine ::
    "('pk, 'x) market_env_scheme \<Rightarrow> (string \<Rightarrow> bytes outcome) \<Rightarrow> (bytes \<Rightarrow> string outcome) \<Rightarrow>
     (string \<Rightarrow> int \<Rightarrow> string \<Rightarrow> string \<Rightarrow> int \<Rightarrow> string \<Rightarrow> 's \<Rightarrow> unit outcome \<times> 's) \<Rightarrow>
     string \<Rightarrow> string \<Rightarrow> string \<Rightarrow> 's \<Rightarrow> unit outcome \<times> 's" where
  "jobRoutine env get pem fetch jobId hash peerId s =
     (case CheckHolders env get hash of
        Ok holders \<Rightarrow>
          (case choose_holder holders peerId of
             None \<Rightarrow> (Ok (), s)
           | Some h \<Rightarrow>
               (case pem (Id h) of
                  Ok key \<Rightarrow> (case fetch (Ip h) (Port h) hash key (Price h) jobId s of
                               (Panic p, s') \<Rightarrow> (Panic p, s')
                             | (_, s') \<Rightarrow> (Ok (), s'))
                | _ \<Rightarrow> (Panic ''failed to parse DER encoded public key'', s)))
      | Err e \<Rightarrow> (Ok (), s)
      | Panic p \<Rightarrow> (Panic p, s))"

section \<open>Lookups read the chain\<close>

lemma length_time_bytes [simp]: "length (time_bytes t) = 8"
  by (simp add: time_bytes_def)

lemma time_bytes_be: "time_bytes t = be_bytes 8 (unat t)"
proof -
  have "(ucast (drop_bit k t) :: byte) = of_nat (unat t div 2 ^ k)" for k
    by (simp flip: unat_drop_bit_div)
  then show ?thesis
    by (simp add: time_bytes_def be_bytes_def le_bytes_map upt_rec numeral_2_eq_2 [symmetric])
qed

lemma be_value_time_bytes [simp]: "be_value (time_bytes t) = unat t"
  using unat_u64_less [of t] by (simp add: time_bytes_be be_value_be_bytes)

lemma holders_loop_chain:
  assumes "list_all entry_fits es" and "list_all (signed_entry env) es" and "length ts = 8"
  shows "\<exists>us'. holders_loop env (pre @ chain_bytes es @ ts) (length pre) us = Ok (us @ us') \<and>
    list_all2 (\<lambda>e u. proto_Unmarshal env (fst (snd e)) = Ok u \<and> Id u = fst e) es us'"
  using assms
proof (induction es arbitrary: pre us)
  case Nil
  then show ?case by (subst holders_loop.simps) simp
next
  case (Cons e es)
  obtain k m s where e: "e = (k, m, s)" by (cases e) auto
  have val: "pre @ chain_bytes (e # es) @ ts = pre @ entry_bytes e @ (chain_bytes es @ ts)" by simp
  from Cons.prems e obtain u where u: "proto_Unmarshal env m = Ok u" "Id u = k"
    by (auto elim: signed_entry_cases)
  have "holders_loop env (pre @ chain_bytes (e # es) @ ts) (length pre) us =
      holders_loop env ((pre @ entry_bytes e) @ chain_bytes es @ ts) (length (pre @ entry_bytes e)) (us @ [u])"
    using chain_head [OF val e] Cons.prems u by (subst holders_loop.simps) (simp add: add.assoc)
  with Cons.IH [of "pre @ entry_bytes e" "us @ [u]"] Cons.prems u e show ?case by fastforce
qed

lemma remove_own_loop_chain:
  assumes "list_all entry_fits es" and "list_all (signed_entry env) es"
    and "distinct (map fst es)" and "length ts = 8"
  shows "remove_own_loop env (pre @ chain_bytes es @ ts) (length pre) own =
    Ok (pre @ chain_bytes (filter (\<lambda>e. fst e \<noteq> own) es) @ ts)"
  using assms
proof (induction es arbitrary: pre)
  case Nil
  then show ?case by (subst remove_own_loop.simps) simp
next
  case (Cons e es)
  obtain k m s where e: "e = (k, m, s)" by (cases e) auto
  let ?v = "pre @ chain_bytes (e # es) @ ts"
  have val: "?v = pre @ entry_bytes e @ (chain_bytes es @ ts)" by simp
  from Cons.prems e obtain u where u: "proto_Unmarshal env m = Ok u" "Id u = k"
    by (auto elim: signed_entry_cases)
  have head: "remove_own_loop env ?v (length pre) own =
      (if k = own then Ok (pre @ chain_bytes es @ ts)
       else remove_own_loop env ((pre @ entry_bytes e) @ chain_bytes es @ ts) (length (pre @ entry_bytes e)) own)"
    using chain_head [OF val e] Cons.prems u by (subst remove_own_loop.simps) (simp add: slice_def add.assoc)
  show ?case
  proof (cases "k = own")
    case True
    with Cons.prems e have "filter (\<lambda>e. fst e \<noteq> own) (e # es) = es" by (auto intro!: filter_True)
    with head True show ?thesis by simp
  next
    case False
    with head e Cons.IH [of "pre @ entry_bytes e"] Cons.prems show ?thesis by simp
  qed
qed

section \<open>Registering keeps the value valid\<close>

text \<open>
  \<open>market_holds env get key es\<close>: the DHT holds the chain \<open>es\<close> of signed records
  under \<open>key\<close>, or nothing (\<open>GetValue\<close> fails) and \<open>es\<close> is empty.
\<close>

definition market_holds ::
    "('pk, 'x) market_env_scheme \<Rightarrow> (string \<Rightarrow> bytes outcome) \<Rightarrow> string \<Rightarrow> entry list \<Rightarrow> bool" where
  "market_holds env get key es \<longleftrightarrow>
     (case get key of
        Ok v \<Rightarrow> 8 \<le> length v \<and> v = chain_bytes es @ drop (length v - 8) v
      | _ \<Rightarrow> es = []) \<and>
     list_all entry_fits es \<and> list_all (signed_entry env) es \<and> distinct (map fst es)"

lemma drop_timestamp_append [simp]:
  "length ts = 8 \<Longrightarrow> drop_timestamp (xs @ ts) = Ok xs"
  by (auto simp: drop_timestamp_def)

lemma chain_bytes_append: "chain_bytes (es @ fs) = chain_bytes es @ chain_bytes fs"
  by (simp add: chain_bytes_def)

lemma removed_own:
  assumes "market_holds env get key es"
  shows "\<exists>v. remove_own_loop env (case get key of Ok v \<Rightarrow> v | _ \<Rightarrow> []) 0 own = Ok v \<and>
    drop_timestamp v = Ok (chain_bytes (filter (\<lambda>e. fst e \<noteq> own) es))"
proof (cases "get key")
  case (Ok v)
  then obtain ts where v: "v = chain_bytes es @ ts" "length ts = 8"
    using assms by (fastforce simp: market_holds_def)
  with assms remove_own_loop_chain [of es env ts "[]" own] Ok show ?thesis
    by (simp add: market_holds_def)
qed (use assms in \<open>simp_all add: market_holds_def remove_own_loop.simps drop_timestamp_def\<close>)

text \<open>
  C7: Registering a file.  Let the DHT hold a chain of signed records with distinct keys (or
  nothing) under the file's key, and let the node's key pair and the protocol-buffer codec be
  sound for its own user message.  Then \<^verbatim>\<open>RegisterFile\<close> puts exactly one value: the
  other nodes' records in their order, followed by the node's own new record and the current
  time; the node's previous record is gone.  Every validator whose clock is not behind
  accepts that value.
\<close>

theorem register_file_valid:
  assumes pub: "PubKey_Raw node = Ok pub"
    and marshal: "proto_Marshal env (user\<lparr>Id := pub\<rparr>) = Ok msg"
    and unmarshal: "proto_Unmarshal env msg = Ok (user\<lparr>Id := pub\<rparr>)"
    and sign: "Sign node msg = Ok sg"
    and verify: "UnmarshalRsaPublicKey env pub = Ok pk" "Verify env pk msg sg = Ok True"
    and fits: "length msg + length sg < 65536"
    and key: "sha256_key (strip_prefixes (market_key fileKey))"
    and holds: "market_holds env get (market_key fileKey) es"
  shows "\<exists>val. val = chain_bytes (filter (\<lambda>e. fst e \<noteq> pub) es @ [(pub, msg, sg)]) @ time_bytes now \<and>
    RegisterFile env node now get put fileKey user = put (market_key fileKey) val \<and>
    (\<forall>now'. now \<le> now' \<longrightarrow> Validate env now' (market_key fileKey) val = Ok ())"
proof -
  let ?es = "filter (\<lambda>e. fst e \<noteq> pub) es @ [(pub, msg, sg)]"
  from removed_own [OF holds, of pub] obtain v where
    v: "remove_own_loop env (case get (market_key fileKey) of Ok v \<Rightarrow> v | _ \<Rightarrow> []) 0 pub = Ok v"
       "drop_timestamp v = Ok (chain_bytes (filter (\<lambda>e. fst e \<noteq> pub) es))" by blast
  have "list_all entry_fits ?es" "list_all (signed_entry env) ?es" "distinct (map fst ?es)"
    using holds fits unmarshal verify
    by (auto simp: market_holds_def list_all_iff entry_fits_def signed_entry_def distinct_map_filter)
  then have "Validate env now' (market_key fileKey) (chain_bytes ?es @ time_bytes now) = Ok ()"
    if "now \<le> now'" for now'
    using that key validate_loop_chain [of ?es env "{}" "time_bytes now" "[]"]
      suppliedTime_chain [of "time_bytes now" "chain_bytes ?es"]
    by (auto simp: validate_iff word_le_nat_alt)
  moreover have "RegisterFile env node now get put fileKey user =
      put (market_key fileKey) (chain_bytes ?es @ time_bytes now)"
    using v pub marshal sign
    by (simp add: RegisterFile_def Let_def chain_bytes_append entry_bytes_def)
  ultimately show ?thesis by blast
qed

text \<open>
  Looking up holders.  When the DHT holds a chain of signed records (or nothing),
  \<^verbatim>\<open>CheckHolders\<close> returns one user per record, in order, each the message of its record
  unmarshalled and carrying the record's public key.
\<close>

theorem check_holders_chain:
  assumes "market_holds env get (market_key fileKey) es"
  shows "\<exists>users. CheckHolders env get fileKey = Ok users \<and>
    list_all2 (\<lambda>(k, m, s) u. proto_Unmarshal env m = Ok u \<and> Id u = k) es users"
proof (cases "get (market_key fileKey)")
  case (Ok v)
  with assms have v: "v = [] @ chain_bytes es @ drop (length v - 8) v" "8 \<le> length v"
    by (auto simp: market_holds_def)
  then have "length (drop (length v - 8) v) = 8" by simp
  with holders_loop_chain [of es env "drop (length v - 8) v" "[]" "[]"] assms v Ok show ?thesis
    by (auto simp: market_holds_def CheckHolders_def case_prod_unfold)
qed (use assms in \<open>simp_all add: market_holds_def CheckHolders_def\<close>)

section \<open>The chosen holder\<close>

lemma choose_loop_selected:
  "snd (choose_loop hs p b s) =
    (if \<exists>h\<in>set hs. Id h = string_bytes p
     then Some (last (filter (\<lambda>h. Id h = string_bytes p) hs)) else s)"
  by (induction hs arbitrary: b s) (auto simp: filter_empty_conv)

lemma choose_loop_best:
  "(case fst (choose_loop hs p b s) of
      None \<Rightarrow> hs = [] \<and> b = None
    | Some best \<Rightarrow> (best \<in> set hs \<or> b = Some best) \<and> (\<forall>h\<in>set hs. Price best \<le> Price h) \<and>
        (\<forall>b'. b = Some b' \<longrightarrow> Price best \<le> Price b'))"
proof (induction hs arbitrary: b s)
  case Nil
  then show ?case by (cases b) simp_all
next
  case (Cons h hs)
  let ?b = "case b of None \<Rightarrow> Some h | Some best \<Rightarrow> if Price h < Price best then Some h else Some best"
  from Cons.IH [of ?b "if Id h = string_bytes p then Some h else s"] show ?case
    by (auto split: option.splits if_splits)
qed

text \<open>
  Choosing a holder.  No holder is chosen only when there is none.  If some holder has the
  requested peer id, the chosen holder has that id; otherwise the chosen holder's price is the
  lowest of all.
\<close>

theorem choose_holder_best:
  "case choose_holder holders peerId of
     None \<Rightarrow> holders = []
   | Some h \<Rightarrow> h \<in> set holders \<and>
       (if \<exists>u\<in>set holders. Id u = string_bytes peerId then Id h = string_bytes peerId
        else \<forall>u\<in>set holders. Price h \<le> Price u)"
proof -
  let ?P = "\<lambda>h. Id h = string_bytes peerId"
  obtain b s where bs: "choose_loop holders peerId None None = (b, s)" by fastforce
  have "s = (if \<exists>h\<in>set holders. Id h = string_bytes peerId
             then Some (last (filter (\<lambda>h. Id h = string_bytes peerId) holders)) else None)"
    using choose_loop_selected [of holders peerId None None] bs by simp
  moreover have "last (filter ?P holders) \<in> set holders \<and> ?P (last (filter ?P holders))"
    if "\<exists>h\<in>set holders. ?P h"
    using that last_in_set [of "filter ?P holders"] by (auto simp: filter_empty_conv)
  ultimately show ?thesis
    using choose_loop_best [where hs = holders and p = peerId and b = None and s = None] bs
    by (auto simp: choose_holder_def split: option.splits if_splits)
qed

section \<open>Sample market\<close>

definition sample_node :: node_keys where
  "sample_node = \<lparr>PubKey_Raw = Ok [1], Sign = (\<lambda>m. Ok ([1] @ m))\<rparr>"

definition sample_user :: User where
  "sample_user = \<lparr>Id = [], Name = [], Ip = [], Port = 0, Price = 9\<rparr>"

definition sample_get :: "string \<Rightarrow> bytes outcome" where
  "sample_get key = Ok (chain_bytes sample_chain @ time_bytes 1000)"

lemma sample_key_ok: "sha256_key (strip_prefixes (market_key sample_key))"
  by code_simp

lemma sample_market_holds: "market_holds sample_env sample_get (market_key k) sample_chain"
  by (simp add: market_holds_def sample_get_def sample_chain_def sample_env_def entry_fits_def
      signed_entry_def)

theorem register_file_valid_witness:
  "\<exists>val. val = chain_bytes (filter (\<lambda>e. fst e \<noteq> [1]) sample_chain @ [([1], [1, 9], [1, 1, 9])]) @ time_bytes 2000 \<and>
    RegisterFile sample_env sample_node 2000 sample_get (\<lambda>k v. Ok v) sample_key sample_user = Ok val \<and>
    Validate sample_env 3000 (market_key sample_key) val = Ok ()"
proof -
  have "\<exists>val. val = chain_bytes (filter (\<lambda>e. fst e \<noteq> [1]) sample_chain @ [([1], [1, 9], [1, 1, 9])]) @ time_bytes 2000 \<and>
    RegisterFile sample_env sample_node 2000 sample_get (\<lambda>k v. Ok v) sample_key sample_user = Ok val \<and>
    (\<forall>now'. 2000 \<le> now' \<longrightarrow> Validate sample_env now' (market_key sample_key) val = Ok ())"
    by (rule register_file_valid [where put = "\<lambda>k v. Ok v" and pk = "[1]"])
       (simp_all add: sample_key_ok sample_market_holds,
        simp_all add: sample_node_def sample_env_def sample_user_def)
  moreover have "(2000 :: u64) \<le> 3000"
    by simp
  ultimately show ?thesis
    by blast
qed

theorem check_holders_chain_witness:
  "\<exists>users. CheckHolders sample_env sample_get sample_key = Ok users \<and>
    list_all2 (\<lambda>(k, m, s) u. proto_Unmarshal sample_env m = Ok u \<and> Id u = k) sample_chain users"
  by (rule check_holders_chain) (rule sample_market_holds)

theorem choose_holder_best_witness:
  "choose_holder [sample_user\<lparr>Price := 7\<rparr>, sample_user\<lparr>Price := 3\<rparr>] ''other'' = Some (sample_user\<lparr>Price := 3\<rparr>) \<and>
   Price (sample_user\<lparr>Price := 3\<rparr>) \<le> Price (sample_user\<lparr>Price := 7\<rparr>)"
  using choose_holder_best [of "[sample_user\<lparr>Price := 7\<rparr>, sample_user\<lparr>Price := 3\<rparr>]" "''other''"]
  by (simp add: choose_holder_def sample_user_def string_bytes_def)

end
