(* ===== verification/Peer_Table.thy ===== *)
theory Peer_Table
  imports Http Peer_Storage Market
begin

text \<open>
  The table of DHT peers (\<^verbatim>\<open>peerTable\<close> and \<^verbatim>\<open>peerTableMUT\<close> of
  \<^verbatim>\<open>peer/internal/server/serverRPC.go\<close>), the functions that update it and the HTTP
  handlers that read it (\<^verbatim>\<open>peerAPI.go\<close>, \<^verbatim>\<open>findPeersForHash\<close> of
  \<^verbatim>\<open>server.go\<close>).  The mutex is part of the state: \<open>None\<close> is a call that waits for
  it.  Multiaddresses, GeoIP and ping are third-party code, the fields of \<open>geo_env\<close>.
\<close>

section \<open>State and operations\<close>

record peer_state =
  peerTable :: "string \<Rightarrow> PeerInfo option"
  peerTableMUT :: bool

record 'ma geo_env =
  NewMultiaddr :: "string \<Rightarrow> 'ma outcome"
  ValueForIP4 :: "'ma \<Rightarrow> string outcome"
  geoip_Open :: "unit outcome"
  geoip_Country :: "string \<Rightarrow> string outcome"
  ping_NewPinger :: "string \<Rightarrow> unit outcome"
  ping_AvgRtt :: "string \<Rightarrow> string"

definition DisconnectPeer :: "string \<Rightarrow> peer_state \<Rightarrow> (unit outcome \<times> peer_state) option" where
  "DisconnectPeer peerId s0 =
     (if peerTableMUT s0 then None
      else let s = s0\<lparr>peerTableMUT := True\<rparr> in
        case peerTable s peerId of
          Some val \<Rightarrow>
            Some (Ok (), s\<lparr>peerTable := (peerTable s)(peerId \<mapsto> val\<lparr>OpenStreams := ''NO''\<rparr>),
                           peerTableMUT := False\<rparr>)
        | None \<Rightarrow> Some (Err ''key does not exist'', s\<lparr>peerTableMUT := False\<rparr>))"

text \<open>\<^verbatim>\<open>strings.Contains\<close>.\<close>

fun contains :: "string \<Rightarrow> string \<Rightarrow> bool" where
  "contains [] sub \<longleftrightarrow> sub = []"
| "contains (c # s) sub \<longleftrightarrow> take (length sub) (c # s) = sub \<or> contains s sub"

text \<open>
  \<^verbatim>\<open>getLocationFromIP\<close>.  The early returns inside the branch of a known peer do not
  unlock the mutex; \<^verbatim>\<open>log.Fatal\<close> ends the process.  The variable \<^verbatim>\<open>location\<close> is
  never assigned.
\<close>

definition getLocationFromIP ::
    "('ma, 'x) geo_env_scheme \<Rightarrow> string \<Rightarrow> peer_state \<Rightarrow> (string outcome \<times> peer_state) option" where
  "getLocationFromIP env peerId s0 =
     (if peerTableMUT s0 then None
      else let s = s0\<lparr>peerTableMUT := True\<rparr> in
        case peerTable s peerId of
          Some val \<Rightarrow>
            (case NewMultiaddr env (Connection val) of
               Ok mAddr \<Rightarrow>
                 (case ValueForIP4 env mAddr of
                    Ok ipStr \<Rightarrow>
                      if contains ipStr ''127.0.0.1'' then Some (Ok [], s)
                      else
                        (case bind (geoip_Open env) (\<lambda>_. geoip_Country env ipStr) of
                           Ok country \<Rightarrow>
                             Some (Ok [], s\<lparr>peerTable := (peerTable s)(peerId \<mapsto> val\<lparr>Location := country\<rparr>),
                                            peerTableMUT := False\<rparr>)
                         | _ \<Rightarrow> Some (Panic ''log.Fatal'', s))
                  | _ \<Rightarrow> Some (Ok [], s))
             | _ \<Rightarrow> Some (Err ''cannot convert multiaddress to IP'', s))
        | None \<Rightarrow> Some (Err ''key does not exist'', s\<lparr>peerTableMUT := False\<rparr>))"

definition getLatency ::
    "('ma, 'x) geo_env_scheme \<Rightarrow> string \<Rightarrow> peer_state \<Rightarrow> (unit outcome \<times> peer_state) option" where
  "getLatency env peerId s0 =
     (if peerTableMUT s0 then None
      else let s = s0\<lparr>peerTableMUT := True\<rparr> in
        case peerTable s peerId of
          Some val \<Rightarrow>
            (case NewMultiaddr env (Connection val) of
               Ok mAddr \<Rightarrow>
                 (case ValueForIP4 env mAddr of
                    Ok ipStr \<Rightarrow>
                      (case ping_NewPinger env ipStr of
                         Ok _ \<Rightarrow>
                           Some (Ok (), s\<lparr>peerTable := (peerTable s)(peerId \<mapsto> val\<lparr>Latency := ping_AvgRtt env ipStr\<rparr>),
                                          peerTableMUT := False\<rparr>)
                       | _ \<Rightarrow> Some (Err ''cant create pinger'', s))
                  | _ \<Rightarrow> Some (Ok (), s))
             | _ \<Rightarrow> Some (Err ''cannot convert multiaddress to IP'', s))
        | None \<Rightarrow> Some (Err ''key does not exist'', s\<lparr>peerTableMUT := False\<rparr>))"

text \<open>
  One round of \<^verbatim>\<open>ListAllDHTPeers\<close> over the routing table: each entry is the result of
  \<^verbatim>\<open>FindPeer\<close>, an id with its addresses, or an error that is skipped.  It writes the
  table without the mutex.  The second component lists the ids for which a
  \<^verbatim>\<open>getLocationFromIP\<close> goroutine is started.
\<close>

fun list_peers_round ::
    "(string \<times> string list) outcome list \<Rightarrow> peer_state \<Rightarrow> string list \<Rightarrow> peer_state \<times> string list" where
  "list_peers_round [] s spawned = (s, spawned)"
| "list_peers_round (Ok (key, addrs) # ps) s spawned =
     (if peerTable s key = None then
        let connection = (case addrs of [] \<Rightarrow> [] | a # _ \<Rightarrow> a) in
        list_peers_round ps
          (s\<lparr>peerTable := (peerTable s)(key \<mapsto> \<lparr>Location = [], Latency = [], PeerID = key,
               Connection = connection, OpenStreams = ''YES'', FlagUrl = []\<rparr>)\<rparr>)
          (spawned @ [key])
      else list_peers_round ps s spawned)"
| "list_peers_round (_ # ps) s spawned = list_peers_round ps s spawned"

section \<open>Handlers\<close>

datatype peer_payload = Peer_json PeerInfo | Peers_json "PeerInfo list"

type_synonym peer_response = "peer_payload response"

text \<open>The iteration order of a Go map is arbitrary: \<open>order\<close> is the order of this run.\<close>

definition getAllPeers :: "http_method \<Rightarrow> string list \<Rightarrow> peer_state \<Rightarrow> peer_response" where
  "getAllPeers method order s =
     (if method = GET then
        Write (Payload (Peers_json (List.map_filter (peerTable s) order)))
          (WriteHeader 200 (SetContentType ''application/json'' fresh_response))
      else writeStatusUpdate ''Only GET requests will be handled.''
             (WriteHeader 405 fresh_response))"

definition getPeer :: "http_method \<Rightarrow> string \<Rightarrow> peer_state \<Rightarrow> peer_response" where
  "getPeer method peerId s =
     (if method = GET then
        case peerTable s peerId of
          Some peer \<Rightarrow>
            Write (Payload (Peer_json peer))
              (WriteHeader 200 (SetContentType ''application/json'' fresh_response))
        | None \<Rightarrow> writeStatusUpdate ''Peer ID not found inside list of connected peer ids.''
                    (WriteHeader 400 fresh_response)
      else writeStatusUpdate ''Only GET requests will be handled.''
             (WriteHeader 405 fresh_response))"

definition removePeer ::
    "http_method \<Rightarrow> string option \<Rightarrow> peer_state \<Rightarrow> (peer_response \<times> peer_state) option" where
  "removePeer method payload s =
     (if method = POST then
        case payload of
          None \<Rightarrow> Some (writeStatusUpdate
            ''Cannot marshal payload in Go object. Does the payload have the correct body structure?''
            (WriteHeader 400 fresh_response), s)
        | Some peerId \<Rightarrow>
            (case DisconnectPeer peerId s of
               None \<Rightarrow> None
             | Some (Ok _, s') \<Rightarrow> Some (WriteHeader 200 fresh_response, s')
             | Some (_, s') \<Rightarrow> Some (WriteHeader 400 fresh_response, s'))
      else Some (writeStatusUpdate ''Only POST requests will be handled.''
                   (WriteHeader 405 fresh_response), s))"

record Peer =
  pr_PeerId :: bytes
  pr_Ip :: string
  pr_Region :: string

text \<open>\<open>peer_name\<close> is the conversion \<^verbatim>\<open>string(holder.GetId())\<close>.\<close>

definition peer_name :: "bytes \<Rightarrow> string" where
  "peer_name bs = map (\<lambda>b. char_of (unat b)) bs"

fun find_peers_loop ::
    "('ma, 'x) geo_env_scheme \<Rightarrow> User list \<Rightarrow> Peer list \<Rightarrow> peer_state \<Rightarrow>
     (Peer list outcome \<times> peer_state) option" where
  "find_peers_loop env [] peers s = Some (Ok peers, s)"
| "find_peers_loop env (holder # holders) peers s =
     (case getLocationFromIP env (peer_name (Id holder)) s of
        None \<Rightarrow> None
      | Some (Ok location, s') \<Rightarrow>
          find_peers_loop env holders
            (peers @ [\<lparr>pr_PeerId = Id holder, pr_Ip = Ip holder, pr_Region = location\<rparr>]) s'
      | Some (Err _, s') \<Rightarrow> Some (Err ''unable to get location about peer'', s')
      | Some (Panic p, s') \<Rightarrow> Some (Panic p, s'))"

definition findPeersForHash ::
    "('pk, 'y) market_env_scheme \<Rightarrow> (string \<Rightarrow> bytes outcome) \<Rightarrow> ('ma, 'x) geo_env_scheme \<Rightarrow>
     string \<Rightarrow> peer_state \<Rightarrow> (Peer list outcome \<times> peer_state) option" where
  "findPeersForHash menv get env fileHash s =
     (case CheckHolders menv get fileHash of
        Ok holders \<Rightarrow> find_peers_loop env holders [] s
      | Err e \<Rightarrow> Some (Err e, s)
      | Panic p \<Rightarrow> Some (Panic p, s))"

section \<open>The mutex\<close>

lemmas peer_ops = DisconnectPeer_def getLocationFromIP_def getLatency_def

lemma blocked_when_held:
  assumes "peerTableMUT s"
  shows "DisconnectPeer p s = None" and "getLocationFromIP env p s = None" and "getLatency env p s = None"
  using assms by (simp_all add: peer_ops)

lemma DisconnectPeer_free:
  assumes "\<not> peerTableMUT s"
  shows "\<exists>r s'. DisconnectPeer p s = Some (r, s') \<and> \<not> peerTableMUT s' \<and>
    peerTable s' = (peerTable s)(p := map_option (\<lambda>v. v\<lparr>OpenStreams := ''NO''\<rparr>) (peerTable s p)) \<and>
    (r = Ok () \<longleftrightarrow> p \<in> dom (peerTable s))"
  using assms by (auto simp: DisconnectPeer_def Let_def split: option.splits)


lemma getLocationFromIP_empty:
  "getLocationFromIP env p s = Some (Ok loc, s') \<Longrightarrow> loc = []"
  by (auto simp: getLocationFromIP_def Let_def split: option.splits outcome.splits if_splits)

lemma find_peers_loop_region:
  assumes "find_peers_loop env hs peers s = Some (Ok res, s')"
    and "\<forall>q\<in>set peers. pr_Region q = []"
  shows "\<forall>q\<in>set res. pr_Region q = []"
  using assms
proof (induction hs arbitrary: peers s)
  case Nil
  then show ?case by simp
next
  case (Cons h hs)
  let ?call = "getLocationFromIP env (peer_name (Id h)) s"
  from Cons.prems(1) obtain loc s1 where call: "?call = Some (Ok loc, s1)"
    by (simp split: option.splits outcome.splits prod.splits)
  have "loc = []" using call by (rule getLocationFromIP_empty)
  with Cons.IH [of "peers @ [\<lparr>pr_PeerId = Id h, pr_Ip = Ip h, pr_Region = loc\<rparr>]" s1] Cons.prems call
  show ?case by simp
qed

text \<open>
  The region is never filled in.  Whatever the GeoIP database answers, every peer that
  \<^verbatim>\<open>findPeersForHash\<close> returns for a file has an empty region.
\<close>

theorem find_peers_region_empty:
  assumes "findPeersForHash menv get env fileHash s = Some (Ok peers, s')"
  shows "\<forall>q\<in>set peers. pr_Region q = []"
  using assms find_peers_loop_region [where peers = "[]"]
  by (fastforce simp: findPeersForHash_def split: outcome.splits)

definition sample_geo :: "string geo_env" where
  "sample_geo = \<lparr>NewMultiaddr = (\<lambda>c. Ok c), ValueForIP4 = (\<lambda>a. Ok a), geoip_Open = Ok (),
     geoip_Country = (\<lambda>_. Ok ''France''), ping_NewPinger = (\<lambda>_. Ok ()), ping_AvgRtt = (\<lambda>_. ''1'')\<rparr>"

definition sample_peer :: "string \<Rightarrow> string \<Rightarrow> PeerInfo" where
  "sample_peer k c = \<lparr>Location = [], Latency = [], PeerID = k, Connection = c,
     OpenStreams = ''YES'', FlagUrl = []\<rparr>"

definition sample_table :: "string \<Rightarrow> peer_state" where
  "sample_table addr = \<lparr>peerTable = (\<lambda>k. Some (sample_peer k addr)), peerTableMUT = False\<rparr>"

lemma sample_addresses:
  "contains ''127.0.0.1'' ''127.0.0.1''" "\<not> contains ''8.8.8.8'' ''127.0.0.1''"
  by code_simp+


theorem find_peers_region_empty_witness:
  "\<exists>peers s'. findPeersForHash sample_env sample_get sample_geo sample_key (sample_table ''8.8.8.8'')
      = Some (Ok peers, s') \<and> length peers = 2 \<and> (\<forall>q\<in>set peers. pr_Region q = [])"
proof -
  let ?r = "findPeersForHash sample_env sample_get sample_geo sample_key (sample_table ''8.8.8.8'')"
  have "case ?r of Some (Ok peers, s') \<Rightarrow> length peers = 2 | _ \<Rightarrow> False" by code_simp
  then obtain peers s' where r: "?r = Some (Ok peers, s')" "length peers = 2"
    by (auto split: option.splits outcome.splits)
  with find_peers_region_empty [OF r(1)] show ?thesis by blast
qed

end
