(* ===== verification/File_Chunk.thy ===== *)
theory File_Chunk
  imports Go_Text
begin

text \<open>
  Splitting a file into stored chunks (\<^verbatim>\<open>peer/internal/hash/file_chunk.go\<close>,
  \<^verbatim>\<open>SaveChunkedFile\<close>).  The directory \<^verbatim>\<open>./files/stored\<close> is a map from file name to
  contents.  What the operating system does is an argument: one pair per round of the loop, the
  bytes that \<^verbatim>\<open>file.Read\<close> delivers and the outcome of \<^verbatim>\<open>ioutil.WriteFile\<close>, and what
  the last \<^verbatim>\<open>Read\<close> reports (end of file or an error).  The read buffer is one slice that is
  reused, so a short read leaves the tail of the previous round in it.  The hash function is an
  argument.
\<close>

section \<open>The code\<close>

type_synonym dir = "string \<Rightarrow> bytes option"

record FileInfo =
  fi_FileHash :: string
  fi_FileSize :: int
  fi_ChunkHashes :: "string list"
  fi_FileName :: string

definition empty_FileInfo :: FileInfo where
  "empty_FileInfo = \<lparr>fi_FileHash = [], fi_FileSize = 0, fi_ChunkHashes = [], fi_FileName = []\<rparr>"

definition chunkSize :: nat where
  "chunkSize = 4 * 1024 * 1024"

definition read_into :: "bytes \<Rightarrow> bytes \<Rightarrow> bytes" where
  "read_into chunk got = got @ drop (length got) chunk"

definition WriteFile :: "write_result \<Rightarrow> string \<Rightarrow> bytes \<Rightarrow> dir \<Rightarrow> unit outcome \<times> dir" where
  "WriteFile res name data d =
     (case res of
        Written \<Rightarrow> (Ok (), d(name \<mapsto> data))
      | Open_failed \<Rightarrow> (Err ''open failed'', d)
      | Write_failed torn \<Rightarrow> (Err ''write failed'', d(name \<mapsto> torn)))"

definition Remove_file :: "string \<Rightarrow> dir \<Rightarrow> unit outcome \<times> dir" where
  "Remove_file name d =
     (if d name = None then (Err ''no such file or directory'', d) else (Ok (), d(name := None)))"

text \<open>
  The clean-up loop assigns the result of \<^verbatim>\<open>os.Remove\<close> to the very variable that holds the
  write error, and the function then returns that variable: it is nil when every removal worked.
\<close>

fun cleanup_loop :: "string list \<Rightarrow> dir \<Rightarrow> (string \<times> FileInfo) outcome \<times> dir" where
  "cleanup_loop [] d = (Ok ([], empty_FileInfo), d)"
| "cleanup_loop (h # hs) d =
     (case Remove_file h d of
        (Ok _, d') \<Rightarrow> cleanup_loop hs d'
      | (_, d') \<Rightarrow> (Err ''Failed to clean up removing partial chunks'', d'))"

datatype chunk_exit = Broke "string list" int | Exit_with "(string \<times> FileInfo) outcome"

fun chunk_loop ::
    "(bytes \<Rightarrow> bytes) \<Rightarrow> bytes \<Rightarrow> (bytes \<times> write_result) list \<Rightarrow> string option \<Rightarrow>
     string list \<Rightarrow> int \<Rightarrow> dir \<Rightarrow> chunk_exit \<times> dir" where
  "chunk_loop sha chunk [] at_end hashes n d =
     (case at_end of None \<Rightarrow> (Broke hashes n, d) | Some e \<Rightarrow> (Exit_with (Err e), d))"
| "chunk_loop sha chunk ((got, res) # rs) at_end hashes n d =
     (if got = [] then (Broke hashes n, d)
      else let chunk' = read_into chunk got;
               hash = hex_EncodeToString (sha (take (length got) chunk'));
               hashes' = hashes @ [hash]
           in case WriteFile res hash chunk' d of
                (Ok _, d') \<Rightarrow> chunk_loop sha chunk' rs at_end hashes' (wrap64 (n + int (length got))) d'
              | (_, d') \<Rightarrow> (let (r, d'') = cleanup_loop hashes' d' in (Exit_with r, d'')))"

definition file_key :: "(bytes \<Rightarrow> bytes) \<Rightarrow> FileInfo \<Rightarrow> string" where
  "file_key sha fi =
     hex_EncodeToString (sha (string_bytes
       (fi_FileHash fi @ concat (fi_ChunkHashes fi) @ show_int (fi_FileSize fi) @ fi_FileName fi)))"

definition SaveChunkedFile ::
    "(bytes \<Rightarrow> bytes) \<Rightarrow> string option \<Rightarrow> (bytes \<times> write_result) list \<Rightarrow> string option \<Rightarrow>
     string \<Rightarrow> dir \<Rightarrow> (string \<times> FileInfo) outcome \<times> dir" where
  "SaveChunkedFile sha open_error reads at_end fileName d =
     (case open_error of
        Some e \<Rightarrow> (Err e, d)
      | None \<Rightarrow>
          (case chunk_loop sha (replicate chunkSize 0) reads at_end [] 0 d of
             (Exit_with r, d') \<Rightarrow> (r, d')
           | (Broke hashes n, d') \<Rightarrow>
               (let fi = \<lparr>fi_FileHash = string_of_bytes (sha []), fi_FileSize = n,
                          fi_ChunkHashes = hashes, fi_FileName = fileName\<rparr>
                in (Ok (file_key sha fi, fi), d'))))"

section \<open>What a run of successful rounds stores\<close>

fun stored_chunks :: "bytes \<Rightarrow> bytes list \<Rightarrow> bytes list" where
  "stored_chunks chunk [] = []"
| "stored_chunks chunk (got # rs) = read_into chunk got # stored_chunks (read_into chunk got) rs"

abbreviation chunk_name :: "(bytes \<Rightarrow> bytes) \<Rightarrow> bytes \<Rightarrow> string" where
  "chunk_name sha got \<equiv> hex_EncodeToString (sha got)"

fun store_all :: "(bytes \<Rightarrow> bytes) \<Rightarrow> bytes \<Rightarrow> bytes list \<Rightarrow> dir \<Rightarrow> dir" where
  "store_all sha chunk [] d = d"
| "store_all sha chunk (got # rs) d =
     store_all sha (read_into chunk got) rs (d(chunk_name sha got \<mapsto> read_into chunk got))"

definition proper_reads :: "bytes list \<Rightarrow> bool" where
  "proper_reads gots \<longleftrightarrow> (\<forall>g\<in>set gots. g \<noteq> [] \<and> length g \<le> chunkSize)"

lemma length_read_into [simp]: "length got \<le> length chunk \<Longrightarrow> length (read_into chunk got) = length chunk"
  by (simp add: read_into_def)

lemma take_read_into [simp]: "take (length got) (read_into chunk got) = got"
  by (simp add: read_into_def)

lemma read_into_full: "length got = length chunk \<Longrightarrow> read_into chunk got = got"
  by (simp add: read_into_def)

lemma chunk_loop_round:
  "g \<noteq> [] \<Longrightarrow> chunk_loop sha chunk ((g, Written) # rs) at_end hashes n d =
     chunk_loop sha (read_into chunk g) rs at_end (hashes @ [chunk_name sha g]) (wrap64 (n + int (length g)))
       (d(chunk_name sha g \<mapsto> read_into chunk g))"
  by (simp add: Let_def WriteFile_def del: fun_upd_apply)

lemma chunk_loop_written:
  assumes "\<forall>g\<in>set gots. g \<noteq> []"
  shows "chunk_loop sha chunk (map (\<lambda>g. (g, Written)) gots @ rest) at_end hashes n d =
    chunk_loop sha (last (chunk # stored_chunks chunk gots)) rest at_end
      (hashes @ map (chunk_name sha) gots)
      (if gots = [] then n else wrap64 (n + int (sum_list (map length gots))))
      (store_all sha chunk gots d)"
  using assms
proof (induction gots arbitrary: chunk hashes n d)
  case (Cons g gs)
  have "g \<noteq> []" and "\<forall>g\<in>set gs. g \<noteq> []"
    using Cons.prems by simp_all
  then show ?case
    using Cons.IH [of "read_into chunk g" "hashes @ [chunk_name sha g]"
        "wrap64 (n + int (length g))" "d(chunk_name sha g \<mapsto> read_into chunk g)"]
    by (simp add: chunk_loop_round wrap64_add add.assoc del: chunk_loop.simps fun_upd_apply)
qed simp

text \<open>A directory holds a read when the file under its hash is a full buffer that starts with it.\<close>

definition holds_chunk :: "(bytes \<Rightarrow> bytes) \<Rightarrow> dir \<Rightarrow> bytes \<Rightarrow> bool" where
  "holds_chunk sha d g \<longleftrightarrow>
     (\<exists>c. d (chunk_name sha g) = Some c \<and> length c = chunkSize \<and> take (length g) c = g)"

lemma store_all_holds:
  assumes "proper_reads gots" and "length chunk = chunkSize" and "inj_on sha (insert g (set gots))"
    and "g \<in> set gots \<or> holds_chunk sha d g"
  shows "holds_chunk sha (store_all sha chunk gots d) g"
  using assms
proof (induction gots arbitrary: chunk d)
  case (Cons x xs)
  let ?c = "read_into chunk x"
  have x: "length x \<le> chunkSize" and xs: "proper_reads xs"
    using Cons.prems(1) by (simp_all add: proper_reads_def)
  have "g \<in> set xs \<or> holds_chunk sha (d(chunk_name sha x \<mapsto> ?c)) g"
  proof (cases "x = g")
    case True
    then show ?thesis
      using x Cons.prems(2) by (simp add: holds_chunk_def)
  next
    case False
    then have "chunk_name sha g \<noteq> chunk_name sha x"
      using Cons.prems(3) hex_EncodeToString_inj [of "sha g" "sha x"] by (auto simp: inj_on_def)
    then show ?thesis
      using Cons.prems(4) False by (auto simp: holds_chunk_def)
  qed
  moreover have "inj_on sha (insert g (set xs))"
    using Cons.prems(3) by (auto simp: inj_on_def)
  ultimately show ?case
    using Cons.IH [of ?c] xs x Cons.prems(2) by simp
qed simp

lemma store_all_holds_each:
  assumes "proper_reads gots" and "inj_on sha (set gots)"
  shows "\<forall>g\<in>set gots. holds_chunk sha (store_all sha (replicate chunkSize 0) gots d) g"
  using store_all_holds [OF assms(1), of "replicate chunkSize 0" sha _ d] assms(2)
  by (metis insert_absorb length_replicate)

lemma store_all_dom: "dom (store_all sha chunk gots d) = dom d \<union> chunk_name sha ` set gots"
  by (induction gots arbitrary: chunk d) auto

lemma store_all_other:
  "h \<notin> chunk_name sha ` set gots \<Longrightarrow> store_all sha chunk gots d h = d h"
  by (induction gots arbitrary: chunk d) auto

lemma length_last_stored:
  "proper_reads gots \<Longrightarrow> length chunk = chunkSize \<Longrightarrow> length (last (chunk # stored_chunks chunk gots)) = chunkSize"
proof (induction gots arbitrary: chunk)
  case (Cons g gs)
  then show ?case
    using Cons.IH [of "read_into chunk g"] by (simp add: proper_reads_def)
qed simp

lemma save_chunked_run:
  assumes "proper_reads gots" and "length (concat gots) < 2 ^ 63"
  shows "\<exists>fi. SaveChunkedFile sha None (map (\<lambda>g. (g, Written)) gots) None name d =
      (Ok (file_key sha fi, fi), store_all sha (replicate chunkSize 0) gots d) \<and>
    fi_ChunkHashes fi = map (chunk_name sha) gots \<and> fi_FileSize fi = int (length (concat gots)) \<and>
    fi_FileHash fi = string_of_bytes (sha []) \<and> fi_FileName fi = name"
proof -
  have "\<forall>g\<in>set gots. g \<noteq> []"
    using assms(1) by (simp add: proper_reads_def)
  from chunk_loop_written [OF this, of sha "replicate chunkSize 0" "[]" None "[]" 0 d]
  show ?thesis
    using assms(2) by (auto simp: SaveChunkedFile_def Let_def length_concat)
qed

text \<open>
  C26: Storing a file in chunks.  Let the reads be non-empty, no longer than the buffer and
  without a hash collision among them, and let every write succeed.  Then the file's record lists
  the hash of every read in order and the exact file size, and for every read the directory holds
  a file of exactly the buffer's size, under the hash of the read, which begins with the read.  (It
  equals the read only when the read fills the buffer: a shorter chunk is stored with a tail that
  its hash does not cover.)
\<close>

theorem save_chunked_file:
  assumes "proper_reads gots" and "length (concat gots) < 2 ^ 63" and "inj_on sha (set gots)"
  shows "\<exists>fi d'. SaveChunkedFile sha None (map (\<lambda>g. (g, Written)) gots) None name d =
      (Ok (file_key sha fi, fi), d') \<and>
    fi_ChunkHashes fi = map (\<lambda>g. hex_EncodeToString (sha g)) gots \<and>
    fi_FileSize fi = int (length (concat gots)) \<and>
    (\<forall>g\<in>set gots. \<exists>c. d' (hex_EncodeToString (sha g)) = Some c \<and> length c = chunkSize \<and>
       take (length g) c = g \<and> (c = g \<longleftrightarrow> length g = chunkSize))"
proof -
  have "\<forall>g\<in>set gots. holds_chunk sha (store_all sha (replicate chunkSize 0) gots d) g"
    by (rule store_all_holds_each [OF assms(1,3)])
  moreover have "c = g \<longleftrightarrow> length g = chunkSize" if "length c = chunkSize" "take (length g) c = g" for c g :: bytes
    using that by auto
  ultimately show ?thesis
    using save_chunked_run [OF assms(1,2), of sha name d] unfolding holds_chunk_def by fastforce
qed

section \<open>A failing write\<close>

lemma cleanup_removes:
  "distinct hs \<Longrightarrow> set hs \<subseteq> dom d \<Longrightarrow> cleanup_loop hs d = (Ok ([], empty_FileInfo), d |` (- set hs))"
proof (induction hs arbitrary: d)
  case (Cons h hs)
  then have "set hs \<subseteq> dom (d(h := None))" and "d h \<noteq> None"
    by auto
  then show ?case
    using Cons by (auto simp: Remove_file_def restrict_map_def fun_eq_iff)
qed (simp add: restrict_map_def)

text \<open>
  A failing write is reported as success.  Let all writes before it succeed, let the write of
  the next chunk fail half way, and let the chunk hashes be distinct.  The clean-up removes every
  chunk of the file, and the function then returns an empty key and an empty record with no
  error.
\<close>

theorem failed_write_no_error:
  assumes "\<forall>g\<in>set (gots @ [g]). g \<noteq> []" and "distinct (map sha (gots @ [g]))"
  shows "SaveChunkedFile sha None (map (\<lambda>g. (g, Written)) gots @ (g, Write_failed torn) # rest) at_end name d =
    (Ok ([], empty_FileInfo), d |` (- ((\<lambda>g. hex_EncodeToString (sha g)) ` set (gots @ [g]))))"
proof -
  let ?d = "store_all sha (replicate chunkSize 0) gots d"
  let ?hs = "map (chunk_name sha) gots @ [chunk_name sha g]"
  have "?hs = map hex_EncodeToString (map sha (gots @ [g]))"
    by simp
  then have dist: "distinct ?hs"
    using assms(2) hex_EncodeToString_inj by (simp only: distinct_map inj_on_def) blast
  have "?d(chunk_name sha g \<mapsto> torn) |` (- set ?hs) = d |` (- set ?hs)"
    by (auto simp: restrict_map_def store_all_other fun_eq_iff)
  moreover have "set ?hs \<subseteq> dom (?d(chunk_name sha g \<mapsto> torn))"
    by (auto simp: store_all_dom)
  ultimately have "cleanup_loop ?hs (?d(chunk_name sha g \<mapsto> torn)) =
      (Ok ([], empty_FileInfo), d |` (- set ?hs))"
    using cleanup_removes [OF dist] by metis
  moreover have "set ?hs = chunk_name sha ` set (gots @ [g])"
    by simp
  ultimately show ?thesis
    using assms(1) chunk_loop_written [of gots sha "replicate chunkSize 0" "(g, Write_failed torn) # rest" at_end "[]" 0 d]
    by (simp add: SaveChunkedFile_def WriteFile_def Let_def del: fun_upd_apply)
qed

section \<open>A sample file\<close>

definition sample_reads :: "bytes list" where
  "sample_reads = [replicate chunkSize 1, [2, 3]]"

definition sample_sha :: "bytes \<Rightarrow> bytes" where
  "sample_sha bs = [of_nat (length bs)]"

lemma sample_reads_ok:
  "proper_reads sample_reads \<and> length (concat sample_reads) < 2 ^ 63 \<and> inj_on sample_sha (set sample_reads)"
  by (simp add: proper_reads_def sample_reads_def chunkSize_def sample_sha_def inj_on_def)

theorem save_chunked_file_witness:
  "\<exists>fi d'. SaveChunkedFile sample_sha None (map (\<lambda>g. (g, Written)) sample_reads) None ''f'' Map.empty =
      (Ok (file_key sample_sha fi, fi), d') \<and>
    fi_ChunkHashes fi = [''00'', ''02''] \<and> fi_FileSize fi = 4194306 \<and>
    (\<exists>c. d' ''02'' = Some c \<and> length c = 4194304 \<and> take 2 c = [2, 3])"
proof -
  have names: "map (chunk_name sample_sha) sample_reads = [''00'', ''02'']"
    by (simp add: sample_reads_def sample_sha_def chunkSize_def) code_simp
  have two: "chunk_name sample_sha [2, 3] = ''02''"
    by code_simp
  have size: "length (concat sample_reads) = 4194306" "chunkSize = 4194304" "length [2, 3 :: byte] = 2"
    and "[2, 3] \<in> set sample_reads"
    by (simp_all add: sample_reads_def chunkSize_def)
  then show ?thesis
    using save_chunked_file [of sample_reads sample_sha "''f''" Map.empty] sample_reads_ok
    unfolding names by (metis two size of_nat_numeral)
qed

theorem failed_write_no_error_witness:
  "SaveChunkedFile sample_sha None [([7], Written), ([8, 9], Write_failed [])] None ''f'' Map.empty =
    (Ok ([], empty_FileInfo), Map.empty)"
  using failed_write_no_error [of "[[7]]" "[8, 9]" sample_sha "[]" "[]" None "''f''" Map.empty]
  by (simp add: sample_sha_def)

end
