(* ===== verification/File_Transfer.thy ===== *)
theory File_Transfer
  imports File_Chunk Jobs
begin

text \<open>
  The file transfer between two peers: the server side of a stream
  (\<^verbatim>\<open>HandleStoredFileStream\<close> in \<^verbatim>\<open>peer/internal/server/serverRPC.go\<close>) and the
  client side (\<^verbatim>\<open>GetFileOnce\<close> in \<^verbatim>\<open>peer/internal/client/client.go\<close>).  A message is
  a four-byte little-endian length followed by a JSON document; the JSON codec is an argument.

  The client is driven by what happens to it: one record per round of its loop says whether the
  two writes succeed, which bytes the peer answers with, what the payment returns, whether the
  chunk can be written, which operations other goroutines perform on the job table before the
  status check, and which ones during each ten-second sleep while the job is paused.  A missing
  round means that the client still waits for the peer.  \<^verbatim>\<open>None\<close> means that the client is
  blocked on the mutex of the job table.
\<close>

section \<open>Messages\<close>

record FileChunkRequest =
  rq_FileHash :: string
  rq_ChunkIndex :: int
  rq_JobId :: string

record FileChunk =
  fc_FileHash :: string
  fc_ChunkIndex :: int
  fc_MaxChunk :: int
  fc_JobId :: string
  fc_Data :: bytes

record json_codec =
  Marshal_req :: "FileChunkRequest \<Rightarrow> bytes"
  Unmarshal_req :: "bytes \<Rightarrow> FileChunkRequest outcome"
  Marshal_chunk :: "FileChunk \<Rightarrow> bytes"
  Unmarshal_chunk :: "bytes \<Rightarrow> FileChunk outcome"

definition put_frame :: "bytes \<Rightarrow> bytes" where
  "put_frame payload = le_bytes 4 (length payload mod 2 ^ 32) @ payload"

definition frame_length :: "bytes \<Rightarrow> nat" where
  "frame_length rx = le_value (take 4 rx)"

section \<open>The server side\<close>

text \<open>
  One round of the loop on the bytes that arrive for it.  \<^verbatim>\<open>Ok\<close> is the reply and the loop
  goes on, \<^verbatim>\<open>Err\<close> closes the stream, \<^verbatim>\<open>Panic\<close> ends the process.  The error of
  \<^verbatim>\<open>io.ReadFull\<close> is overwritten: bytes that do not arrive read as zero.
\<close>

definition serve_request ::
    "json_codec \<Rightarrow> (string \<Rightarrow> FileInfo option) \<Rightarrow> dir \<Rightarrow> bytes \<Rightarrow> bytes outcome" where
  "serve_request json infos stored rx =
     (if length rx < 4 then Err ''EOF''
      else let len = frame_length rx;
               rest = drop 4 rx;
               payload = take len rest @ replicate (len - length rest) 0
           in bind (Unmarshal_req json payload) (\<lambda>req.
              let info = (case infos (rq_FileHash req) of Some i \<Rightarrow> i | None \<Rightarrow> empty_FileInfo);
                  hashes = fi_ChunkHashes info
              in if rq_ChunkIndex req < 0 \<or> int (length hashes) \<le> rq_ChunkIndex req
                 then Panic ''index out of range''
                 else case stored (hashes ! nat (rq_ChunkIndex req)) of
                        None \<Rightarrow> Err ''no such file or directory''
                      | Some data \<Rightarrow>
                          Ok (put_frame (Marshal_chunk json
                            \<lparr>fc_FileHash = rq_FileHash req, fc_ChunkIndex = rq_ChunkIndex req,
                             fc_MaxChunk = int (length hashes), fc_JobId = rq_JobId req,
                             fc_Data = data\<rparr>))))"

fun HandleStoredFileStream ::
    "json_codec \<Rightarrow> (string \<Rightarrow> FileInfo option) \<Rightarrow> dir \<Rightarrow> bytes list \<Rightarrow> bytes list \<Rightarrow> bytes list \<times> unit outcome" where
  "HandleStoredFileStream json infos stored [] out = (out, Err ''EOF'')"
| "HandleStoredFileStream json infos stored (rx # rxs) out =
     (case serve_request json infos stored rx of
        Ok reply \<Rightarrow> HandleStoredFileStream json infos stored rxs (out @ [reply])
      | Err e \<Rightarrow> (out, Err e)
      | Panic p \<Rightarrow> (out, Panic p))"

section \<open>The client side\<close>

datatype client_event = Requested bytes | Paid string string | Sent_transaction int

record client_world =
  cw_Manager :: JobManager
  requested :: dir
  events :: "client_event list"

record client_cfg =
  cf_hash :: string
  cf_wallet :: string
  cf_price :: string
  cf_job :: string
  cf_keys :: bool

record client_round =
  length_sent :: bool
  request_sent :: bool
  answer :: bytes
  payment :: "unit outcome"
  chunk_written :: bool
  before_check :: "job_op list"
  sleeps :: "job_op list list"

datatype round_result = Go_on | Received_all | Return_now "unit outcome" | Sleeping | Fatal string

definition set_job_status :: "client_cfg \<Rightarrow> string \<Rightarrow> client_world \<Rightarrow> client_world option" where
  "set_job_status cf st w =
     map_option (\<lambda>(_, m). w\<lparr>cw_Manager := m\<rparr>) (UpdateJobStatus (cf_job cf) st (cw_Manager w))"

definition fail_with ::
    "client_cfg \<Rightarrow> unit outcome \<Rightarrow> client_world \<Rightarrow> (round_result \<times> client_world) option" where
  "fail_with cf r w = map_option (\<lambda>w'. (Return_now r, w')) (set_job_status cf ''terminated'' w)"

definition read_answer :: "json_codec \<Rightarrow> bytes \<Rightarrow> FileChunk outcome" where
  "read_answer json rx =
     (if length rx < 4 then Err ''EOF''
      else if length rx < 4 + frame_length rx then Err ''unexpected EOF''
      else Unmarshal_chunk json (take (frame_length rx) (drop 4 rx)))"

definition charge :: "client_cfg \<Rightarrow> client_world \<Rightarrow> client_world option" where
  "charge cf w =
     (case ParseInt (cf_price cf) of
        Ok priceInt \<Rightarrow>
          (let w' = (if cf_keys cf then w\<lparr>events := events w @ [Sent_transaction priceInt]\<rparr> else w)
           in map_option (\<lambda>(_, m). w'\<lparr>cw_Manager := m\<rparr>)
                (UpdateJobCost (cf_job cf) priceInt (cw_Manager w')))
      | _ \<Rightarrow> Some w)"

definition append_file :: "string \<Rightarrow> bytes \<Rightarrow> dir \<Rightarrow> dir" where
  "append_file name data d = d(name \<mapsto> (case d name of None \<Rightarrow> [] | Some old \<Rightarrow> old) @ data)"

fun wait_paused ::
    "client_cfg \<Rightarrow> job_op list list \<Rightarrow> client_world \<Rightarrow> (round_result \<times> client_world) option" where
  "wait_paused cf [] w = Some (Sleeping, w)"
| "wait_paused cf (ops # later) w =
     (case jobs_run ops (cw_Manager w) of
        None \<Rightarrow> None
      | Some m \<Rightarrow>
          (if GetJobStatus (cf_job cf) m \<noteq> ''paused'' then Some (Go_on, w\<lparr>cw_Manager := m\<rparr>)
           else wait_paused cf later (w\<lparr>cw_Manager := m\<rparr>)))"

definition check_status ::
    "client_cfg \<Rightarrow> client_round \<Rightarrow> client_world \<Rightarrow> (round_result \<times> client_world) option" where
  "check_status cf r w0 =
     (case jobs_run (before_check r) (cw_Manager w0) of
        None \<Rightarrow> None
      | Some m \<Rightarrow>
          (let w = w0\<lparr>cw_Manager := m\<rparr>
           in if cf_job cf = [] then Some (Go_on, w)
              else let status = GetJobStatus (cf_job cf) m
                   in if status = ''terminated'' then Some (Return_now (Ok ()), w)
                      else if status = ''paused'' then wait_paused cf (sleeps r) w
                      else Some (Go_on, w)))"

definition receive_chunk ::
    "client_cfg \<Rightarrow> client_round \<Rightarrow> FileChunk \<Rightarrow> client_world \<Rightarrow> (round_result \<times> client_world) option" where
  "receive_chunk cf r fc w =
     (case payment r of
        Ok _ \<Rightarrow>
          (case charge cf (w\<lparr>events := events w @ [Paid (cf_price cf) (cf_wallet cf)]\<rparr>) of
             None \<Rightarrow> None
           | Some w1 \<Rightarrow>
               (if \<not> chunk_written r then Some (Fatal ''log.Fatal'', w1)
                else let w2 = w1\<lparr>requested := append_file (fc_FileHash fc) (fc_Data fc) (requested w1)\<rparr>
                     in if fc_ChunkIndex fc = wrap64 (fc_MaxChunk fc - 1) then Some (Received_all, w2)
                        else check_status cf r w2))
      | e \<Rightarrow> fail_with cf e w)"

definition next_request :: "client_cfg \<Rightarrow> int \<Rightarrow> FileChunkRequest" where
  "next_request cf chunkIndex =
     \<lparr>rq_FileHash = cf_hash cf, rq_ChunkIndex = wrap64 (chunkIndex + 1), rq_JobId = cf_job cf\<rparr>"

definition get_round ::
    "json_codec \<Rightarrow> client_cfg \<Rightarrow> int \<Rightarrow> client_round \<Rightarrow> client_world \<Rightarrow> (round_result \<times> client_world) option" where
  "get_round json cf chunkIndex r w0 =
     (let msg = Marshal_req json (next_request cf chunkIndex)
      in if \<not> length_sent r then fail_with cf (Ok ()) w0
         else if \<not> request_sent r then fail_with cf (Ok ()) w0
         else let w = w0\<lparr>events := events w0 @ [Requested (put_frame msg)]\<rparr>
              in case read_answer json (answer r) of
                   Ok fc \<Rightarrow> receive_chunk cf r fc w
                 | Err e \<Rightarrow> fail_with cf (Err e) w
                 | Panic p \<Rightarrow> Some (Fatal p, w))"

datatype client_result = Returned "unit outcome" | Waiting | Exited string

fun get_loop ::
    "json_codec \<Rightarrow> client_cfg \<Rightarrow> int \<Rightarrow> client_round list \<Rightarrow> client_world \<Rightarrow> (client_result \<times> client_world) option" where
  "get_loop json cf chunkIndex [] w = Some (Waiting, w)"
| "get_loop json cf chunkIndex (r # rs) w =
     (case get_round json cf chunkIndex r w of
        None \<Rightarrow> None
      | Some (Go_on, w') \<Rightarrow> get_loop json cf (wrap64 (chunkIndex + 1)) rs w'
      | Some (Received_all, w') \<Rightarrow>
          map_option (\<lambda>w''. (Returned (Ok ()), w'')) (set_job_status cf ''finished'' w')
      | Some (Return_now res, w') \<Rightarrow> Some (Returned res, w')
      | Some (Sleeping, w') \<Rightarrow> Some (Waiting, w')
      | Some (Fatal e, w') \<Rightarrow> Some (Exited e, w'))"

text \<open>The four dialling steps come before the loop; each failure terminates the job.\<close>

record ('ma, 'peer) dial_env =
  dial_NewMultiaddr :: "string \<Rightarrow> 'ma outcome"
  AddrInfoFromP2pAddr :: "'ma \<Rightarrow> 'peer outcome"
  Connect :: "'peer \<Rightarrow> unit outcome"
  NewStream :: "'peer \<Rightarrow> string \<Rightarrow> unit outcome"

definition stream_protocol :: "string \<Rightarrow> string" where
  "stream_protocol h = ''orcanet-fileshare/1.0/'' @ h"

definition dial :: "('ma, 'peer) dial_env \<Rightarrow> string \<Rightarrow> string \<Rightarrow> unit outcome" where
  "dial env ip h =
     bind (dial_NewMultiaddr env ip) (\<lambda>ma.
     bind (AddrInfoFromP2pAddr env ma) (\<lambda>peer.
     bind (Connect env peer) (\<lambda>_. NewStream env peer (stream_protocol h))))"

definition GetFileOnce ::
    "json_codec \<Rightarrow> ('ma, 'peer) dial_env \<Rightarrow> client_cfg \<Rightarrow> string \<Rightarrow> client_round list \<Rightarrow> client_world \<Rightarrow>
     (client_result \<times> client_world) option" where
  "GetFileOnce json env cf ip rs w =
     (case dial env ip (cf_hash cf) of
        Ok _ \<Rightarrow> get_loop json cf (- 1) rs w
      | Err e \<Rightarrow> map_option (\<lambda>w'. (Returned (Err e), w')) (set_job_status cf ''terminated'' w)
      | Panic p \<Rightarrow> Some (Exited p, w))"

section \<open>The wire format\<close>

definition wire_req :: "json_codec \<Rightarrow> FileChunkRequest \<Rightarrow> bool" where
  "wire_req json q \<longleftrightarrow>
     Unmarshal_req json (Marshal_req json q) = Ok q \<and> length (Marshal_req json q) < 2 ^ 32"

definition wire_chunk :: "json_codec \<Rightarrow> FileChunk \<Rightarrow> bool" where
  "wire_chunk json c \<longleftrightarrow>
     Unmarshal_chunk json (Marshal_chunk json c) = Ok c \<and> length (Marshal_chunk json c) < 2 ^ 32"

definition chunk_msg :: "client_cfg \<Rightarrow> bytes list \<Rightarrow> nat \<Rightarrow> FileChunk" where
  "chunk_msg cf data i =
     \<lparr>fc_FileHash = cf_hash cf, fc_ChunkIndex = int i, fc_MaxChunk = int (length data),
      fc_JobId = cf_job cf, fc_Data = data ! i\<rparr>"

lemma put_frame_parts:
  assumes "length payload < 2 ^ 32"
  shows "length (put_frame payload) = 4 + length payload" and "drop 4 (put_frame payload) = payload"
    and "frame_length (put_frame payload) = length payload"
  using assms by (simp_all add: put_frame_def frame_length_def le_value_le_bytes)

lemma read_answer_frame:
  "wire_chunk json c \<Longrightarrow> read_answer json (put_frame (Marshal_chunk json c)) = Ok c"
  by (simp add: wire_chunk_def read_answer_def put_frame_parts)

lemma serve_request_frame:
  assumes "wire_req json q"
  shows "serve_request json infos stored (put_frame (Marshal_req json q)) =
    (let hashes = (case infos (rq_FileHash q) of Some fi \<Rightarrow> fi_ChunkHashes fi | None \<Rightarrow> [])
     in if rq_ChunkIndex q < 0 \<or> int (length hashes) \<le> rq_ChunkIndex q then Panic ''index out of range''
        else case stored (hashes ! nat (rq_ChunkIndex q)) of
               None \<Rightarrow> Err ''no such file or directory''
             | Some data \<Rightarrow>
                 Ok (put_frame (Marshal_chunk json
                   \<lparr>fc_FileHash = rq_FileHash q, fc_ChunkIndex = rq_ChunkIndex q,
                    fc_MaxChunk = int (length hashes), fc_JobId = rq_JobId q, fc_Data = data\<rparr>)))"
  using assms
  by (auto simp: wire_req_def serve_request_def put_frame_parts Let_def bind_def empty_FileInfo_def
      split: option.splits)

text \<open>The chunks of a file as the server holds them.\<close>

definition server_holds ::
    "(string \<Rightarrow> FileInfo option) \<Rightarrow> dir \<Rightarrow> string \<Rightarrow> bytes list \<Rightarrow> bool" where
  "server_holds infos stored h data \<longleftrightarrow>
     (\<exists>fi. infos h = Some fi \<and> length (fi_ChunkHashes fi) = length data \<and>
        (\<forall>i<length data. stored (fi_ChunkHashes fi ! i) = Some (data ! i)))"

text \<open>A round in which nothing fails and the peer answers the client's request with its reply.\<close>

definition good_round ::
    "json_codec \<Rightarrow> (string \<Rightarrow> FileInfo option) \<Rightarrow> dir \<Rightarrow> client_cfg \<Rightarrow> nat \<Rightarrow> client_round \<Rightarrow> bool" where
  "good_round json infos stored cf i r \<longleftrightarrow>
     length_sent r \<and> request_sent r \<and> payment r = Ok () \<and> chunk_written r \<and>
     serve_request json infos stored (put_frame (Marshal_req json (next_request cf (int i - 1)))) = Ok (answer r)"

definition wire_ok :: "json_codec \<Rightarrow> client_cfg \<Rightarrow> bytes list \<Rightarrow> bool" where
  "wire_ok json cf data \<longleftrightarrow>
     (\<forall>i<length data. wire_req json (next_request cf (int i - 1)) \<and> wire_chunk json (chunk_msg cf data i))"

lemma next_request_index:
  "i < 2 ^ 63 \<Longrightarrow> next_request cf (int i - 1) =
     \<lparr>rq_FileHash = cf_hash cf, rq_ChunkIndex = int i, rq_JobId = cf_job cf\<rparr>"
  by (simp add: next_request_def)

lemma good_round_answer:
  assumes "good_round json infos stored cf i r" and "server_holds infos stored (cf_hash cf) data"
    and "wire_ok json cf data" and "i < length data" and "length data < 2 ^ 63"
  shows "read_answer json (answer r) = Ok (chunk_msg cf data i)"
proof -
  have "wire_req json (next_request cf (int i - 1))" and c: "wire_chunk json (chunk_msg cf data i)"
    using assms(3,4) by (simp_all add: wire_ok_def)
  from serve_request_frame [OF this(1), of infos stored] assms(2,4,5)
  have "serve_request json infos stored (put_frame (Marshal_req json (next_request cf (int i - 1)))) =
      Ok (put_frame (Marshal_chunk json (chunk_msg cf data i)))"
    by (auto simp: server_holds_def next_request_index chunk_msg_def)
  with assms(1) have "answer r = put_frame (Marshal_chunk json (chunk_msg cf data i))"
    by (simp add: good_round_def)
  then show ?thesis
    by (simp add: read_answer_frame [OF c])
qed

section \<open>Job operations of other goroutines\<close>

fun quiet :: "string \<Rightarrow> job_op \<Rightarrow> bool" where
  "quiet k (Add _) = False"
| "quiet k (Remove j) = (j \<noteq> k)"
| "quiet k Clear = True"
| "quiet k (Terminate j) = (j \<noteq> k)"
| "quiet k (Pause j) = (j \<noteq> k)"
| "quiet k (Start j) = (j \<noteq> k)"
| "quiet k (Update_status j _) = (j \<noteq> k)"
| "quiet k (Update_cost j _) = (j \<noteq> k)"

lemma quiet_spec:
  "quiet k p \<Longrightarrow> t k = Some j \<Longrightarrow> Status j \<noteq> ''completed'' \<Longrightarrow> spec_step p t k = Some j"
  by (cases p) auto

lemma quiet_fresh: "list_all (quiet k) ps \<Longrightarrow> fresh_ids ps used"
proof (induction ps)
  case (Cons p ps)
  then show ?case by (cases p) auto
qed simp

lemma quiet_fold:
  "list_all (quiet k) ps \<Longrightarrow> t k = Some j \<Longrightarrow> Status j \<noteq> ''completed'' \<Longrightarrow> fold spec_step ps t k = Some j"
  by (induction ps arbitrary: t) (auto simp: quiet_spec)

lemma quiet_run:
  assumes "jobs_inv m" and "list_all (quiet k) ps" and "jobs_abs m k = Some j" and "Status j \<noteq> ''completed''"
  shows "\<exists>m'. jobs_run ps m = Some m' \<and> jobs_inv m' \<and> jobs_abs m' k = Some j"
  using jobs_run_refines_used [OF assms(1) quiet_fresh [OF assms(2)] subset_refl] quiet_fold [where t = "jobs_abs m", OF assms(2-4)]
  by fastforce

lemma GetJobStatus_abs: "jobs_abs m k = Some j \<Longrightarrow> GetJobStatus k m = Status j"
  by (simp add: GetJobStatus_def jobs_abs_def assoc_def)

section \<open>Rounds of the client\<close>

definition paid :: "client_world \<Rightarrow> nat" where
  "paid w = length (filter (\<lambda>e. case e of Paid _ _ \<Rightarrow> True | _ \<Rightarrow> False) (events w))"

text \<open>
  What holds of the world \<open>w\<close> after \<open>k\<close> received chunks, relative to the world \<open>w0\<close> at the start
  and the job \<open>job\<close> it had there, for the price \<open>p\<close>.
\<close>

definition received ::
    "client_cfg \<Rightarrow> int \<Rightarrow> Job \<Rightarrow> bytes list \<Rightarrow> client_world \<Rightarrow> nat \<Rightarrow> client_world \<Rightarrow> bool" where
  "received cf p job data w0 k w \<longleftrightarrow>
     jobs_inv (cw_Manager w) \<and>
     jobs_abs (cw_Manager w) (cf_job cf) =
       Some (job\<lparr>AccumulatedCost := wrap64 (AccumulatedCost job + int k * p)\<rparr>) \<and>
     requested w = (if k = 0 then requested w0
                    else append_file (cf_hash cf) (concat (take k data)) (requested w0)) \<and>
     paid w = paid w0 + k"

lemma append_file_twice: "append_file h b (append_file h a d) = append_file h (a @ b) d"
  by (auto simp: append_file_def split: option.splits)

lemma append_file_next:
  assumes "k < length data"
  shows "append_file h (data ! k) (if k = 0 then d else append_file h (concat (take k data)) d) =
    append_file h (concat (take (Suc k) data)) d"
  using assms by (simp add: take_Suc_conv_app_nth append_file_twice)

lemma charge_run:
  assumes "jobs_inv (cw_Manager w)" and "ParseInt (cf_price cf) = Ok p"
  shows "\<exists>w'. charge cf w = Some w' \<and> cw_Manager w' = job_modify (Add_cost p) (cf_job cf) (cw_Manager w) \<and>
    requested w' = requested w \<and> paid w' = paid w"
proof -
  have "\<not> Mutex (cw_Manager w)"
    using assms(1) by (simp add: jobs_inv_def)
  from update_step_eta(2) [OF this, of "cf_job cf" p] obtain u where
    "UpdateJobCost (cf_job cf) p (cw_Manager w) = Some (u, job_modify (Add_cost p) (cf_job cf) (cw_Manager w))"
    by auto
  with assms(2) show ?thesis
    by (auto simp: charge_def Let_def paid_def)
qed

lemma set_job_status_run:
  assumes "jobs_inv (cw_Manager w)"
  shows "\<exists>w'. set_job_status cf st w = Some w' \<and>
    cw_Manager w' = job_modify (Set_status st) (cf_job cf) (cw_Manager w) \<and>
    requested w' = requested w \<and> events w' = events w"
proof -
  have "\<not> Mutex (cw_Manager w)"
    using assms by (simp add: jobs_inv_def)
  from update_step_eta(1) [OF this, of "cf_job cf" st] show ?thesis
    by (auto simp: set_job_status_def)
qed

text \<open>Every good round pays, charges the job and appends the chunk, then checks the status.\<close>

lemma get_round_good:
  assumes "good_round json infos stored cf k r" and "server_holds infos stored (cf_hash cf) data"
    and "wire_ok json cf data" and "k < length data" and "length data < 2 ^ 63"
    and "ParseInt (cf_price cf) = Ok p" and "received cf p job data w0 k w"
  shows "\<exists>w'. received cf p job data w0 (Suc k) w' \<and>
    get_round json cf (int k - 1) r w =
      (if Suc k = length data then Some (Received_all, w') else check_status cf r w')"
proof -
  let ?w1 = "w\<lparr>events := events w @ [Requested (put_frame (Marshal_req json (next_request cf (int k - 1)))),
               Paid (cf_price cf) (cf_wallet cf)]\<rparr>"
  have inv: "jobs_inv (cw_Manager ?w1)"
    using assms(7) by (simp add: received_def)
  obtain w2 where w2: "charge cf ?w1 = Some w2" "requested w2 = requested w" "paid w2 = Suc (paid w)"
    "cw_Manager w2 = job_modify (Add_cost p) (cf_job cf) (cw_Manager w)"
    using charge_run [OF inv assms(6)] by (auto simp: paid_def)
  let ?w3 = "w2\<lparr>requested := append_file (cf_hash cf) (data ! k) (requested w2)\<rparr>"
  have "jobs_inv (cw_Manager ?w3) \<and> jobs_abs (cw_Manager ?w3) (cf_job cf) =
      Some (job\<lparr>AccumulatedCost := wrap64 (AccumulatedCost job + int (Suc k) * p)\<rparr>)"
    using inv assms(7) w2(4)
    by (simp add: job_table.inv_modify job_table.abs_modify received_def wrap64_add wrap64_add_right algebra_simps)
  then have "received cf p job data w0 (Suc k) ?w3"
    using assms(4,7) w2(2,3) append_file_next [OF assms(4), of "cf_hash cf" "requested w0"]
    by (simp add: received_def paid_def)
  moreover have "int k = wrap64 (int (length data) - 1) \<longleftrightarrow> Suc k = length data"
    using assms(4,5) by simp linarith
  ultimately show ?thesis
    using good_round_answer [OF assms(1-5)] assms(1) w2(1)
    by (intro exI [of _ ?w3]) (simp add: get_round_def receive_chunk_def good_round_def chunk_msg_def Let_def)
qed

lemma check_status_quiet:
  assumes "received cf p job data w0 k w" and "list_all (quiet (cf_job cf)) (before_check r)"
    and "Status job \<notin> {''completed'', ''terminated'', ''paused''}"
  shows "\<exists>w'. received cf p job data w0 k w' \<and> check_status cf r w = Some (Go_on, w')"
proof -
  let ?j = "job\<lparr>AccumulatedCost := wrap64 (AccumulatedCost job + int k * p)\<rparr>"
  obtain m where m: "jobs_run (before_check r) (cw_Manager w) = Some m" "jobs_inv m"
      "jobs_abs m (cf_job cf) = Some ?j"
    using quiet_run [OF _ assms(2), of "cw_Manager w" ?j] assms(1,3) by (auto simp: received_def)
  with assms(1,3) have "received cf p job data w0 k (w\<lparr>cw_Manager := m\<rparr>)"
    by (simp add: received_def paid_def)
  with m assms(3) GetJobStatus_abs [OF m(3)] show ?thesis
    by (auto simp: check_status_def Let_def)
qed

lemma get_loop_good:
  assumes "server_holds infos stored (cf_hash cf) data"
    and "wire_ok json cf data" and "length data < 2 ^ 63" and "ParseInt (cf_price cf) = Ok p"
    and "Status job \<notin> {''completed'', ''terminated'', ''paused''}"
    and "n < length data"
    and "\<forall>i<n. good_round json infos stored cf (k + i) (rs ! i) \<and> list_all (quiet (cf_job cf)) (before_check (rs ! i))"
    and "k + n < length data" and "n \<le> length rs" and "received cf p job data w0 k w"
  shows "\<exists>w'. received cf p job data w0 (k + n) w' \<and>
    get_loop json cf (int k - 1) rs w = get_loop json cf (int (k + n) - 1) (drop n rs) w'"
  using assms(6-)
proof (induction n arbitrary: k rs w)
  case (Suc n)
  obtain r rs' where rs: "rs = r # rs'"
    using Suc.prems(4) by (cases rs) simp_all
  have r: "good_round json infos stored cf k r" and q: "list_all (quiet (cf_job cf)) (before_check r)"
    using Suc.prems(2) rs by (auto dest: spec [of _ 0])
  have rest: "\<forall>i<n. good_round json infos stored cf (Suc k + i) (rs' ! i) \<and>
      list_all (quiet (cf_job cf)) (before_check (rs' ! i))"
    using Suc.prems(2) rs by (auto dest: spec [of _ "Suc _"])
  have k: "k < length data" "Suc k \<noteq> length data"
    using Suc.prems(3) by simp_all
  from get_round_good [OF r assms(1,2) k(1) assms(3,4) Suc.prems(5)] k(2) obtain w1 where
    "received cf p job data w0 (Suc k) w1" "get_round json cf (int k - 1) r w = check_status cf r w1"
    by auto
  moreover from check_status_quiet [OF this(1) q assms(5)] obtain w2 where
    w2: "received cf p job data w0 (Suc k) w2" "check_status cf r w1 = Some (Go_on, w2)"
    by auto
  moreover have "wrap64 (int k - 1 + 1) = int (Suc k) - 1"
    using k(1) assms(3) by simp
  ultimately show ?case
    using Suc.IH [OF _ rest _ _ w2(1)] Suc.prems rs by simp
qed auto

lemma good_rounds_shift:
  assumes "\<forall>i<n. good_round json infos stored cf i (rs ! i) \<and> list_all (quiet (cf_job cf)) (before_check (rs ! i))"
  shows "\<forall>i<n. good_round json infos stored cf (0 + i) (rs ! i) \<and> list_all (quiet (cf_job cf)) (before_check (rs ! i))"
  using assms by simp

lemma download_run:
  assumes "dial env ip (cf_hash cf) = Ok ()"
    and "server_holds infos stored (cf_hash cf) data" and "data \<noteq> []" and "length data < 2 ^ 63"
    and "wire_ok json cf data"
    and "length rs = length data"
    and "\<forall>i<length data. good_round json infos stored cf i (rs ! i) \<and>
           list_all (quiet (cf_job cf)) (before_check (rs ! i))"
    and "jobs_inv (cw_Manager w)" and "jobs_abs (cw_Manager w) (cf_job cf) = Some job"
    and "Status job \<notin> {''completed'', ''terminated'', ''paused''}"
    and "- (2 ^ 63) \<le> AccumulatedCost job" and "AccumulatedCost job < 2 ^ 63"
    and "cf_price cf = show_int p" and "- (2 ^ 63) \<le> p" and "p < 2 ^ 63"
  shows "\<exists>w'. GetFileOnce json env cf ip rs w = Some (Returned (Ok ()), w') \<and>
    requested w' = append_file (cf_hash cf) (concat data) (requested w) \<and>
    paid w' = paid w + length data \<and> jobs_inv (cw_Manager w') \<and>
    jobs_abs (cw_Manager w') (cf_job cf) =
      Some (job\<lparr>Status := ''finished'',
                AccumulatedCost := wrap64 (AccumulatedCost job + int (length data) * p)\<rparr>)"
proof -
  define n where "n = length data - 1"
  have n: "n < length data" "Suc n = length data" "n \<le> length rs"
    using assms(3,6) by (cases data; simp add: n_def)+
  have price: "ParseInt (cf_price cf) = Ok p"
    using assms(13-15) by (simp add: ParseInt_show_int)
  have start: "received cf p job data w 0 w"
    using assms(8,9,11,12) by (simp add: received_def)
  obtain w1 where w1: "received cf p job data w n w1"
      "get_loop json cf (- 1) rs w = get_loop json cf (int n - 1) (drop n rs) w1"
    using get_loop_good [OF assms(2,5,4) price assms(10) n(1) _ _ n(3) start]
      good_rounds_shift [of n json infos stored cf rs] assms(7) n(1) by auto
  have "good_round json infos stored cf n (rs ! n)"
    using assms(7) n(1) by blast
  from get_round_good [OF this assms(2,5) n(1) assms(4) price w1(1)] obtain w2 where
    w2: "received cf p job data w (length data) w2" "get_round json cf (int n - 1) (rs ! n) w1 = Some (Received_all, w2)"
    using n(2) by auto
  obtain w3 where "set_job_status cf ''finished'' w2 = Some w3"
      "cw_Manager w3 = job_modify (Set_status ''finished'') (cf_job cf) (cw_Manager w2)"
      "requested w3 = requested w2" "events w3 = events w2"
    using set_job_status_run [of w2 cf "''finished''"] w2(1) by (auto simp: received_def)
  moreover have "drop n rs = rs ! n # drop (Suc n) rs"
    using n assms(6) by (intro Cons_nth_drop_Suc [symmetric]) simp
  ultimately show ?thesis
    using w1(2) w2 assms(1,3)
    by (auto simp: GetFileOnce_def received_def paid_def job_table.abs_modify job_table.inv_modify)
qed

text \<open>
  C8: A complete download.  The server holds the chunks of the file; every round of the client
  succeeds and is answered by the server; other goroutines may work on other jobs and clear the
  history meanwhile; the job exists and is neither paused, terminated nor completed; the price is
  the printed form of a 64-bit integer.  Then the client returns without error after exactly one
  round per chunk: the requested file has grown by exactly the stored chunks in order, the client
  has paid once per chunk, the job has status "finished" and its cost has grown by the price per
  chunk.
\<close>

theorem download_complete:
  assumes "dial env ip (cf_hash cf) = Ok ()"
    and "server_holds infos stored (cf_hash cf) data" and "data \<noteq> []" and "length data < 2 ^ 63"
    and "wire_ok json cf data"
    and "length rs = length data"
    and "\<forall>i<length data. good_round json infos stored cf i (rs ! i) \<and>
           list_all (quiet (cf_job cf)) (before_check (rs ! i))"
    and "jobs_inv (cw_Manager w)" and "jobs_abs (cw_Manager w) (cf_job cf) = Some job"
    and "Status job \<notin> {''completed'', ''terminated'', ''paused''}"
    and "- (2 ^ 63) \<le> AccumulatedCost job" and "AccumulatedCost job < 2 ^ 63"
    and "cf_price cf = show_int p" and "- (2 ^ 63) \<le> p" and "p < 2 ^ 63"
  shows "\<exists>w'. GetFileOnce json env cf ip rs w = Some (Returned (Ok ()), w') \<and>
    requested w' = append_file (cf_hash cf) (concat data) (requested w) \<and>
    paid w' = paid w + length data \<and> jobs_inv (cw_Manager w') \<and>
    jobs_abs (cw_Manager w') (cf_job cf) =
      Some (job\<lparr>Status := ''finished'',
                AccumulatedCost := wrap64 (AccumulatedCost job + int (length data) * p)\<rparr>)"
  by (rule download_run [OF assms])

text \<open>
  C9: Terminating a running download.  After \<open>n\<close> complete rounds, another goroutine terminates
  the job while round \<open>n\<close> (not the last one) is under way.  The client returns without error at
  the end of that round, whatever would follow: it has paid for exactly \<open>n + 1\<close> chunks, those
  chunks are on disk, and the job stays terminated.
\<close>

theorem terminate_stops_download:
  assumes "dial env ip (cf_hash cf) = Ok ()"
    and "server_holds infos stored (cf_hash cf) data" and "length data < 2 ^ 63"
    and "wire_ok json cf data" and "Suc n < length data" and "n < length rs"
    and "\<forall>i<n. good_round json infos stored cf i (rs ! i) \<and> list_all (quiet (cf_job cf)) (before_check (rs ! i))"
    and "good_round json infos stored cf n (rs ! n)" and "before_check (rs ! n) = [Terminate (cf_job cf)]"
    and "cf_job cf \<noteq> []"
    and "jobs_inv (cw_Manager w)" and "jobs_abs (cw_Manager w) (cf_job cf) = Some job"
    and "Status job \<notin> {''completed'', ''terminated'', ''paused''}"
    and "- (2 ^ 63) \<le> AccumulatedCost job" and "AccumulatedCost job < 2 ^ 63"
    and "cf_price cf = show_int p" and "- (2 ^ 63) \<le> p" and "p < 2 ^ 63"
  shows "\<exists>w'. GetFileOnce json env cf ip rs w = Some (Returned (Ok ()), w') \<and>
    requested w' = append_file (cf_hash cf) (concat (take (Suc n) data)) (requested w) \<and>
    paid w' = paid w + Suc n \<and>
    GetJobStatus (cf_job cf) (cw_Manager w') = ''terminated''"
proof -
  have n: "n < length data" "n \<le> length rs"
    using assms(5,6) by simp_all
  have price: "ParseInt (cf_price cf) = Ok p"
    using assms(16-18) by (simp add: ParseInt_show_int)
  have start: "received cf p job data w 0 w"
    using assms(11,12,14,15) by (simp add: received_def)
  obtain w1 where w1: "received cf p job data w n w1"
      "get_loop json cf (- 1) rs w = get_loop json cf (int n - 1) (drop n rs) w1"
    using get_loop_good [OF assms(2,4,3) price assms(13) n(1) _ _ n(2) start]
      good_rounds_shift [OF assms(7)] n(1) by auto
  from get_round_good [OF assms(8,2,4) n(1) assms(3) price w1(1)] obtain w2 where
    w2: "received cf p job data w (Suc n) w2" "get_round json cf (int n - 1) (rs ! n) w1 = check_status cf (rs ! n) w2"
    using assms(5) by auto
  let ?m = "job_modify (Set_status ''terminated'') (cf_job cf) (cw_Manager w2)"
  have "jobs_run [Terminate (cf_job cf)] (cw_Manager w2) = Some ?m"
    using w2(1) job_step_modify [of "cw_Manager w2" "Terminate (cf_job cf)"]
    by (auto simp: received_def jobs_inv_def)
  moreover have "GetJobStatus (cf_job cf) ?m = ''terminated''"
    using w2(1) GetJobStatus_abs [of ?m "cf_job cf"] by (simp add: received_def job_table.abs_modify)
  ultimately have "check_status cf (rs ! n) w2 = Some (Return_now (Ok ()), w2\<lparr>cw_Manager := ?m\<rparr>)"
    using assms(9,10) by (simp add: check_status_def Let_def)
  moreover have "drop n rs = rs ! n # drop (Suc n) rs"
    using assms(6) by (simp add: Cons_nth_drop_Suc)
  ultimately show ?thesis
    using w1(2) w2 assms(1) \<open>GetJobStatus (cf_job cf) ?m = ''terminated''\<close>
    by (simp add: GetFileOnce_def received_def paid_def)
qed

text \<open>
  A request out of range.  A well-formed request for an unknown file, or for a negative chunk
  index or one past the last chunk, is not refused: the server process panics.
\<close>

theorem bad_request_panics:
  assumes "wire_req json q"
    and "infos (rq_FileHash q) = None \<or> rq_ChunkIndex q < 0 \<or>
         (\<exists>fi. infos (rq_FileHash q) = Some fi \<and> int (length (fi_ChunkHashes fi)) \<le> rq_ChunkIndex q)"
  shows "HandleStoredFileStream json infos stored (put_frame (Marshal_req json q) # more_rx) out =
    (out, Panic ''index out of range'')"
  using assms(2) by (auto simp: serve_request_frame [OF assms(1)] split: option.splits)

section \<open>A sample transfer\<close>

definition sample_json :: "string \<Rightarrow> json_codec" where
  "sample_json h =
     \<lparr>Marshal_req = (\<lambda>q. [of_int (rq_ChunkIndex q)]),
      Unmarshal_req = (\<lambda>b. Ok \<lparr>rq_FileHash = h, rq_ChunkIndex = uint (hd b), rq_JobId = ''j''\<rparr>),
      Marshal_chunk = (\<lambda>c. of_int (fc_ChunkIndex c) # of_int (fc_MaxChunk c) # fc_Data c),
      Unmarshal_chunk = (\<lambda>b. Ok \<lparr>fc_FileHash = h, fc_ChunkIndex = uint (hd b),
        fc_MaxChunk = uint (hd (tl b)), fc_JobId = ''j'', fc_Data = drop 2 b\<rparr>)\<rparr>"

definition sample_cfg :: "string \<Rightarrow> client_cfg" where
  "sample_cfg h = \<lparr>cf_hash = h, cf_wallet = ''w'', cf_price = show_int 5, cf_job = ''j'', cf_keys = False\<rparr>"

definition sample_infos :: "string \<Rightarrow> FileInfo option" where
  "sample_infos = [''h'' \<mapsto> \<lparr>fi_FileHash = [], fi_FileSize = 3, fi_ChunkHashes = [''a'', ''b''], fi_FileName = ''f''\<rparr>]"

definition sample_stored :: dir where
  "sample_stored = [''a'' \<mapsto> [1, 2], ''b'' \<mapsto> [3]]"

definition sample_round :: "bytes \<Rightarrow> job_op list \<Rightarrow> client_round" where
  "sample_round rx ops = \<lparr>length_sent = True, request_sent = True, answer = rx, payment = Ok (),
     chunk_written = True, before_check = ops, sleeps = []\<rparr>"

definition sample_dial :: "(unit, unit) dial_env" where
  "sample_dial = \<lparr>dial_NewMultiaddr = (\<lambda>_. Ok ()), AddrInfoFromP2pAddr = (\<lambda>_. Ok ()),
     Connect = (\<lambda>_. Ok ()), NewStream = (\<lambda>_ _. Ok ())\<rparr>"

definition sample_client :: client_world where
  "sample_client = \<lparr>cw_Manager = empty_manager\<lparr>Jobs := [sample_job ''j'' ''active'']\<rparr>,
     requested = Map.empty, events = []\<rparr>"

definition sample_rounds :: "job_op list \<Rightarrow> client_round list" where
  "sample_rounds ops = [sample_round [4, 0, 0, 0, 0, 2, 1, 2] ops, sample_round [3, 0, 0, 0, 1, 2, 3] []]"

lemma sample_transfer_ok:
  "dial sample_dial ''ip'' ''h'' = Ok ()"
  "cf_hash (sample_cfg ''h'') = ''h''" "cf_job (sample_cfg ''h'') = ''j''" "cf_price (sample_cfg ''h'') = show_int 5"
  "server_holds sample_infos sample_stored ''h'' [[1, 2], [3]]"
  "wire_ok (sample_json ''h'') (sample_cfg ''h'') [[1, 2], [3]]"
  by (simp_all add: dial_def sample_dial_def bind_def sample_cfg_def server_holds_def sample_infos_def
      sample_stored_def less_Suc_eq wire_ok_def wire_req_def wire_chunk_def next_request_def
      sample_json_def chunk_msg_def)

lemma small_frame: "length payload < 256 \<Longrightarrow> put_frame payload = of_nat (length payload) # 0 # 0 # 0 # payload"
  by (simp add: put_frame_def le_bytes_map upt_rec)

lemma sample_round_good:
  "good_round (sample_json ''h'') sample_infos sample_stored (sample_cfg ''h'') 0 (sample_rounds ops ! 0)"
  "good_round (sample_json ''h'') sample_infos sample_stored (sample_cfg ''h'') (Suc 0) (sample_rounds ops ! Suc 0)"
  by (simp_all add: good_round_def sample_rounds_def sample_round_def small_frame serve_request_def
      frame_length_def sample_json_def bind_def sample_infos_def sample_stored_def next_request_def
      sample_cfg_def Let_def)

lemma sample_job_active:
  "jobs_inv (cw_Manager sample_client)"
  "jobs_abs (cw_Manager sample_client) ''j'' = Some (sample_job ''j'' ''active'')"
  "Status (sample_job ''j'' ''active'') = ''active''" "AccumulatedCost (sample_job ''j'' ''active'') = 0"
  by (simp_all add: sample_client_def jobs_inv_def empty_manager_def jobs_abs_def assoc_def sample_job_def)

theorem download_complete_witness:
  "\<exists>w'. GetFileOnce (sample_json ''h'') sample_dial (sample_cfg ''h'') ''ip'' (sample_rounds [Clear]) sample_client =
      Some (Returned (Ok ()), w') \<and> requested w' ''h'' = Some [1, 2, 3] \<and> paid w' = 2"
  using download_complete [of sample_dial "''ip''" "sample_cfg ''h''" sample_infos sample_stored "[[1, 2], [3]]"
      "sample_json ''h''" "sample_rounds [Clear]" sample_client "sample_job ''j'' ''active''" 5]
    sample_transfer_ok sample_round_good [of "[Clear]"] sample_job_active
  by (auto simp: less_Suc_eq sample_rounds_def sample_round_def append_file_def sample_client_def paid_def)

theorem terminate_stops_download_witness:
  "\<exists>w'. GetFileOnce (sample_json ''h'') sample_dial (sample_cfg ''h'') ''ip'' (sample_rounds [Terminate ''j'']) sample_client =
      Some (Returned (Ok ()), w') \<and> requested w' ''h'' = Some [1, 2] \<and> paid w' = 1"
  using terminate_stops_download [of sample_dial "''ip''" "sample_cfg ''h''" sample_infos sample_stored "[[1, 2], [3]]"
      "sample_json ''h''" 0 "sample_rounds [Terminate ''j'']" sample_client "sample_job ''j'' ''active''" 5]
    sample_transfer_ok sample_round_good [of "[Terminate ''j'']"] sample_job_active
  by (auto simp: sample_rounds_def sample_round_def append_file_def sample_client_def paid_def)

theorem bad_request_panics_witness:
  "HandleStoredFileStream (sample_json ''h'') sample_infos sample_stored [[1, 0, 0, 0, 2]] [] =
    ([], Panic ''index out of range'')"
proof -
  let ?q = "\<lparr>rq_FileHash = ''h'', rq_ChunkIndex = 2, rq_JobId = ''j''\<rparr>"
  have "put_frame (Marshal_req (sample_json ''h'') ?q) = [1, 0, 0, 0, 2]" and "wire_req (sample_json ''h'') ?q"
    by (simp_all add: sample_json_def wire_req_def small_frame)
  then show ?thesis
    using bad_request_panics [of "sample_json ''h''" ?q sample_infos sample_stored "[]" "[]"]
    by (simp add: sample_infos_def del: HandleStoredFileStream.simps)
qed

end
