(* ===== verification/File_Share.thy ===== *)
theory File_Share
  imports File_Transfer Market
begin

text \<open>
  Offering a file: \<^verbatim>\<open>SetupRegisterFile\<close> of \<^verbatim>\<open>peer/internal/server/serverRPC.go\<close> chunks
  the file, enters it into the server's map of stored files, registers it on the market and
  installs the stream handler.  The lemmas put the chunk store, the server and the client of the
  transfer together: what a peer downloads of a file that was offered this way.
\<close>

record share_world =
  stored :: dir
  StoredFileInfoMap :: "string \<Rightarrow> FileInfo option"
  handlers :: "string set"

datatype stat_result = Is_file | Is_dir | Not_exist string | Stat_failed

definition SetupRegisterFile ::
    "'pk market_env \<Rightarrow> node_keys \<Rightarrow> u64 \<Rightarrow> (string \<Rightarrow> bytes outcome) \<Rightarrow> (string \<Rightarrow> bytes \<Rightarrow> unit outcome) \<Rightarrow>
     string \<Rightarrow> (bytes \<Rightarrow> bytes) \<Rightarrow> stat_result \<Rightarrow> string option \<Rightarrow> (bytes \<times> write_result) list \<Rightarrow> string option \<Rightarrow>
     string \<Rightarrow> int \<Rightarrow> int \<Rightarrow> share_world \<Rightarrow> unit outcome \<times> share_world" where
  "SetupRegisterFile env node now get put multiAddr sha st open_error reads at_end fileName amountPerMB port w =
     (case st of
        Not_exist e \<Rightarrow> (Err e, w)
      | Stat_failed \<Rightarrow> (Err ''File does not exist in files folder.'', w)
      | Is_dir \<Rightarrow> (Err ''Specified file is a directory.'', w)
      | Is_file \<Rightarrow>
          (case SaveChunkedFile sha open_error reads at_end fileName (stored w) of
             (Ok (fileKey, info), d) \<Rightarrow>
               (let w1 = w\<lparr>stored := d, StoredFileInfoMap := (StoredFileInfoMap w)(fileKey \<mapsto> info)\<rparr>;
                    user = \<lparr>Id = [], Name = [], Ip = multiAddr, Port = port, Price = amountPerMB\<rparr>
                in case RegisterFile env node now get put fileKey user of
                     Ok _ \<Rightarrow> (Ok (), w1\<lparr>handlers := insert (stream_protocol fileKey) (handlers w1)\<rparr>)
                   | Err e \<Rightarrow> (Err e, w1)
                   | Panic p \<Rightarrow> (Panic p, w1))
           | (Err e, d) \<Rightarrow> (Err e, w\<lparr>stored := d\<rparr>)
           | (Panic p, d) \<Rightarrow> (Panic p, w\<lparr>stored := d\<rparr>)))"

section \<open>What the server holds afterwards\<close>

definition chunked :: "bytes list \<Rightarrow> bool" where
  "chunked gots \<longleftrightarrow> gots \<noteq> [] \<and> proper_reads gots \<and> (\<forall>g\<in>set (butlast gots). length g = chunkSize)"

definition stored_data :: "(bytes \<Rightarrow> bytes) \<Rightarrow> dir \<Rightarrow> bytes list \<Rightarrow> bytes list" where
  "stored_data sha d gots = map (\<lambda>g. the (d (chunk_name sha g))) gots"

lemma concat_chunks:
  assumes "\<forall>g\<in>set gots. length (f g) = n \<and> take (length g) (f g) = g"
    and "\<forall>g\<in>set (butlast gots). length g = n"
  shows "take (length (concat gots)) (concat (map f gots)) = concat gots \<and>
    length (concat (map f gots)) = length gots * n"
  using assms
proof (induction gots)
  case (Cons g gs)
  show ?case
  proof (cases "gs = []")
    case False
    then have "f g = g"
      using Cons.prems by (auto dest!: bspec [of _ _ g])
    with Cons False show ?thesis
      by simp
  qed (use Cons.prems in simp)
qed simp

lemma stored_data_content:
  assumes "chunked gots" and "\<forall>g\<in>set gots. holds_chunk sha d g"
  shows "take (length (concat gots)) (concat (stored_data sha d gots)) = concat gots"
    and "length (concat (stored_data sha d gots)) = length gots * chunkSize"
proof -
  have "\<forall>g\<in>set gots. length (the (d (chunk_name sha g))) = chunkSize \<and>
      take (length g) (the (d (chunk_name sha g))) = g"
    using assms(2) by (auto simp: holds_chunk_def)
  from concat_chunks [OF this] assms(1)
  show "take (length (concat gots)) (concat (stored_data sha d gots)) = concat gots"
    and "length (concat (stored_data sha d gots)) = length gots * chunkSize"
    by (simp_all add: chunked_def stored_data_def)
qed

lemma server_holds_stored:
  assumes "infos k = Some fi" and "fi_ChunkHashes fi = map (chunk_name sha) gots"
    and "\<forall>g\<in>set gots. holds_chunk sha d g"
  shows "server_holds infos d k (stored_data sha d gots)"
proof -
  have "d (fi_ChunkHashes fi ! i) = Some (stored_data sha d gots ! i)" if "i < length gots" for i
    using assms(2,3) that nth_mem [OF that] by (fastforce simp: stored_data_def holds_chunk_def)
  then show ?thesis
    using assms(1,2) by (simp add: server_holds_def stored_data_def)
qed

definition offered_info :: "(bytes \<Rightarrow> bytes) \<Rightarrow> bytes list \<Rightarrow> string \<Rightarrow> FileInfo" where
  "offered_info sha gots name =
     \<lparr>fi_FileHash = string_of_bytes (sha []), fi_FileSize = int (length (concat gots)),
      fi_ChunkHashes = map (chunk_name sha) gots, fi_FileName = name\<rparr>"

abbreviation offered_key :: "(bytes \<Rightarrow> bytes) \<Rightarrow> bytes list \<Rightarrow> string \<Rightarrow> string" where
  "offered_key sha gots name \<equiv> file_key sha (offered_info sha gots name)"

lemma setup_run:
  assumes "proper_reads gots" and "length (concat gots) < 2 ^ 63" and "inj_on sha (set gots)"
    and "SetupRegisterFile env node now get put addr sha Is_file None (map (\<lambda>g. (g, Written)) gots) None
           name price port w = (Ok (), w')"
  shows "StoredFileInfoMap w' (offered_key sha gots name) = Some (offered_info sha gots name) \<and>
    stream_protocol (offered_key sha gots name) \<in> handlers w' \<and>
    (\<forall>g\<in>set gots. holds_chunk sha (stored w') g)"
proof -
  let ?d = "store_all sha (replicate chunkSize 0) gots (stored w)"
  obtain fi where "SaveChunkedFile sha None (map (\<lambda>g. (g, Written)) gots) None name (stored w) =
        (Ok (file_key sha fi, fi), ?d)"
      and fi: "fi_ChunkHashes fi = map (chunk_name sha) gots" "fi_FileSize fi = int (length (concat gots))"
        "fi_FileHash fi = string_of_bytes (sha [])" "fi_FileName fi = name"
    using save_chunked_run [OF assms(1,2), of sha name "stored w"] by blast
  moreover have "fi = offered_info sha gots name"
    using fi by (cases fi) (simp add: offered_info_def)
  moreover have "\<forall>g\<in>set gots. holds_chunk sha ?d g"
    by (rule store_all_holds_each [OF assms(1,3)])
  ultimately show ?thesis
    using assms(4) by (auto simp: SetupRegisterFile_def Let_def split: outcome.splits)
qed

lemma setup_server_holds:
  assumes "chunked gots" and "length (concat gots) < 2 ^ 63" and "inj_on sha (set gots)"
    and "SetupRegisterFile env node now get put addr sha Is_file None (map (\<lambda>g. (g, Written)) gots) None
           name price port w = (Ok (), w')"
  shows "server_holds (StoredFileInfoMap w') (stored w') (offered_key sha gots name) (stored_data sha (stored w') gots)"
    and "take (length (concat gots)) (concat (stored_data sha (stored w') gots)) = concat gots"
    and "length (concat (stored_data sha (stored w') gots)) = length gots * chunkSize"
proof -
  note run = setup_run [OF _ assms(2-4)]
  have "proper_reads gots"
    using assms(1) by (simp add: chunked_def)
  then have "StoredFileInfoMap w' (offered_key sha gots name) = Some (offered_info sha gots name)"
    and holds: "\<forall>g\<in>set gots. holds_chunk sha (stored w') g"
    using run by simp_all
  then show "server_holds (StoredFileInfoMap w') (stored w') (offered_key sha gots name) (stored_data sha (stored w') gots)"
    by (intro server_holds_stored [of _ _ "offered_info sha gots name"]) (simp_all add: offered_info_def)
  show "take (length (concat gots)) (concat (stored_data sha (stored w') gots)) = concat gots"
    and "length (concat (stored_data sha (stored w') gots)) = length gots * chunkSize"
    using stored_data_content [OF assms(1) holds] by simp_all
qed

end
