(* ===== verification/Script_Num.thy ===== *)
theory Script_Num
  imports Prelude
begin

unbundle bit_operations_syntax

text \<open>
  The numbers of the script language (\<^verbatim>\<open>coin/OrcaNet/txscript/scriptnum.go\<close>): minimal
  encoding, serialisation and parsing.  A script number is an \<^verbatim>\<open>int64\<close>, modelled as an
  integer whose operations wrap; the parser accumulates in a 64-bit word, as the code does.
\<close>

section \<open>The code\<close>

definition checkMinimalDataEncoding :: "bytes \<Rightarrow> unit outcome" where
  "checkMinimalDataEncoding v =
     (if v = [] then Ok ()
      else if last v AND 0x7f = 0 \<and> (length v = 1 \<or> v ! (length v - 2) AND 0x80 = 0)
      then Err ''ErrMinimalData'' else Ok ())"

text \<open>The loop that emits the bytes of the absolute value, least significant first.\<close>

function num_loop :: "int \<Rightarrow> bytes" where
  "num_loop n = (if n > 0 then of_int (n mod 256) # num_loop (n div 256) else [])"
  by pat_completeness auto
termination
  by (relation "measure nat") auto

declare num_loop.simps [simp del]

text \<open>
  \<^verbatim>\<open>Bytes\<close>.  Negating the smallest \<^verbatim>\<open>int64\<close> gives the same negative number, the loop
  emits nothing, and the access to the last byte panics.
\<close>

definition num_Bytes :: "int \<Rightarrow> bytes outcome" where
  "num_Bytes n0 =
     (if n0 = 0 then Ok []
      else let isNegative = n0 < 0;
               n = (if isNegative then wrap64 (- n0) else n0);
               result = num_loop n
           in if result = [] then Panic ''index out of range''
              else if last result AND 0x80 \<noteq> 0
              then Ok (result @ [if isNegative then 0x80 else 0])
              else if isNegative then Ok (butlast result @ [last result OR 0x80])
              else Ok result)"

definition maxInt32 :: int where "maxInt32 = 2 ^ 31 - 1"
definition minInt32 :: int where "minInt32 = - (2 ^ 31)"

definition num_Int32 :: "int \<Rightarrow> int" where
  "num_Int32 n = (if n > maxInt32 then maxInt32 else if n < minInt32 then minInt32 else n)"

fun decode_loop :: "bytes \<Rightarrow> nat \<Rightarrow> u64 \<Rightarrow> u64" where
  "decode_loop [] i result = result"
| "decode_loop (val # vs) i result =
     decode_loop vs (Suc i) (result OR push_bit ((8 * i) mod 256) (ucast val))"

definition MakeScriptNum :: "bytes \<Rightarrow> bool \<Rightarrow> nat \<Rightarrow> int outcome" where
  "MakeScriptNum v requireMinimal scriptNumLen =
     (if length v > scriptNumLen then Err ''ErrNumberTooBig''
      else bind (if requireMinimal then checkMinimalDataEncoding v else Ok ()) (\<lambda>_.
        if v = [] then Ok 0
        else let result = decode_loop v 0 0
             in if last v AND 0x80 \<noteq> 0
                then Ok (sint (- (result AND NOT (push_bit ((8 * (length v - 1)) mod 256) 0x80))))
                else Ok (sint result)))"

abbreviation maxScriptNumLen :: nat where "maxScriptNumLen \<equiv> 4"
abbreviation cltvMaxScriptNumLen :: nat where "cltvMaxScriptNumLen \<equiv> 5"

section \<open>The number a byte string denotes\<close>

definition script_value :: "bytes \<Rightarrow> int" where
  "script_value v =
     (if v = [] then 0
      else let m = int (le_value (butlast v)) + 256 ^ (length v - 1) * int (unat (last v) mod 128)
           in if 128 \<le> unat (last v) then - m else m)"

definition minimal :: "bytes \<Rightarrow> bool" where
  "minimal v \<longleftrightarrow> v = [] \<or> unat (last v) mod 128 \<noteq> 0 \<or> (length v \<noteq> 1 \<and> 128 \<le> unat (v ! (length v - 2)))"

lemma byte_and_7f: "unat (b AND 0x7f) = unat b mod 128" for b :: byte
proof -
  have "b AND 0x7f = take_bit 7 b"
    by (simp add: take_bit_eq_mask mask_eq_exp_minus_1)
  then show ?thesis
    by (simp add: take_bit_eq_mod unat_mod)
qed

lemma byte_and_80: "b AND 0x80 = 0 \<longleftrightarrow> unat b < 128" for b :: byte
proof -
  have "b AND 0x80 = 0 \<longleftrightarrow> \<not> bit b 7"
    using and_exp_eq_0_iff_not_bit [of b 7] by simp
  moreover have "bit b 7 \<longleftrightarrow> odd (unat b div 128)"
  proof -
    have "bit b 7 \<longleftrightarrow> bit (unat b) 7"
      by (simp add: bit_unsigned_iff)
    then show ?thesis
      by (simp add: bit_iff_odd)
  qed
  moreover have "unat b div 128 < 2"
    using unat_byte_less [of b] by simp
  ultimately show ?thesis
    by (auto simp: less_Suc_eq numeral_2_eq_2 div_eq_0_iff)
qed

lemma byte_high: "128 \<le> unat b \<Longrightarrow> unat b = 128 + unat b mod 128" for b :: byte
proof -
  assume "128 \<le> unat b"
  then have "unat b div 128 = 1"
    using unat_byte_less [of b] by (simp add: div_nat_eqI)
  then show ?thesis
    using div_mult_mod_eq [of "unat b" 128] by linarith
qed

lemma byte_or_80: "unat b < 128 \<Longrightarrow> unat (b OR 0x80) = unat b + 128" for b :: byte
proof -
  assume "unat b < 128"
  then have "b AND 0x80 = 0"
    by (simp add: byte_and_80)
  then have "b OR 0x80 = b + 0x80"
    using disjunctive_add [of b "0x80"] by (metis bit_and_iff bit_0_eq bot_apply bot_bool_def)
  then show ?thesis
    using \<open>unat b < 128\<close> by (simp add: unat_word_ariths)
qed

lemma checkMinimal_minimal: "checkMinimalDataEncoding v = (if minimal v then Ok () else Err ''ErrMinimalData'')"
proof -
  have "last v AND 0x7f = 0 \<longleftrightarrow> unat (last v) mod 128 = 0"
    using byte_and_7f [of "last v"] by (metis unsigned_0 unsigned_word_eqI)
  then show ?thesis
    by (auto simp: checkMinimalDataEncoding_def minimal_def byte_and_80 not_less)
qed

section \<open>Parsing\<close>

lemma decode_loop_value:
  assumes "i + length v \<le> 8" and "unat r < 256 ^ i"
  shows "unat (decode_loop v i r) = unat r + 256 ^ i * le_value v"
  using assms
proof (induction v arbitrary: i r)
  case (Cons b v)
  have i: "(8 * i) mod 256 = 8 * i"
    using Cons.prems(1) by simp
  have p: "(256 :: nat) ^ i = 2 ^ (8 * i)"
    by (simp add: power_mult)
  have u: "unat (r OR push_bit (8 * i) (ucast b)) = unat r + 256 ^ i * unat b"
  proof -
    have "unat b * 2 ^ (8 * i) < 2 ^ 8 * 2 ^ (8 * i)"
      using unat_byte_less [of b] by simp
    also have "\<dots> \<le> (2 ^ 64 :: nat)"
      unfolding power_add [symmetric] using Cons.prems(1) by (intro power_increasing) simp_all
    finally show ?thesis
      using Cons.prems(2) unat_push_OR [of r "8 * i" "ucast b"] p by (simp add: or.commute unat_ucast_byte)
  qed
  have "unat r + 256 ^ i * unat b < 256 ^ i * (1 + unat b)"
    using Cons.prems(2) by (simp add: algebra_simps)
  also have "\<dots> \<le> 256 ^ i * 256"
    using unat_byte_less [of b] by simp
  finally show ?case
    using Cons.IH [of "Suc i" "r OR push_bit (8 * i) (ucast b)"] Cons.prems(1) i u
    by (simp add: algebra_simps)
qed simp

lemma sint_small: "unat (x :: u64) < 2 ^ 63 \<Longrightarrow> sint x = int (unat x) \<and> sint (- x) = - int (unat x)"
proof -
  assume "unat x < 2 ^ 63"
  then have u: "uint x < 2 ^ 63"
    by (metis of_nat_less_iff of_nat_numeral of_nat_power uint_nat)
  have ge: "0 \<le> uint x"
    by simp
  have "signed_take_bit 63 (uint x) = uint x" and "signed_take_bit 63 (- uint x) = - uint x"
    by (rule signed_take_bit_int_eq_self; use u ge in linarith)+
  moreover from this(1) have "sint x = uint x"
    by (simp add: sint_uint)
  ultimately show ?thesis
    by (simp add: sint_word_ariths)
qed

lemma clear_sign_bit:
  assumes "k + 7 < 64" and "bit (r :: u64) (k + 7)"
  shows "unat (r AND NOT (push_bit k 0x80)) = unat r - 2 ^ (k + 7)"
proof -
  have "push_bit k (0x80 :: u64) = push_bit (k + 7) 1"
    by (simp add: push_bit_eq_mult power_add)
  then have "r AND NOT (push_bit k 0x80) = unset_bit (k + 7) r"
    by (simp add: unset_bit_eq_and_not)
  also have "\<dots> = r - 2 ^ (k + 7)"
    using assms(2) by (simp add: unset_bit_eq)
  finally have eq: "r AND NOT (push_bit k 0x80) = r - 2 ^ (k + 7)" .
  have p: "unat (2 ^ (k + 7) :: u64) = 2 ^ (k + 7)"
  proof -
    have "(2 :: nat) ^ (k + 7) < 2 ^ LENGTH(64)"
      using assms(1) by (intro power_strict_increasing) simp_all
    then have "unat (of_nat (2 ^ (k + 7)) :: u64) = 2 ^ (k + 7)"
      by (simp only: unsigned_of_nat take_bit_nat_eq_self of_nat_id)
    then show ?thesis
      by simp
  qed
  have "bit (unat r) (k + 7)"
    using assms by (simp add: bit_unsigned_iff)
  then have "2 ^ (k + 7) \<le> unat r"
    by (metis bit_iff_odd div_less dvd_0_right not_le)
  then show ?thesis
    using eq p unat_sub [of "2 ^ (k + 7)" r] by (simp add: word_le_nat_alt)
qed

lemma le_value_last: "v \<noteq> [] \<Longrightarrow> le_value v = le_value (butlast v) + 256 ^ (length v - 1) * unat (last v)"
  using le_value_append [of "butlast v" "[last v]"] by simp

lemma low_part_less:
  assumes "v \<noteq> []"
  shows "le_value (butlast v) + 256 ^ (length v - 1) * (unat (last v) mod 128) < 128 * 256 ^ (length v - 1)"
proof -
  have "le_value (butlast v) < 256 ^ (length v - 1)"
    using le_value_less [of "butlast v"] by simp
  then have "le_value (butlast v) + 256 ^ (length v - 1) * (unat (last v) mod 128) <
      256 ^ (length v - 1) * (1 + unat (last v) mod 128)"
    by (simp add: algebra_simps)
  also have "\<dots> \<le> 256 ^ (length v - 1) * 128"
    by (intro mult_le_mono2) (simp add: Suc_leI)
  finally show ?thesis
    by (simp add: mult.commute)
qed

lemma pow_256_bound: "n < 8 \<Longrightarrow> 128 * 256 ^ n \<le> (2 :: nat) ^ 63"
proof -
  assume "n < 8"
  then have "(2 :: nat) ^ (7 + 8 * n) \<le> 2 ^ 63"
    by (intro power_increasing) simp_all
  then show ?thesis
    by (simp add: power_add power_mult)
qed

lemma MakeScriptNum_value:
  assumes "length v \<le> 8" and "length v \<le> n"
  shows "MakeScriptNum v req n =
    (if req \<and> \<not> minimal v then Err ''ErrMinimalData'' else Ok (script_value v))"
proof (cases "v = []")
  case True
  then show ?thesis
    by (simp add: MakeScriptNum_def script_value_def checkMinimal_minimal minimal_def)
next
  case False
  let ?k = "8 * (length v - 1)"
  let ?r = "decode_loop v 0 0"
  let ?low = "le_value (butlast v) + 256 ^ (length v - 1) * (unat (last v) mod 128)"
  have k: "?k + 7 < 64" and kmod: "?k mod 256 = ?k"
    using assms(1) False by (cases v; simp)+
  have p: "(2 :: nat) ^ (?k + 7) = 128 * 256 ^ (length v - 1)"
    by (simp add: power_add power_mult)
  have r: "unat ?r = le_value v"
    using decode_loop_value [of 0 v 0] assms(1) by simp
  have low: "?low < 2 ^ 63"
    using low_part_less [OF False] pow_256_bound [of "length v - 1"] assms(1) False by (cases v) simp_all
  have "sint (- (?r AND NOT (push_bit ?k 0x80))) = - int ?low" if "128 \<le> unat (last v)"
  proof -
    have "unat (last v) = 128 + unat (last v) mod 128"
      by (rule byte_high [OF that])
    then have v: "le_value v = 2 ^ (?k + 7) + ?low"
    proof -
      define m where "m = unat (last v) mod 128"
      then have "unat (last v) = 128 + m"
        using \<open>unat (last v) = 128 + unat (last v) mod 128\<close> by simp
      then show ?thesis
        using le_value_last [OF False] unfolding p m_def [symmetric] by (simp add: distrib_left)
    qed
    then have "le_value v div 2 ^ (?k + 7) = 1"
      using low_part_less [OF False] p by (simp add: div_nat_eqI)
    then have "bit (unat ?r) (?k + 7)"
      unfolding r bit_iff_odd by simp
    then have "bit ?r (?k + 7)"
      using k by (simp add: bit_unsigned_iff)
    from clear_sign_bit [OF k this] have "unat (?r AND NOT (push_bit ?k 0x80)) = ?low"
      using r v by simp
    then show ?thesis
      using sint_small [of "?r AND NOT (push_bit ?k 0x80)"] low by simp
  qed
  moreover have "sint ?r = int ?low" if "unat (last v) < 128"
    using sint_small [of ?r] r low le_value_last [OF False] that by simp
  ultimately show ?thesis
    using assms False unfolding MakeScriptNum_def script_value_def kmod Let_def
    by (cases "128 \<le> unat (last v)") (simp_all add: checkMinimal_minimal byte_and_80 not_less)
qed

section \<open>Serialising\<close>

lemma num_loop_value:
  "0 \<le> n \<Longrightarrow> int (le_value (num_loop n)) = n \<and> (num_loop n \<noteq> [] \<longrightarrow> last (num_loop n) \<noteq> 0) \<and> (num_loop n = [] \<longleftrightarrow> n = 0)"
proof (induction n rule: num_loop.induct)
  case (1 n)
  show ?case
  proof (cases "n > 0")
    case True
    have byte: "int (unat (of_int (n mod 256) :: byte)) = n mod 256"
      by (simp add: unsigned_of_int take_bit_int_eq_self)
    have IH: "int (le_value (num_loop (n div 256))) = n div 256"
        "num_loop (n div 256) \<noteq> [] \<Longrightarrow> last (num_loop (n div 256)) \<noteq> 0"
        "num_loop (n div 256) = [] \<longleftrightarrow> n div 256 = 0"
      using 1(1) [OF True] True by (simp_all add: pos_imp_zdiv_nonneg_iff)
    have "last (num_loop n) \<noteq> 0"
    proof (cases "n div 256 = 0")
      case True
      then have "n mod 256 = n"
        using div_mult_mod_eq [of n 256] by simp
      then show ?thesis
        using True \<open>n > 0\<close> IH(3) byte by (auto simp: num_loop.simps [of n])
    next
      case False
      then show ?thesis
        using True IH(2,3) by (simp add: num_loop.simps [of n])
    qed
    then show ?thesis
      using True byte IH(1) div_mult_mod_eq [of n 256] by (simp add: num_loop.simps [of n])
  next
    case False
    with "1.prems" show ?thesis
      by (simp add: num_loop.simps)
  qed
qed

text \<open>The magnitude bytes are determined by their value.\<close>

lemma num_loop_unique: "(v = [] \<or> last v \<noteq> 0) \<Longrightarrow> num_loop (int (le_value v)) = v"
proof (induction v)
  case (Cons b v)
  have pos: "0 < le_value (b # v)"
  proof (cases "v = []")
    case True
    then show ?thesis
      using Cons.prems by (simp add: unat_gt_0)
  next
    case False
    with Cons have "num_loop (int (le_value v)) = v" and "v \<noteq> []"
      by simp_all
    then have "0 < le_value v"
      by (metis num_loop.simps of_nat_0_less_iff)
    then show ?thesis
      by simp
  qed
  have "int (le_value (b # v)) mod 256 = uint b" and "int (le_value (b # v)) div 256 = int (le_value v)"
    using uint_bounded [of b] by simp_all
  moreover have "num_loop (int (le_value v)) = v"
    using Cons by (cases "v = []") (simp_all add: num_loop.simps)
  ultimately show ?case
    using pos by (subst num_loop.simps) (simp del: le_value.simps)
qed (simp add: num_loop.simps)

text \<open>Adding the sign to the magnitude.\<close>

definition with_sign :: "bool \<Rightarrow> bytes \<Rightarrow> bytes" where
  "with_sign neg m =
     (if 128 \<le> unat (last m) then m @ [if neg then 0x80 else 0]
      else if neg then butlast m @ [last m OR 0x80] else m)"

lemma script_value_snoc:
  "script_value (xs @ [b]) =
    (let m = int (le_value xs) + 256 ^ length xs * int (unat b mod 128) in if 128 \<le> unat b then - m else m)"
  by (simp add: script_value_def)

lemma with_sign_value:
  assumes "m \<noteq> []" and "last m \<noteq> 0"
  shows "script_value (with_sign neg m) = (if neg then - int (le_value m) else int (le_value m))"
    and "minimal (with_sign neg m)"
proof -
  obtain xs b where m: "m = xs @ [b]"
    using assms(1) by (cases m rule: rev_cases) auto
  have b: "0 < unat b" "unat b < 256"
    using assms(2) m unat_byte_less [of b] by (simp_all add: unat_gt_0)
  have "script_value (with_sign neg m) = (if neg then - int (le_value m) else int (le_value m)) \<and>
      minimal (with_sign neg m)"
  proof (cases "128 \<le> unat b")
    case True
    then show ?thesis
      using m by (simp add: with_sign_def script_value_def minimal_def nth_append butlast_append)
  next
    case False
    then show ?thesis
      using m b by (simp add: with_sign_def script_value_snoc byte_or_80 minimal_def le_value_append)
  qed
  then show "script_value (with_sign neg m) = (if neg then - int (le_value m) else int (le_value m))"
    and "minimal (with_sign neg m)"
    by simp_all
qed

lemma num_Bytes_eq:
  assumes "- (2 ^ 63) < n" and "n < 2 ^ 63" and "n \<noteq> 0"
  shows "num_Bytes n = Ok (with_sign (n < 0) (num_loop \<bar>n\<bar>))"
proof -
  have "wrap64 (- n) = - n" if "n < 0"
    using that assms by (intro wrap64_id) linarith+
  moreover have "num_loop \<bar>n\<bar> \<noteq> []"
    using num_loop_value [of "\<bar>n\<bar>"] assms(3) by simp
  ultimately show ?thesis
    using assms(3) by (auto simp: num_Bytes_def with_sign_def Let_def byte_and_80 not_less)
qed

lemma num_Bytes_script_value:
  assumes "- (2 ^ 63) < n" and "n < 2 ^ 63"
  shows "\<exists>b. num_Bytes n = Ok b \<and> script_value b = n \<and> minimal b"
proof (cases "n = 0")
  case True
  then show ?thesis
    by (simp add: num_Bytes_def script_value_def minimal_def)
next
  case False
  let ?m = "num_loop \<bar>n\<bar>"
  have m: "int (le_value ?m) = \<bar>n\<bar>" "?m \<noteq> []" "last ?m \<noteq> 0"
    using num_loop_value [of "\<bar>n\<bar>"] False by auto
  from with_sign_value [OF m(2,3), of "n < 0"] m(1) num_Bytes_eq [OF assms False]
  show ?thesis
    by auto
qed

text \<open>A minimal encoding is its magnitude with the sign added.\<close>

lemma minimal_with_sign:
  assumes "minimal v" and "v \<noteq> []"
  shows "\<exists>neg m. v = with_sign neg m \<and> m \<noteq> [] \<and> last m \<noteq> 0"
proof -
  obtain xs b where v: "v = xs @ [b]"
    using assms(2) by (cases v rule: rev_cases) auto
  show ?thesis
  proof (cases "unat b mod 128 = 0")
    case True
    then have "xs \<noteq> []" and "128 \<le> unat (last xs)"
      using assms(1) v by (auto simp: minimal_def nth_append last_conv_nth)
    moreover have "b = 0 \<or> b = 0x80"
    proof -
      have "unat b = 0 \<or> unat b = 128"
        using True unat_byte_less [of b] by presburger
      then show ?thesis
        by (simp add: word_unat_eq_iff)
    qed
    moreover from calculation have "last xs \<noteq> 0"
      by auto
    ultimately show ?thesis
      using v by (intro exI [of _ "b = 0x80"] exI [of _ xs]) (auto simp: with_sign_def)
  next
    case False
    show ?thesis
    proof (cases "128 \<le> unat b")
      case True
      let ?b = "b AND 0x7f"
      have "unat ?b < 128" and "unat ?b + 128 = unat b"
        using byte_high [OF True] by (simp_all add: byte_and_7f)
      then have "?b OR 0x80 = b"
        using byte_or_80 [of ?b] by (simp add: word_unat_eq_iff)
      moreover have "?b \<noteq> 0"
        using False byte_and_7f [of b] by auto
      ultimately show ?thesis
        using v \<open>unat ?b < 128\<close> by (intro exI [of _ True] exI [of _ "xs @ [?b]"]) (simp add: with_sign_def)
    next
      case inner: False
      then show ?thesis
        using v False by (intro exI [of _ False] exI [of _ v]) (auto simp: with_sign_def)
    qed
  qed
qed

lemma script_value_abs:
  "v \<noteq> [] \<Longrightarrow> \<bar>script_value v\<bar> = int (le_value (butlast v) + 256 ^ (length v - 1) * (unat (last v) mod 128))"
  unfolding script_value_def Let_def
  by (simp only: if_False of_nat_add of_nat_mult of_nat_power of_nat_numeral abs_minus_cancel split: if_split)
     simp

lemma script_value_bound:
  assumes "length v \<le> k" and "0 < k"
  shows "\<bar>script_value v\<bar> < 128 * 256 ^ (k - 1)"
proof (cases "v = []")
  case False
  have "\<bar>script_value v\<bar> < int (128 * 256 ^ (length v - 1))"
    unfolding script_value_abs [OF False] of_nat_less_iff by (rule low_part_less [OF False])
  also have "\<dots> \<le> 128 * 256 ^ (k - 1)"
    using assms(1) by (simp add: power_increasing)
  finally show ?thesis .
qed (use assms in \<open>simp add: script_value_def\<close>)

lemma minimal_lower:
  assumes "minimal v" and "length v = Suc (Suc l)"
  shows "128 * 256 ^ l \<le> \<bar>script_value v\<bar>"
proof -
  obtain ys a b where v: "v = ys @ [a, b]" and l: "length ys = l"
    using assms(2) by (metis append_butlast_last_id append_Cons append_Nil append_assoc diff_Suc_1
        length_butlast length_0_conv nat.distinct(1))
  have abs: "\<bar>script_value v\<bar> = int (le_value ys + 256 ^ l * unat a + 256 * 256 ^ l * (unat b mod 128))"
    using v l by (simp add: script_value_abs butlast_append le_value_append)
  consider "1 \<le> unat b mod 128" | "128 \<le> unat a"
    using assms v l by (auto simp: minimal_def nth_append)
  then have "128 * 256 ^ l \<le> le_value ys + 256 ^ l * unat a + 256 * 256 ^ l * (unat b mod 128)"
  proof cases
    case 1
    then have "256 * 256 ^ l * 1 \<le> 256 * 256 ^ l * (unat b mod 128)"
      by (intro mult_le_mono2)
    then show ?thesis
      by (simp add: trans_le_add2 algebra_simps)
  next
    case 2
    then have "256 ^ l * 128 \<le> 256 ^ l * unat a"
      by (intro mult_le_mono2)
    then have "128 * 256 ^ l \<le> 256 ^ l * unat a"
      by (simp only: mult.commute)
    then show ?thesis
      by (intro trans_le_add1 trans_le_add2)
  qed
  then have "int (128 * 256 ^ l) \<le> \<bar>script_value v\<bar>"
    unfolding abs of_nat_le_iff .
  then show ?thesis
    by simp
qed

lemma minimal_length:
  assumes "minimal v" and "\<bar>script_value v\<bar> < 128 * 256 ^ (k - 1)" and "0 < k"
  shows "length v \<le> k"
proof (rule ccontr)
  assume "\<not> length v \<le> k"
  then obtain l where l: "length v = Suc (Suc l)" "k - 1 \<le> l"
    using assms(3) by (cases "length v"; cases "length v - 1") auto
  have "(128 :: int) * 256 ^ (k - 1) \<le> 128 * 256 ^ l"
    using l(2) by (simp add: power_increasing)
  with minimal_lower [OF assms(1) l(1)] assms(2) show False
    by linarith
qed

lemma MakeScriptNum_Ok:
  assumes "MakeScriptNum v req k = Ok n" and "k \<le> 8"
  shows "length v \<le> k" and "n = script_value v" and "req \<Longrightarrow> minimal v"
proof -
  show len: "length v \<le> k"
    using assms(1) by (auto simp: MakeScriptNum_def split: if_splits)
  then show "n = script_value v" and "req \<Longrightarrow> minimal v"
    using assms MakeScriptNum_value [of v k req] by (auto split: if_splits)
qed

section \<open>Properties\<close>

text \<open>
  C30: Encoding a script number.  Every \<^verbatim>\<open>int64\<close> except the smallest one is serialised, to a
  minimal encoding of at most nine bytes; the parser returns the number from it under every size
  limit of at most eight bytes that the encoding meets, with or without the minimality check.
  Numbers below \<open>128 * 256 ^ (k - 1)\<close> in absolute value take at most \<open>k\<close> bytes.
\<close>

theorem script_num_roundtrip:
  assumes "- (2 ^ 63) < n" and "n < 2 ^ 63"
  shows "\<exists>b. num_Bytes n = Ok b \<and> checkMinimalDataEncoding b = Ok () \<and> length b \<le> 9 \<and>
    (\<forall>k req. length b \<le> k \<and> k \<le> 8 \<longrightarrow> MakeScriptNum b req k = Ok n) \<and>
    (\<forall>k>0. \<bar>n\<bar> < 128 * 256 ^ (k - 1) \<longrightarrow> length b \<le> k)"
proof -
  obtain b where b: "num_Bytes n = Ok b" "script_value b = n" "minimal b"
    using num_Bytes_script_value [OF assms] by blast
  have len: "length b \<le> k" if "0 < k" "\<bar>n\<bar> < 128 * 256 ^ (k - 1)" for k
    using minimal_length [OF b(3)] b(2) that by simp
  moreover have "\<bar>n\<bar> < 128 * 256 ^ (9 - 1 :: nat)"
    using assms by simp
  ultimately have "length b \<le> 9"
    by (metis zero_less_numeral)
  with b len show ?thesis
    by (auto simp: checkMinimal_minimal MakeScriptNum_value)
qed

text \<open>
  Parsing a script number.  Under a size limit of \<open>k\<close> bytes, one to eight, a parsed number is
  below \<open>128 * 256 ^ (k - 1)\<close> in absolute value (for four bytes below 2^31), and when minimality is
  required the bytes are exactly the serialisation of the number: an encoding is unique.
\<close>

theorem script_num_canonical:
  assumes "MakeScriptNum v req k = Ok n" and "0 < k" and "k \<le> 8"
  shows "\<bar>n\<bar> < 128 * 256 ^ (k - 1) \<and> (req \<longrightarrow> num_Bytes n = Ok v)"
proof
  note ok = MakeScriptNum_Ok [OF assms(1,3)]
  show bound: "\<bar>n\<bar> < 128 * 256 ^ (k - 1)"
    using script_value_bound [OF ok(1) assms(2)] ok(2) by simp
  show "req \<longrightarrow> num_Bytes n = Ok v"
  proof
    assume req
    then have min: "minimal v"
      by (rule ok(3))
    show "num_Bytes n = Ok v"
    proof (cases "v = []")
      case True
      then show ?thesis
        using ok(2) by (simp add: script_value_def num_Bytes_def)
    next
      case False
      then obtain neg m where m: "v = with_sign neg m" "m \<noteq> []" "last m \<noteq> 0"
        using minimal_with_sign [OF min] by blast
      have pos: "0 < le_value m"
      proof (rule ccontr)
        assume "\<not> 0 < le_value m"
        then show False
          using num_loop_unique [of m] m(2,3) by (simp add: num_loop.simps [of 0])
      qed
      have n: "n = (if neg then - int (le_value m) else int (le_value m))"
        using with_sign_value(1) [OF m(2,3), of neg] ok(2) m(1) by simp
      have "int (128 * 256 ^ (k - 1)) \<le> int (2 ^ 63)"
        unfolding of_nat_le_iff using assms(2,3) by (intro pow_256_bound) simp
      then have "\<bar>n\<bar> < 2 ^ 63"
        using bound by simp
      then show ?thesis
        using num_Bytes_eq [of n] n pos m num_loop_unique [of m] by (auto simp: abs_if split: if_splits)
    qed
  qed
qed

theorem script_num_roundtrip_witness:
  "\<exists>b. num_Bytes (- 255) = Ok b \<and> checkMinimalDataEncoding b = Ok () \<and> MakeScriptNum b True 4 = Ok (- 255)"
proof -
  have "\<bar>- 255 :: int\<bar> < 128 * 256 ^ (4 - 1 :: nat)"
    by simp
  then show ?thesis
    using script_num_roundtrip [of "- 255"] by fastforce
qed

theorem script_num_canonical_witness:
  "\<bar>- 255 :: int\<bar> < 128 * 256 ^ 3 \<and> num_Bytes (- 255) = Ok [0xff, 0x80]"
  using script_num_canonical [of "[0xff, 0x80]" True 4 "- 255"]
  by (simp add: MakeScriptNum_def checkMinimalDataEncoding_def)

end
