(* ===== verification/Script_Stack.thy ===== *)
theory Script_Stack
  imports Script_Num
begin

text \<open>
  The data stack of the script engine (\<^verbatim>\<open>coin/OrcaNet/txscript/stack.go\<close>).  The slice is a
  list with the top at its end, as in the code.  An operation that fails ends the script, so a
  failing operation returns only the error.  Indices and sizes are \<^verbatim>\<open>int32\<close>, modelled as
  integers with the conversions written out.
\<close>

section \<open>The code\<close>

fun asBool_from :: "bytes \<Rightarrow> bool" where
  "asBool_from [] = False"
| "asBool_from (b # bs) = (if b \<noteq> 0 then \<not> (bs = [] \<and> b = 0x80) else asBool_from bs)"

definition asBool :: "bytes \<Rightarrow> bool" where
  "asBool t = asBool_from t"

definition fromBool :: "bool \<Rightarrow> bytes" where
  "fromBool v = (if v then [1] else [])"

record stack =
  stk :: "bytes list"
  verifyMinimalData :: bool

abbreviation bad_op :: "'a outcome" where
  "bad_op \<equiv> Err ''ErrInvalidStackOperation''"

definition Depth :: "stack \<Rightarrow> int" where
  "Depth s = wrap32 (int (length (stk s)))"

definition PushByteArray :: "bytes \<Rightarrow> stack \<Rightarrow> stack" where
  "PushByteArray so s = s\<lparr>stk := stk s @ [so]\<rparr>"

definition PushInt :: "int \<Rightarrow> stack \<Rightarrow> stack outcome" where
  "PushInt val s = bind (num_Bytes val) (\<lambda>b. Ok (PushByteArray b s))"

definition PushBool :: "bool \<Rightarrow> stack \<Rightarrow> stack" where
  "PushBool val s = PushByteArray (fromBool val) s"

definition nipN :: "int \<Rightarrow> stack \<Rightarrow> (bytes \<times> stack) outcome" where
  "nipN idx s =
     (let sz = wrap32 (int (length (stk s)))
      in if idx < 0 \<or> idx > sz - 1 then bad_op
         else let so = stk s ! nat (sz - idx - 1);
                  stk' = (if idx = 0 then take (nat (sz - 1)) (stk s)
                          else if idx = sz - 1 then drop 1 (stk s)
                          else take (nat (sz - idx - 1)) (stk s) @ drop (nat (sz - idx)) (stk s))
              in Ok (so, s\<lparr>stk := stk'\<rparr>))"

definition PopByteArray :: "stack \<Rightarrow> (bytes \<times> stack) outcome" where
  "PopByteArray s = nipN 0 s"

definition PopInt :: "stack \<Rightarrow> (int \<times> stack) outcome" where
  "PopInt s = bind (PopByteArray s) (\<lambda>(so, s').
     bind (MakeScriptNum so (verifyMinimalData s') maxScriptNumLen) (\<lambda>v. Ok (v, s')))"

definition PopBool :: "stack \<Rightarrow> (bool \<times> stack) outcome" where
  "PopBool s = bind (PopByteArray s) (\<lambda>(so, s'). Ok (asBool so, s'))"

definition PeekByteArray :: "int \<Rightarrow> stack \<Rightarrow> bytes outcome" where
  "PeekByteArray idx s =
     (let sz = wrap32 (int (length (stk s)))
      in if idx < 0 \<or> idx \<ge> sz then bad_op else Ok (stk s ! nat (sz - idx - 1)))"

definition PeekInt :: "int \<Rightarrow> stack \<Rightarrow> int outcome" where
  "PeekInt idx s = bind (PeekByteArray idx s) (\<lambda>so. MakeScriptNum so (verifyMinimalData s) maxScriptNumLen)"

definition PeekBool :: "int \<Rightarrow> stack \<Rightarrow> bool outcome" where
  "PeekBool idx s = bind (PeekByteArray idx s) (\<lambda>so. Ok (asBool so))"

definition NipN :: "int \<Rightarrow> stack \<Rightarrow> stack outcome" where
  "NipN idx s = bind (nipN idx s) (\<lambda>(_, s'). Ok s')"

definition Tuck :: "stack \<Rightarrow> stack outcome" where
  "Tuck s = bind (PopByteArray s) (\<lambda>(so2, s1). bind (PopByteArray s1) (\<lambda>(so1, s2).
     Ok (PushByteArray so2 (PushByteArray so1 (PushByteArray so2 s2)))))"

fun pop_loop :: "nat \<Rightarrow> stack \<Rightarrow> stack outcome" where
  "pop_loop 0 s = Ok s"
| "pop_loop (Suc i) s = bind (PopByteArray s) (\<lambda>(_, s'). pop_loop i s')"

definition DropN :: "int \<Rightarrow> stack \<Rightarrow> stack outcome" where
  "DropN n s = (if n < 1 then bad_op else pop_loop (nat n) s)"

fun peek_push_loop :: "int \<Rightarrow> nat \<Rightarrow> stack \<Rightarrow> stack outcome" where
  "peek_push_loop entry 0 s = Ok s"
| "peek_push_loop entry (Suc i) s =
     bind (PeekByteArray entry s) (\<lambda>so. peek_push_loop entry i (PushByteArray so s))"

fun nip_push_loop :: "int \<Rightarrow> nat \<Rightarrow> stack \<Rightarrow> stack outcome" where
  "nip_push_loop entry 0 s = Ok s"
| "nip_push_loop entry (Suc i) s =
     bind (nipN entry s) (\<lambda>(so, s'). nip_push_loop entry i (PushByteArray so s'))"

definition DupN :: "int \<Rightarrow> stack \<Rightarrow> stack outcome" where
  "DupN n s = (if n < 1 then bad_op else peek_push_loop (n - 1) (nat n) s)"

definition RotN :: "int \<Rightarrow> stack \<Rightarrow> stack outcome" where
  "RotN n s = (if n < 1 then bad_op else nip_push_loop (wrap32 (3 * n - 1)) (nat n) s)"

definition SwapN :: "int \<Rightarrow> stack \<Rightarrow> stack outcome" where
  "SwapN n s = (if n < 1 then bad_op else nip_push_loop (wrap32 (2 * n - 1)) (nat n) s)"

definition OverN :: "int \<Rightarrow> stack \<Rightarrow> stack outcome" where
  "OverN n s = (if n < 1 then bad_op else peek_push_loop (wrap32 (2 * n - 1)) (nat n) s)"

definition PickN :: "int \<Rightarrow> stack \<Rightarrow> stack outcome" where
  "PickN n s = bind (PeekByteArray n s) (\<lambda>so. Ok (PushByteArray so s))"

definition RollN :: "int \<Rightarrow> stack \<Rightarrow> stack outcome" where
  "RollN n s = bind (nipN n s) (\<lambda>(so, s'). Ok (PushByteArray so s'))"

section \<open>The stack from the top\<close>

text \<open>
  The items from the top down, and the stack with given items; \<open>stack_ok\<close> bounds the size so that
  the conversion to \<^verbatim>\<open>int32\<close> is exact.
\<close>

definition tos :: "stack \<Rightarrow> bytes list" where
  "tos s = rev (stk s)"

definition with_tos :: "bytes list \<Rightarrow> stack \<Rightarrow> stack" where
  "with_tos xs s = s\<lparr>stk := rev xs\<rparr>"

definition stack_ok :: "stack \<Rightarrow> bool" where
  "stack_ok s \<longleftrightarrow> length (stk s) < 2 ^ 31"

lemma wrap32_nat: "n < 2 ^ 31 \<Longrightarrow> wrap32 (int n) = int n"
  by simp

lemma tos_with_tos [simp]: "tos (with_tos xs s) = xs"
  by (simp add: tos_def with_tos_def)

lemma with_tos_with_tos [simp]: "with_tos xs (with_tos ys s) = with_tos xs s"
  by (simp add: with_tos_def)

lemma with_tos_tos [simp]: "with_tos (tos s) s = s"
  by (simp add: tos_def with_tos_def)

lemma verifyMinimalData_with_tos [simp]: "verifyMinimalData (with_tos xs s) = verifyMinimalData s"
  by (simp add: with_tos_def)

lemma stack_ok_tos: "stack_ok s \<longleftrightarrow> length (tos s) < 2 ^ 31"
  by (simp add: stack_ok_def tos_def)

lemma PushByteArray_tos: "PushByteArray b s = with_tos (b # tos s) s"
  by (simp add: PushByteArray_def with_tos_def tos_def)

lemma stk_tos: "stk s = rev (tos s)"
  by (simp add: tos_def)

lemma PeekByteArray_tos:
  assumes "stack_ok s"
  shows "PeekByteArray idx s = (if 0 \<le> idx \<and> nat idx < length (tos s) then Ok (tos s ! nat idx) else bad_op)"
proof -
  have "wrap32 (int (length (stk s))) = int (length (stk s))"
    using assms by (simp add: stack_ok_def)
  moreover have "stk s ! nat (int (length (stk s)) - idx - 1) = tos s ! nat idx"
    if "0 \<le> idx" "nat idx < length (tos s)"
    using that by (simp add: tos_def rev_nth nat_diff_distrib' nat_less_iff)
  ultimately show ?thesis
    by (auto simp: PeekByteArray_def Let_def tos_def nat_less_iff)
qed

lemma nipN_list:
  assumes "i < length xs"
  shows "xs ! (length xs - 1 - i) = rev xs ! i"
    and "(if i = 0 then take (length xs - 1) xs else if i = length xs - 1 then drop 1 xs
          else take (length xs - 1 - i) xs @ drop (length xs - i) xs) = rev (delete_at i (rev xs))"
  using assms by (auto simp: rev_nth delete_at_def take_rev drop_rev)

lemma nipN_tos:
  assumes "stack_ok s"
  shows "nipN idx s =
    (if 0 \<le> idx \<and> nat idx < length (tos s)
     then Ok (tos s ! nat idx, with_tos (delete_at (nat idx) (tos s)) s) else bad_op)"
proof (cases "0 \<le> idx \<and> nat idx < length (tos s)")
  case True
  define i where "i = nat idx"
  have i: "idx = int i" "i < length (stk s)"
    using True by (simp_all add: i_def tos_def)
  have w: "wrap32 (int (length (stk s))) = int (length (stk s))"
    using assms by (simp add: stack_ok_def)
  have n: "nat (int (length (stk s)) - int i - 1) = length (stk s) - 1 - i"
      "nat (int (length (stk s)) - int i) = length (stk s) - i"
      "nat (int (length (stk s)) - 1) = length (stk s) - 1"
      "int i = int (length (stk s)) - 1 \<longleftrightarrow> i = length (stk s) - 1"
      "int i = 0 \<longleftrightarrow> i = 0"
    using i(2) by linarith+
  show ?thesis
    using True i(2) unfolding nipN_def w i(1) n Let_def nipN_list [OF i(2)] with_tos_def tos_def by simp
next
  case False
  moreover have "wrap32 (int (length (stk s))) = int (length (stk s))"
    using assms by (simp add: stack_ok_def)
  ultimately show ?thesis
    by (auto simp: nipN_def tos_def nat_less_iff)
qed

lemma PopByteArray_tos:
  "stack_ok s \<Longrightarrow> PopByteArray s = (case tos s of [] \<Rightarrow> bad_op | x # xs \<Rightarrow> Ok (x, with_tos xs s))"
  by (auto simp: PopByteArray_def nipN_tos delete_at_def split: list.splits)

text \<open>The two loops behind the operations on several items.\<close>

lemma stack_ok_with_tos: "stack_ok (with_tos xs s) \<longleftrightarrow> length xs < 2 ^ 31"
  by (simp add: stack_ok_tos)

lemma take_drop_step:
  assumes "j < e" and "e \<le> length xs"
  shows "xs ! (e - Suc j) # take j (drop (e - j) xs) = take (Suc j) (drop (e - Suc j) xs)"
proof -
  have "e - Suc j < length xs" and "Suc (e - Suc j) = e - j"
    using assms by simp_all
  then show ?thesis
    using Cons_nth_drop_Suc [of "e - Suc j" xs] by (metis take_Suc_Cons)
qed

lemma peek_push_loop_tos:
  assumes "k + j \<le> e" and "0 < e" and "e \<le> length xs" and "length xs + k + j < 2 ^ 31"
    and "tos s = take j (drop (e - j) xs) @ xs"
  shows "peek_push_loop (int e - 1) k s = Ok (with_tos (take (j + k) (drop (e - (j + k)) xs) @ xs) s)"
  using assms
proof (induction k arbitrary: j s)
  case 0
  then show ?case
    by simp (metis with_tos_tos)
next
  case (Suc k)
  have len: "length (take j (drop (e - j) xs)) = j"
    using Suc.prems by simp
  have e: "nat (int e - 1) = e - 1"
    by simp
  have "tos s ! (e - 1) = xs ! (e - Suc j)"
    using Suc.prems len by (simp add: nth_append)
  moreover have "stack_ok s"
    using Suc.prems len by (simp add: stack_ok_tos)
  moreover have "e - 1 < length (tos s)"
    using Suc.prems by simp
  ultimately have "PeekByteArray (int e - 1) s = Ok (xs ! (e - Suc j))"
    using Suc.prems(2) e by (simp add: PeekByteArray_tos)
  moreover have "tos (PushByteArray (xs ! (e - Suc j)) s) = take (Suc j) (drop (e - Suc j) xs) @ xs"
    using take_drop_step [of j e xs] Suc.prems by (simp add: PushByteArray_tos)
  ultimately show ?case
    using Suc.IH [of "Suc j" "PushByteArray (xs ! (e - Suc j)) s"] Suc.prems
    by (simp add: PushByteArray_tos)
qed

lemma delete_at_middle: "delete_at (length xs) (xs @ y # ys) = xs @ ys"
  by (simp add: delete_at_def)

lemma nip_push_loop_tos:
  assumes "k + j \<le> e" and "0 < e" and "e \<le> length xs" and "length xs < 2 ^ 31"
    and "tos s = take j (drop (e - j) xs) @ take (e - j) xs @ drop e xs"
  shows "nip_push_loop (int e - 1) k s =
    Ok (with_tos (take (j + k) (drop (e - (j + k)) xs) @ take (e - (j + k)) xs @ drop e xs) s)"
  using assms
proof (induction k arbitrary: j s)
  case 0
  then show ?case
    by simp (metis with_tos_tos)
next
  case (Suc k)
  let ?a = "take j (drop (e - j) xs)"
  let ?p = "?a @ take (e - Suc j) xs"
  have "take (e - j) xs = take (e - Suc j) xs @ [xs ! (e - Suc j)]"
    using Suc.prems take_Suc_conv_app_nth [of "e - Suc j" xs] by (simp add: Suc_diff_Suc)
  then have split: "tos s = ?p @ xs ! (e - Suc j) # drop e xs"
    using Suc.prems(5) by simp
  have len: "e - 1 = length ?p" "length (tos s) = length xs"
    using Suc.prems by simp_all
  have e: "nat (int e - 1) = e - 1" and lt: "e - 1 < length (tos s)"
    using Suc.prems len by simp_all
  have "stack_ok s"
    using Suc.prems(4) len by (simp add: stack_ok_tos)
  moreover have "tos s ! (e - 1) = xs ! (e - Suc j)" and "delete_at (e - 1) (tos s) = ?p @ drop e xs"
    unfolding len(1) split by (rule nth_append_length, rule delete_at_middle)
  ultimately have "nipN (int e - 1) s = Ok (xs ! (e - Suc j), with_tos (?a @ take (e - Suc j) xs @ drop e xs) s)"
    using Suc.prems(2) e lt by (simp add: nipN_tos)
  moreover have "xs ! (e - Suc j) # ?a = take (Suc j) (drop (e - Suc j) xs)"
    using take_drop_step [of j e xs] Suc.prems by simp
  ultimately show ?case
    using Suc.IH [of "Suc j" "with_tos (take (Suc j) (drop (e - Suc j) xs) @ take (e - Suc j) xs @ drop e xs) s"] Suc.prems
    by (simp add: PushByteArray_tos flip: append_Cons)
qed

lemma pop_loop_tos:
  "stack_ok s \<Longrightarrow> pop_loop k s = (if k \<le> length (tos s) then Ok (with_tos (drop k (tos s)) s) else bad_op)"
proof (induction k arbitrary: s)
  case (Suc k)
  then show ?case
  proof (cases "tos s")
    case (Cons x xs)
    then have "stack_ok (with_tos xs s)"
      using Suc.prems by (simp add: stack_ok_tos)
    from Suc.IH [OF this] show ?thesis
      using Suc.prems Cons by (simp add: PopByteArray_tos)
  qed (simp add: PopByteArray_tos)
qed simp

lemma loops_tos:
  assumes "0 < k" and "k \<le> e" and "length (tos s) + k < 2 ^ 31"
  shows "peek_push_loop (int e - 1) k s =
      (if e \<le> length (tos s) then Ok (with_tos (take k (drop (e - k) (tos s)) @ tos s) s) else bad_op)"
    and "nip_push_loop (int e - 1) k s =
      (if e \<le> length (tos s)
       then Ok (with_tos (take k (drop (e - k) (tos s)) @ take (e - k) (tos s) @ drop e (tos s)) s) else bad_op)"
proof -
  obtain k' where k: "k = Suc k'"
    using assms(1) by (cases k) simp_all
  have "stack_ok s" and "\<not> e \<le> length (tos s) \<Longrightarrow> \<not> nat (int e - 1) < length (tos s)"
    using assms by (auto simp: stack_ok_tos)
  then show "peek_push_loop (int e - 1) k s =
      (if e \<le> length (tos s) then Ok (with_tos (take k (drop (e - k) (tos s)) @ tos s) s) else bad_op)"
    and "nip_push_loop (int e - 1) k s =
      (if e \<le> length (tos s)
       then Ok (with_tos (take k (drop (e - k) (tos s)) @ take (e - k) (tos s) @ drop e (tos s)) s) else bad_op)"
    using assms peek_push_loop_tos [of k 0 e "tos s" s] nip_push_loop_tos [of k 0 e "tos s" s]
    by (simp_all add: k PeekByteArray_tos nipN_tos)
qed

text \<open>
  The stack operations.  Seen from the top, for \<open>n\<close> from 1 and a stack far from the 32-bit
  limit: \<^verbatim>\<open>DropN\<close> removes the top \<open>n\<close> items, \<^verbatim>\<open>DupN\<close> copies them, \<^verbatim>\<open>OverN\<close> copies the
  \<open>n\<close> items below them to the top, \<^verbatim>\<open>SwapN\<close> exchanges the top \<open>n\<close> items with the \<open>n\<close> below
  them and \<^verbatim>\<open>RotN\<close> brings the third group of \<open>n\<close> to the top; each returns the error
  ErrInvalidStackOperation exactly when the stack is too small for it.
\<close>

theorem stack_shuffles:
  assumes "length (tos s) + n < 2 ^ 31" and "0 < n" and "3 * n < 2 ^ 31"
  shows "(\<lambda>xs. DropN (int n) s = (if n \<le> length xs then Ok (with_tos (drop n xs) s) else bad_op) \<and>
    DupN (int n) s = (if n \<le> length xs then Ok (with_tos (take n xs @ xs) s) else bad_op) \<and>
    OverN (int n) s = (if 2 * n \<le> length xs then Ok (with_tos (take n (drop n xs) @ xs) s) else bad_op) \<and>
    SwapN (int n) s =
      (if 2 * n \<le> length xs then Ok (with_tos (take n (drop n xs) @ take n xs @ drop (2 * n) xs) s) else bad_op) \<and>
    RotN (int n) s =
      (if 3 * n \<le> length xs
       then Ok (with_tos (take n (drop (2 * n) xs) @ take (2 * n) xs @ drop (3 * n) xs) s) else bad_op)) (tos s)"
proof -
  let ?xs = "tos s"
  have ok: "stack_ok s"
    using assms(1) by (simp add: stack_ok_tos)
  have two: "wrap32 (2 * int n - 1) = int (2 * n) - 1" and three: "wrap32 (3 * int n - 1) = int (3 * n) - 1"
    using assms(3) by (simp_all add: wrap32_id)
  have "DropN (int n) s = (if n \<le> length ?xs then Ok (with_tos (drop n ?xs) s) else bad_op)"
    using assms(2) ok by (simp add: DropN_def pop_loop_tos)
  moreover have "DupN (int n) s = (if n \<le> length ?xs then Ok (with_tos (take n ?xs @ ?xs) s) else bad_op)"
    using loops_tos(1) [of n n s] assms by (simp add: DupN_def)
  moreover have "OverN (int n) s =
      (if 2 * n \<le> length ?xs then Ok (with_tos (take n (drop n ?xs) @ ?xs) s) else bad_op)"
    using loops_tos(1) [of n "2 * n" s] assms unfolding OverN_def two by simp
  moreover have "SwapN (int n) s =
      (if 2 * n \<le> length ?xs then Ok (with_tos (take n (drop n ?xs) @ take n ?xs @ drop (2 * n) ?xs) s) else bad_op)"
    using loops_tos(2) [of n "2 * n" s] assms unfolding SwapN_def two by simp
  moreover have "RotN (int n) s =
      (if 3 * n \<le> length ?xs then Ok (with_tos (take n (drop (2 * n) ?xs) @ take (2 * n) ?xs @ drop (3 * n) ?xs) s)
       else bad_op)"
    using loops_tos(2) [of n "3 * n" s] assms unfolding RotN_def three by simp
  ultimately show ?thesis
    by simp
qed

theorem stack_shuffles_witness:
  "RotN 1 \<lparr>stk = [[1], [2], [3]], verifyMinimalData = True\<rparr> =
    Ok \<lparr>stk = [[2], [3], [1]], verifyMinimalData = True\<rparr> \<and>
   SwapN 1 \<lparr>stk = [[1]], verifyMinimalData = True\<rparr> = bad_op"
  using stack_shuffles [of "\<lparr>stk = [[1], [2], [3]], verifyMinimalData = True\<rparr>" 1]
    stack_shuffles [of "\<lparr>stk = [[1]], verifyMinimalData = True\<rparr>" 1]
  by (simp add: tos_def with_tos_def)

end
