(* ===== verification/Script_Tokenizer.thy ===== *)
theory Script_Tokenizer
  imports Script_Stack
begin

text \<open>
  The tokenizer of scripts (\<^verbatim>\<open>coin/OrcaNet/txscript/tokenizer.go\<close>), the length column of the
  opcode table (\<^verbatim>\<open>opcode.go\<close>) and \<^verbatim>\<open>checkScriptParses\<close> (\<^verbatim>\<open>script.go\<close>).  Opcodes are
  bytes read as natural numbers.
\<close>

section \<open>The code\<close>

abbreviation (input) OP_0 :: nat where "OP_0 \<equiv> 0"
abbreviation (input) OP_DATA_75 :: nat where "OP_DATA_75 \<equiv> 75"
abbreviation (input) OP_PUSHDATA1 :: nat where "OP_PUSHDATA1 \<equiv> 76"
abbreviation (input) OP_PUSHDATA2 :: nat where "OP_PUSHDATA2 \<equiv> 77"
abbreviation (input) OP_PUSHDATA4 :: nat where "OP_PUSHDATA4 \<equiv> 78"
abbreviation (input) OP_1NEGATE :: nat where "OP_1NEGATE \<equiv> 79"
abbreviation (input) OP_1 :: nat where "OP_1 \<equiv> 81"
abbreviation (input) OP_16 :: nat where "OP_16 \<equiv> 96"

definition op_length :: "nat \<Rightarrow> int" where
  "op_length n =
     (if 1 \<le> n \<and> n \<le> OP_DATA_75 then int n + 1
      else if n = OP_PUSHDATA1 then - 1
      else if n = OP_PUSHDATA2 then - 2
      else if n = OP_PUSHDATA4 then - 4
      else 1)"

record ScriptTokenizer =
  tk_script :: bytes
  tk_offset :: nat
  tk_opcodePos :: int
  tk_op :: nat
  tk_data :: bytes
  tk_err :: "string option"

definition tk_Done :: "ScriptTokenizer \<Rightarrow> bool" where
  "tk_Done t \<longleftrightarrow> tk_err t \<noteq> None \<or> int (tk_offset t) \<ge> wrap32 (int (length (tk_script t)))"

definition malformed :: "ScriptTokenizer \<Rightarrow> bool \<times> ScriptTokenizer" where
  "malformed t = (False, t\<lparr>tk_err := Some ''ErrMalformedPush''\<rparr>)"

definition tk_Next :: "ScriptTokenizer \<Rightarrow> bool \<times> ScriptTokenizer" where
  "tk_Next t0 =
     (if tk_Done t0 then (False, t0)
      else
        let t = t0\<lparr>tk_opcodePos := tk_opcodePos t0 + 1\<rparr>;
            opc = unat (tk_script t ! tk_offset t);
            len = op_length opc
        in if len = 1 then (True, t\<lparr>tk_offset := tk_offset t + 1, tk_op := opc, tk_data := []\<rparr>)
           else if len > 1 then
             (let script = drop (tk_offset t) (tk_script t)
              in if int (length script) < len then malformed t
                 else (True, t\<lparr>tk_offset := tk_offset t + nat len, tk_op := opc,
                               tk_data := take (nat len - 1) (drop 1 script)\<rparr>))
           else
             (let script = drop (tk_offset t + 1) (tk_script t);
                  w = nat (- len)
              in if length script < w then malformed t
                 else let dataLen = wrap32 (int (le_value (take w script)));
                          rest = drop w script
                      in if dataLen > wrap32 (int (length rest)) \<or> dataLen < 0 then malformed t
                         else (True, t\<lparr>tk_offset := tk_offset t + 1 + w + nat dataLen, tk_op := opc,
                                       tk_data := take (nat dataLen) rest\<rparr>)))"

definition MakeScriptTokenizer :: "nat \<Rightarrow> bytes \<Rightarrow> ScriptTokenizer" where
  "MakeScriptTokenizer version script =
     \<lparr>tk_script = script, tk_offset = 0, tk_opcodePos = - 1, tk_op = 0, tk_data = [],
      tk_err = (if version \<noteq> 0 then Some ''ErrUnsupportedScriptVersion'' else None)\<rparr>"

section \<open>Progress\<close>

definition tok_ok :: "ScriptTokenizer \<Rightarrow> bool" where
  "tok_ok t \<longleftrightarrow> length (tk_script t) < 2 ^ 31 \<and> tk_offset t \<le> length (tk_script t)"

lemma tok_ok_Make: "length script < 2 ^ 31 \<Longrightarrow> tok_ok (MakeScriptTokenizer v script)"
  by (simp add: tok_ok_def MakeScriptTokenizer_def)

lemma tk_Done_ok: "tok_ok t \<Longrightarrow> tk_Done t \<longleftrightarrow> tk_err t \<noteq> None \<or> tk_offset t = length (tk_script t)"
  by (auto simp: tk_Done_def tok_ok_def)

lemma op_length_cases:
  obtains "op_length n = 1" | "1 \<le> n" "n \<le> 75" "op_length n = int n + 1" "op_length n > 1"
    | w where "(n, w) \<in> {(76, 1), (77, 2), (78, 4)}" "op_length n = - int w"
  by (cases "1 \<le> n \<and> n \<le> 75"; cases "n = 76"; cases "n = 77"; cases "n = 78") (auto simp: op_length_def)

text \<open>The bytes a token stands for.\<close>

definition token_bytes :: "nat \<Rightarrow> bytes \<Rightarrow> bytes" where
  "token_bytes opc data =
     of_nat opc # (if op_length opc < 0 then le_bytes (nat (- op_length opc)) (length data) else []) @ data"

fun script_of :: "(nat \<times> bytes) list \<Rightarrow> bytes" where
  "script_of [] = []"
| "script_of ((opc, d) # ts) = token_bytes opc d @ script_of ts"

definition token_ok :: "nat \<times> bytes \<Rightarrow> bool" where
  "token_ok = (\<lambda>(opc, data). opc < 256 \<and> length data < 2 ^ 31 \<and>
     (if op_length opc = 1 then data = []
      else if op_length opc > 1 then int (length data) = op_length opc - 1
      else length data < 256 ^ nat (- op_length opc)))"

lemma nonneg_wrap32:
  assumes "n < 2 ^ 32" and "0 \<le> wrap32 (int n)"
  shows "wrap32 (int n) = int n"
proof (cases "n < 2 ^ 31")
  case False
  have "(int n + 2 ^ 31) mod 2 ^ 32 = (int n + 2 ^ 31 - 2 ^ 32) mod 2 ^ 32"
    by (simp only: minus_mod_self2)
  also have "\<dots> = int n + 2 ^ 31 - 2 ^ 32"
    using False assms(1) by (intro mod_pos_pos_trivial) simp_all
  finally have "wrap32 (int n) = int n - 2 ^ 32"
    by (simp add: wrap32_def signed_take_bit_eq_take_bit_shift take_bit_eq_mod)
  with assms show ?thesis
    by simp
qed simp

lemma take_drop_three: "take a r @ take b (drop a r) @ drop (a + b) r = r"
  using append_take_drop_id [of b "drop a r"] by (simp add: add.commute)

text \<open>Every accepted token is a proper one, and the offset moves over exactly its bytes.\<close>

lemma tk_Next_token:
  assumes "tok_ok t" and "tk_Next t = (True, t')"
  shows "token_ok (tk_op t', tk_data t') \<and> tk_script t' = tk_script t \<and> tk_err t' = None \<and>
    tk_offset t' = tk_offset t + length (token_bytes (tk_op t') (tk_data t')) \<and>
    drop (tk_offset t) (tk_script t) = token_bytes (tk_op t') (tk_data t') @ drop (tk_offset t') (tk_script t)"
proof -
  let ?s = "tk_script t" and ?o = "tk_offset t"
  define opc where "opc = unat (?s ! ?o)"
  have nd: "tk_err t = None" "?o < length ?s"
    using assms by (auto simp: tk_Next_def tk_Done_ok tok_ok_def split: if_splits)
  have head: "drop ?o ?s = of_nat opc # drop (Suc ?o) ?s"
    using nd(2) by (simp add: opc_def Cons_nth_drop_Suc)
  have opc: "opc < 256"
    using unat_byte_less [of "?s ! ?o"] by (simp add: opc_def)
  have len: "length ?s < 2 ^ 31"
    using assms(1) by (simp add: tok_ok_def)
  show ?thesis
  proof (cases opc rule: op_length_cases)
    case 1
    then show ?thesis
      using assms nd head opc by (auto simp: tk_Next_def tk_Done_ok Let_def opc_def [symmetric] token_bytes_def token_ok_def)
  next
    case 2
    then have "length (drop ?o ?s) \<ge> opc + 1" and t': "tk_offset t' = ?o + (opc + 1)" "tk_op t' = opc"
        "tk_data t' = take opc (drop (Suc ?o) ?s)" "tk_script t' = ?s" "tk_err t' = None"
      using assms nd by (auto simp: tk_Next_def tk_Done_ok Let_def opc_def [symmetric] malformed_def nat_add_distrib split: if_splits)
    then have "length (tk_data t') = opc"
      by simp
    moreover have "drop (Suc ?o) ?s = take opc (drop (Suc ?o) ?s) @ drop (Suc (opc + ?o)) ?s"
      using append_take_drop_id [of opc "drop (Suc ?o) ?s"] by simp
    ultimately show ?thesis
      using 2 t' head opc by (simp add: token_bytes_def token_ok_def add.commute)
  next
    case (3 w)
    let ?rest = "drop (Suc ?o) ?s"
    let ?n = "le_value (take w ?rest)"
    have w: "nat (- op_length opc) = w" "op_length opc \<noteq> 1" "\<not> 1 < op_length opc" "op_length opc < 0" "w \<le> 4"
      using 3 by auto
    have "?n < 256 ^ length (take w ?rest)"
      by (rule le_value_less)
    also have "\<dots> \<le> 256 ^ 4"
      using w(5) by (intro power_increasing) simp_all
    finally have "?n < 2 ^ 32"
      by simp
    then have nw: "wrap32 (int ?n) = int ?n" if "0 \<le> wrap32 (int ?n)"
      using that by (rule nonneg_wrap32)
    have rw: "wrap32 (int (length (drop w ?rest))) = int (length (drop w ?rest))"
      using len by simp
    have r: "w \<le> length ?rest" "?n \<le> length (drop w ?rest)" "tk_offset t' = ?o + 1 + w + ?n" "tk_op t' = opc"
        "tk_data t' = take ?n (drop w ?rest)" "tk_script t' = ?s" "tk_err t' = None"
      using assms nd w nw rw
      by (auto simp: tk_Next_def tk_Done_ok Let_def opc_def [symmetric] malformed_def not_less split: if_splits)
    then have dl: "length (tk_data t') = ?n"
      by simp
    have "le_bytes w ?n = take w ?rest"
      using le_bytes_le_value [of "take w ?rest"] r(1) by simp
    moreover have "?n < 256 ^ w"
      using le_value_less [of "take w ?rest"] r(1) by simp
    moreover have "take w ?rest @ take ?n (drop w ?rest) @ drop (?o + 1 + w + ?n) ?s = ?rest"
      using take_drop_three [of w ?rest ?n] by (simp add: ac_simps)
    ultimately have tb: "token_bytes opc (tk_data t') = of_nat opc # take w ?rest @ take ?n (drop w ?rest)"
      and cov: "?rest = take w ?rest @ take ?n (drop w ?rest) @ drop (tk_offset t') ?s" and small: "?n < 256 ^ w"
      using w dl r(3,5) by (simp_all only: token_bytes_def if_True)
    have "length (token_bytes opc (tk_data t')) = 1 + w + ?n"
      unfolding tb using r(1,2) by simp
    moreover have "drop ?o ?s = token_bytes opc (tk_data t') @ drop (tk_offset t') ?s"
      unfolding tb head using cov by simp
    moreover have "token_ok (opc, tk_data t')"
      using small w dl opc r(2) len by (simp add: token_ok_def)
    ultimately show ?thesis
      using r(3,4,6,7) by simp
  qed
qed

lemma token_bytes_nonempty: "0 < length (token_bytes opc data)"
  by (simp add: token_bytes_def)

lemma tk_Next_progress:
  assumes "tok_ok t" and "tk_Next t = (True, t')"
  shows "tok_ok t'" and "tk_offset t < tk_offset t'" and "tk_script t' = tk_script t"
proof -
  note tok = tk_Next_token [OF assms]
  define n where "n = length (token_bytes (tk_op t') (tk_data t'))"
  have n: "0 < n" "tk_offset t' = tk_offset t + n" "tk_script t' = tk_script t"
    using tok token_bytes_nonempty by (simp_all add: n_def)
  have "length (drop (tk_offset t) (tk_script t)) = n + length (drop (tk_offset t') (tk_script t))"
    using tok by (metis n_def length_append)
  then have "tk_offset t + n \<le> length (tk_script t)"
    using n(1) by simp
  then show "tok_ok t'" and "tk_offset t < tk_offset t'" and "tk_script t' = tk_script t"
    using n assms(1) by (simp_all add: tok_ok_def)
qed

text \<open>The number of bytes left, which every accepted token lowers whatever the length of the script.\<close>

definition tk_left :: "ScriptTokenizer \<Rightarrow> nat" where
  "tk_left t = nat (wrap32 (int (length (tk_script t))) - int (tk_offset t))"

lemma tk_Next_measure: "(True, t') = tk_Next t \<Longrightarrow> tk_left t' < tk_left t"
  by (auto simp: tk_Next_def tk_Done_def malformed_def tk_left_def Let_def split: if_splits)

lemma tk_Next_fails: "tk_Next t = (False, t') \<Longrightarrow> tk_script t' = tk_script t \<and> tk_offset t' = tk_offset t \<and> (tk_Done t \<longrightarrow> t' = t) \<and> (\<not> tk_Done t \<longrightarrow> tk_err t' = Some ''ErrMalformedPush'')"
  by (auto simp: tk_Next_def malformed_def Let_def split: if_splits)

section \<open>Reading a whole script\<close>

text \<open>
  The loop \<^verbatim>\<open>for tokenizer.Next()\<close>: the tokens it sees and the tokenizer it ends with.
\<close>

function tk_run :: "ScriptTokenizer \<Rightarrow> (nat \<times> bytes) list \<times> ScriptTokenizer" where
  "tk_run t =
     (case tk_Next t of
        (True, t') \<Rightarrow> (let (ts, e) = tk_run t' in ((tk_op t', tk_data t') # ts, e))
      | (False, t') \<Rightarrow> ([], t'))"
  by pat_completeness auto
termination
  by (relation "measure tk_left") (auto intro: tk_Next_measure)

declare tk_run.simps [simp del]

definition checkScriptParses :: "nat \<Rightarrow> bytes \<Rightarrow> unit outcome" where
  "checkScriptParses version script =
     (case tk_err (snd (tk_run (MakeScriptTokenizer version script))) of None \<Rightarrow> Ok () | Some e \<Rightarrow> Err e)"

lemma tk_run_sound:
  assumes "tok_ok t" and "tk_err t = None" and "tk_run t = (ts, e)" and "tk_err e = None"
  shows "list_all token_ok ts \<and> drop (tk_offset t) (tk_script t) = script_of ts"
  using assms
proof (induction t arbitrary: ts rule: tk_run.induct)
  case (1 t)
  obtain b t' where nx: "tk_Next t = (b, t')"
    by (cases "tk_Next t")
  show ?case
  proof (cases b)
    case True
    then obtain ts' where ts: "tk_run t' = (ts', e)" "ts = (tk_op t', tk_data t') # ts'"
      using "1.prems" nx by (auto simp: tk_run.simps [of t] split: prod.splits)
    have tok: "tk_Next t = (True, t')"
      using nx True by simp
    from "1.IH" [OF tok [symmetric]] tk_Next_progress [OF "1.prems"(1) tok] tk_Next_token [OF "1.prems"(1) tok]
      ts "1.prems" show ?thesis
      by (auto simp: nx True)
  next
    case False
    then have "tk_Done t" and "ts = []"
      using "1.prems" nx tk_Next_fails [of t t'] by (auto simp: tk_run.simps [of t])
    then show ?thesis
      using "1.prems"(1,2) by (simp add: tk_Done_ok)
  qed
qed

lemma tk_Next_reads:
  assumes "tok_ok t" and "tk_err t = None" and "token_ok (opc, d)"
    and here: "drop (tk_offset t) (tk_script t) = token_bytes opc d @ rest"
  shows "\<exists>t'. tk_Next t = (True, t') \<and> tk_op t' = opc \<and> tk_data t' = d \<and> tk_script t' = tk_script t \<and>
    tk_err t' = None \<and> tk_offset t' = tk_offset t + length (token_bytes opc d)"
proof -
  let ?s = "tk_script t" and ?o = "tk_offset t"
  have opc: "opc < 256" and len: "length ?s < 2 ^ 31" and dl: "length d < 2 ^ 31"
    using assms(1,3) by (simp_all add: token_ok_def tok_ok_def)
  have lt: "?o < length ?s"
    using here token_bytes_nonempty [of opc d] by (metis append_is_Nil_conv drop_all length_greater_0_conv not_le)
  then have cons: "drop ?o ?s = ?s ! ?o # drop (Suc ?o) ?s"
    by (simp add: Cons_nth_drop_Suc)
  let ?w = "nat (- op_length opc)"
  have hd: "?s ! ?o = of_nat opc" and tl: "drop (Suc ?o) ?s =
      (if op_length opc < 0 then le_bytes ?w (length d) else []) @ d @ rest"
    using here unfolding cons token_bytes_def by simp_all
  have u: "unat (?s ! ?o) = opc"
    using hd opc by (simp add: unat_of_nat)
  have nd: "\<not> tk_Done t"
    using assms(1,2) lt by (simp add: tk_Done_ok)
  show ?thesis
  proof (cases opc rule: op_length_cases)
    case 1
    then show ?thesis
      using nd u assms(2,3) by (simp add: tk_Next_def Let_def token_bytes_def token_ok_def)
  next
    case 2
    then have "length d = opc"
      using assms(3) by (simp add: token_ok_def)
    moreover have "length (drop ?o ?s) = opc + 1 + length rest"
      unfolding cons using tl 2 calculation by simp
    ultimately show ?thesis
      using nd u assms(2) 2 tl cons
      by (simp add: tk_Next_def Let_def token_bytes_def nat_add_distrib add.commute)
  next
    case (3 w)
    then have w: "?w = w" "op_length opc \<noteq> 1" "\<not> 1 < op_length opc" "op_length opc < 0"
      by auto
    have small: "length d < 256 ^ w"
      using w assms(3) by (simp add: token_ok_def)
    have tl': "drop (Suc ?o) ?s = le_bytes w (length d) @ d @ rest"
      using tl w by simp
    then have "length d + length rest < 2 ^ 31"
      using len by (metis add_lessD1 add.commute length_append length_drop less_imp_diff_less order_le_less_trans le_add1)
    then have "wrap32 (int (length d + length rest)) = int (length d + length rest)"
      by (rule wrap32_nat)
    moreover have "wrap32 (int (length d)) = int (length d)"
      using dl by (rule wrap32_nat)
    ultimately show ?thesis
      using nd u assms(2) w small
      by (simp add: tk_Next_def Let_def token_bytes_def tl' le_value_le_bytes)
  qed
qed

lemma tk_run_complete:
  assumes "tok_ok t" and "tk_err t = None" and "list_all token_ok ts"
    and "drop (tk_offset t) (tk_script t) = script_of ts"
  shows "\<exists>e. tk_run t = (ts, e) \<and> tk_err e = None"
  using assms
proof (induction ts arbitrary: t)
  case Nil
  then have "tk_Done t"
    by (simp add: tk_Done_ok tok_ok_def)
  then have "tk_Next t = (False, t)"
    by (simp add: tk_Next_def)
  then show ?case
    using Nil by (subst tk_run.simps) simp
next
  case (Cons x ts)
  obtain opc d where x: "x = (opc, d)"
    by (cases x)
  have token: "token_ok (opc, d)"
    and here: "drop (tk_offset t) (tk_script t) = token_bytes opc d @ script_of ts"
    using Cons.prems(3,4) x by simp_all
  obtain t' where t': "tk_Next t = (True, t')" "tk_op t' = opc" "tk_data t' = d" "tk_script t' = tk_script t"
      "tk_err t' = None" "tk_offset t' = tk_offset t + length (token_bytes opc d)"
    using tk_Next_reads [OF Cons.prems(1,2) token here] by blast
  have "drop (tk_offset t') (tk_script t') = script_of ts"
  proof -
    have "drop (tk_offset t') (tk_script t') = drop (length (token_bytes opc d)) (drop (tk_offset t) (tk_script t))"
      using t'(4,6) by (simp add: add.commute)
    then show ?thesis
      using here by simp
  qed
  then obtain e where "tk_run t' = (ts, e)" "tk_err e = None"
    using Cons.IH [of t'] tk_Next_progress(1) [OF Cons.prems(1) t'(1)] t'(5) Cons.prems(3) by auto
  then show ?case
    using Cons.prems(1) t' x by (subst tk_run.simps) simp
qed

text \<open>
  C31: Parsing a script.  For scripts shorter than 2^31 bytes, reading a script and writing its
  tokens are inverse: the script parses exactly when it is the concatenation of well-formed tokens,
  and the tokenizer then returns those tokens in order, so the tokens of a script are unique.
\<close>

theorem script_parses_iff:
  assumes "length script < 2 ^ 31"
  shows "(checkScriptParses 0 script = Ok () \<longleftrightarrow>
      (\<exists>ts. list_all token_ok ts \<and> script = script_of ts)) \<and>
    (\<forall>ts. list_all token_ok ts \<and> script = script_of ts \<longrightarrow>
      fst (tk_run (MakeScriptTokenizer 0 script)) = ts)"
proof -
  let ?t = "MakeScriptTokenizer 0 script"
  have t: "tok_ok ?t" "tk_err ?t = None" "drop (tk_offset ?t) (tk_script ?t) = script"
    using assms by (simp_all add: tok_ok_Make) (simp_all add: MakeScriptTokenizer_def)
  have complete: "\<exists>e. tk_run ?t = (ts, e) \<and> tk_err e = None"
    if "list_all token_ok ts" "script = script_of ts" for ts
    using tk_run_complete [OF t(1,2) that(1)] t(3) that(2) by simp
  obtain us e where run: "tk_run ?t = (us, e)"
    by (cases "tk_run ?t")
  have parses: "checkScriptParses 0 script = Ok () \<longleftrightarrow> tk_err e = None"
    using run by (simp add: checkScriptParses_def split: option.splits)
  have sound: "list_all token_ok us \<and> script = script_of us" if "tk_err e = None"
    using tk_run_sound [OF t(1,2) run that] unfolding t(3) .
  have unique: "tk_err e = None \<and> us = ts" if prints: "list_all token_ok ts \<and> script = script_of ts" for ts
  proof -
    obtain e' where "tk_run ?t = (ts, e')" "tk_err e' = None"
      using complete [of ts] prints by blast
    then show ?thesis
      unfolding run by simp
  qed
  show ?thesis
    unfolding parses run fst_conv using sound unique by metis
qed

theorem script_parses_iff_witness:
  "checkScriptParses 0 [0x02, 7, 8, 0x4c, 1, 9, 0x76] = Ok () \<and>
    fst (tk_run (MakeScriptTokenizer 0 [0x02, 7, 8, 0x4c, 1, 9, 0x76])) = [(2, [7, 8]), (76, [9]), (118, [])]"
proof -
  let ?ts = "[(2, [7, 8]), (76, [9]), (118, [])] :: (nat \<times> bytes) list"
  have "list_all token_ok ?ts"
    by (simp add: token_ok_def op_length_def)
  moreover have "[0x02, 7, 8, 0x4c, 1, 9, 0x76] = script_of ?ts"
    by (simp add: token_bytes_def op_length_def)
  moreover have small: "length [0x02, 7, 8, 0x4c, 1, 9, 0x76 :: byte] < 2 ^ 31"
    by simp
  ultimately show ?thesis
    using script_parses_iff [of "[0x02, 7, 8, 0x4c, 1, 9, 0x76]"] small by blast
qed

end
