(* ===== verification/Wire_Tx.thy ===== *)
theory Wire_Tx
  imports Prelude
begin

text \<open>
  Transactions and their wire encoding (\<^verbatim>\<open>coin/OrcaNet/wire/msgtx.go\<close> and the
  variable-length integers of \<^verbatim>\<open>wire/common.go\<close>).  A reader is the list of bytes not yet
  read; writing cannot fail, since every writer in the code is a buffer or a hash.  The decoder
  reads scripts into one slab of 4 MiB and cuts off what it has used; the slab is modelled by the
  number of bytes that are left of it.
\<close>

section \<open>Transactions\<close>

record TxIn =
  PreviousOutPoint :: "bytes \<times> nat"
  SignatureScript :: bytes
  Witness :: "bytes list"
  Sequence :: int

record TxOut =
  out_Value :: int
  PkScript :: bytes

record MsgTx =
  Version :: int
  TxIns :: "TxIn list"
  TxOuts :: "TxOut list"
  LockTime :: int

datatype MessageEncoding = BaseEncoding | WitnessEncoding

abbreviation (input) MaxMessagePayload :: nat where "MaxMessagePayload \<equiv> 33554432"
abbreviation (input) maxTxInPerMessage :: nat where "maxTxInPerMessage \<equiv> 818401"
abbreviation (input) maxTxOutPerMessage :: nat where "maxTxOutPerMessage \<equiv> 3728271"
abbreviation (input) maxWitnessItemsPerInput :: nat where "maxWitnessItemsPerInput \<equiv> 4000000"
abbreviation (input) maxWitnessItemSize :: nat where "maxWitnessItemSize \<equiv> 4000000"
abbreviation (input) scriptSlabSize :: nat where "scriptSlabSize \<equiv> 4194304"

section \<open>Integers and byte strings\<close>

definition uint32_bytes :: "int \<Rightarrow> bytes" where
  "uint32_bytes x = le_bytes 4 (nat (x mod 2 ^ 32))"

definition uint64_bytes :: "int \<Rightarrow> bytes" where
  "uint64_bytes x = le_bytes 8 (nat (x mod 2 ^ 64))"

definition ReadFull :: "nat \<Rightarrow> bytes \<Rightarrow> (bytes \<times> bytes) outcome" where
  "ReadFull n r = (if n \<le> length r then Ok (take n r, drop n r) else Err ''unexpected EOF'')"

text \<open>The body of a \<^verbatim>\<open>case\<close> of \<^verbatim>\<open>ReadVarIntBuf\<close>: an \<open>n\<close>-byte value of at least \<open>least\<close>.\<close>

definition read_uint :: "nat \<Rightarrow> nat \<Rightarrow> bytes \<Rightarrow> (nat \<times> bytes) outcome" where
  "read_uint n least r =
     bind (ReadFull n r) (\<lambda>(b, r'). let rv = le_value b in if rv < least then Err ''ReadVarInt'' else Ok (rv, r'))"

definition ReadVarInt :: "bytes \<Rightarrow> (nat \<times> bytes) outcome" where
  "ReadVarInt r =
     bind (ReadFull 1 r) (\<lambda>(b, r').
       let discriminant = b ! 0
       in if discriminant = 0xff then read_uint 8 0x100000000 r'
          else if discriminant = 0xfe then read_uint 4 0x10000 r'
          else if discriminant = 0xfd then read_uint 2 0xfd r'
          else Ok (unat discriminant, r'))"

definition WriteVarInt :: "nat \<Rightarrow> bytes" where
  "WriteVarInt val =
     (if val < 0xfd then le_bytes 1 val
      else if val \<le> 0xffff then 0xfd # le_bytes 2 val
      else if val \<le> 0xffffffff then 0xfe # le_bytes 4 val
      else 0xff # le_bytes 8 val)"

definition VarIntSerializeSize :: "nat \<Rightarrow> nat" where
  "VarIntSerializeSize val =
     (if val < 0xfd then 1 else if val \<le> 0xffff then 3 else if val \<le> 0xffffffff then 5 else 9)"

definition WriteVarBytes :: "bytes \<Rightarrow> bytes" where
  "WriteVarBytes b = WriteVarInt (length b) @ b"

text \<open>\<^verbatim>\<open>s[:count]\<close> panics when the slab has fewer than \<open>count\<close> bytes left.\<close>

definition readScript :: "nat \<Rightarrow> nat \<Rightarrow> bytes \<Rightarrow> (bytes \<times> bytes) outcome" where
  "readScript maxAllowed slab r =
     bind (ReadVarInt r) (\<lambda>(count, r').
       if count > maxAllowed then Err ''readScript''
       else if count > slab then Panic ''slice bounds out of range''
       else ReadFull count r')"

section \<open>Encoding\<close>

definition writeOutPoint :: "bytes \<times> nat \<Rightarrow> bytes" where
  "writeOutPoint op = fst op @ uint32_bytes (int (snd op))"

definition writeTxIn :: "TxIn \<Rightarrow> bytes" where
  "writeTxIn ti = writeOutPoint (PreviousOutPoint ti) @ WriteVarBytes (SignatureScript ti) @ uint32_bytes (Sequence ti)"

definition WriteTxOut :: "TxOut \<Rightarrow> bytes" where
  "WriteTxOut to = uint64_bytes (out_Value to) @ WriteVarBytes (PkScript to)"

definition writeTxWitness :: "bytes list \<Rightarrow> bytes" where
  "writeTxWitness wit = WriteVarInt (length wit) @ concat (map WriteVarBytes wit)"

definition HasWitness :: "MsgTx \<Rightarrow> bool" where
  "HasWitness msg = list_ex (\<lambda>ti. Witness ti \<noteq> []) (TxIns msg)"

definition btcEncode :: "MessageEncoding \<Rightarrow> MsgTx \<Rightarrow> bytes" where
  "btcEncode enc msg =
     (let doWitness = (enc = WitnessEncoding \<and> HasWitness msg)
      in uint32_bytes (Version msg) @ (if doWitness then [0, 1] else []) @
         WriteVarInt (length (TxIns msg)) @ concat (map writeTxIn (TxIns msg)) @
         WriteVarInt (length (TxOuts msg)) @ concat (map WriteTxOut (TxOuts msg)) @
         (if doWitness then concat (map (\<lambda>ti. writeTxWitness (Witness ti)) (TxIns msg)) else []) @
         uint32_bytes (LockTime msg))"

definition Serialize :: "MsgTx \<Rightarrow> bytes" where
  "Serialize msg = btcEncode WitnessEncoding msg"

definition SerializeNoWitness :: "MsgTx \<Rightarrow> bytes" where
  "SerializeNoWitness msg = btcEncode BaseEncoding msg"

definition TxHash :: "(bytes \<Rightarrow> bytes) \<Rightarrow> MsgTx \<Rightarrow> bytes" where
  "TxHash sha msg = sha (sha (SerializeNoWitness msg))"

definition WitnessHash :: "(bytes \<Rightarrow> bytes) \<Rightarrow> MsgTx \<Rightarrow> bytes" where
  "WitnessHash sha msg = (if HasWitness msg then sha (sha (Serialize msg)) else TxHash sha msg)"

section \<open>Sizes\<close>

definition TxIn_SerializeSize :: "TxIn \<Rightarrow> nat" where
  "TxIn_SerializeSize t = 40 + VarIntSerializeSize (length (SignatureScript t)) + length (SignatureScript t)"

definition TxOut_SerializeSize :: "TxOut \<Rightarrow> nat" where
  "TxOut_SerializeSize t = 8 + VarIntSerializeSize (length (PkScript t)) + length (PkScript t)"

definition witness_SerializeSize :: "bytes list \<Rightarrow> nat" where
  "witness_SerializeSize t =
     foldl (\<lambda>n item. n + VarIntSerializeSize (length item) + length item) (VarIntSerializeSize (length t)) t"

definition baseSize :: "MsgTx \<Rightarrow> nat" where
  "baseSize msg =
     foldl (\<lambda>n to. n + TxOut_SerializeSize to)
       (foldl (\<lambda>n ti. n + TxIn_SerializeSize ti)
          (8 + VarIntSerializeSize (length (TxIns msg)) + VarIntSerializeSize (length (TxOuts msg))) (TxIns msg))
       (TxOuts msg)"

definition SerializeSize :: "MsgTx \<Rightarrow> nat" where
  "SerializeSize msg =
     (let n = baseSize msg
      in if HasWitness msg then foldl (\<lambda>n ti. n + witness_SerializeSize (Witness ti)) (n + 2) (TxIns msg) else n)"

definition SerializeSizeStripped :: "MsgTx \<Rightarrow> nat" where
  "SerializeSizeStripped msg = baseSize msg"

section \<open>Decoding\<close>

text \<open>
  The loops of the decoder: \<open>n\<close> elements are read one after the other, each into what the ones
  before it left of the slab.
\<close>

fun read_items ::
  "(nat \<Rightarrow> bytes \<Rightarrow> ('a \<times> bytes) outcome) \<Rightarrow> ('a \<Rightarrow> nat) \<Rightarrow> nat \<Rightarrow> nat \<Rightarrow> bytes \<Rightarrow> ('a list \<times> nat \<times> bytes) outcome" where
  "read_items rd cost 0 slab r = Ok ([], slab, r)"
| "read_items rd cost (Suc n) slab r =
     bind (rd slab r) (\<lambda>(x, r1).
     bind (read_items rd cost n (slab - cost x) r1) (\<lambda>(xs, slab', r2). Ok (x # xs, slab', r2)))"

definition readOutPoint :: "bytes \<Rightarrow> ((bytes \<times> nat) \<times> bytes) outcome" where
  "readOutPoint r =
     bind (ReadFull 32 r) (\<lambda>(h, r1). bind (ReadFull 4 r1) (\<lambda>(i, r2). Ok ((h, le_value i), r2)))"

definition readTxIn :: "nat \<Rightarrow> bytes \<Rightarrow> (TxIn \<times> bytes) outcome" where
  "readTxIn slab r =
     bind (readOutPoint r) (\<lambda>(op, r1).
     bind (readScript MaxMessagePayload slab r1) (\<lambda>(script, r2).
     bind (ReadFull 4 r2) (\<lambda>(sq, r3).
       Ok (\<lparr>PreviousOutPoint = op, SignatureScript = script, Witness = [], Sequence = int (le_value sq)\<rparr>, r3))))"

definition readTxOut :: "nat \<Rightarrow> bytes \<Rightarrow> (TxOut \<times> bytes) outcome" where
  "readTxOut slab r =
     bind (ReadFull 8 r) (\<lambda>(v, r1).
     bind (readScript MaxMessagePayload slab r1) (\<lambda>(script, r2).
       Ok (\<lparr>out_Value = wrap64 (int (le_value v)), PkScript = script\<rparr>, r2)))"

definition read_witness :: "nat \<Rightarrow> bytes \<Rightarrow> (bytes list \<times> bytes) outcome" where
  "read_witness slab r =
     bind (ReadVarInt r) (\<lambda>(witCount, r1).
       if witCount > maxWitnessItemsPerInput then Err ''too many witness items''
       else bind (read_items (readScript maxWitnessItemSize) length witCount slab r1) (\<lambda>(wit, _, r2). Ok (wit, r2)))"

text \<open>
  The head of a transaction: its version, whether the witness flag is there, and the number of
  inputs.
\<close>

definition read_head :: "MessageEncoding \<Rightarrow> bytes \<Rightarrow> (int \<times> bool \<times> nat \<times> bytes) outcome" where
  "read_head enc r =
     bind (ReadFull 4 r) (\<lambda>(v, r1).
     bind (ReadVarInt r1) (\<lambda>(count, r2).
       let version = wrap32 (int (le_value v))
       in if count = 0 \<and> enc = WitnessEncoding
          then bind (ReadFull 1 r2) (\<lambda>(flag, r3).
               if flag ! 0 \<noteq> 1 then Err ''witness tx but flag byte''
               else bind (ReadVarInt r3) (\<lambda>(count', r4). Ok (version, True, count', r4)))
          else Ok (version, False, count, r2)))"

definition btcDecode :: "MessageEncoding \<Rightarrow> nat \<Rightarrow> bytes \<Rightarrow> (MsgTx \<times> bytes) outcome" where
  "btcDecode enc slab r =
     bind (read_head enc r) (\<lambda>(version, flag, count, r1).
       if count > maxTxInPerMessage then Err ''too many input transactions''
       else bind (read_items readTxIn (\<lambda>ti. length (SignatureScript ti)) count slab r1) (\<lambda>(tis, slab1, r2).
       bind (ReadVarInt r2) (\<lambda>(count', r3).
       if count' > maxTxOutPerMessage then Err ''too many output transactions''
       else bind (read_items readTxOut (\<lambda>to. length (PkScript to)) count' slab1 r3) (\<lambda>(tos, slab2, r4).
       bind (if flag then read_items read_witness (\<lambda>w. sum_list (map length w)) (length tis) slab2 r4
             else Ok (replicate (length tis) [], slab2, r4)) (\<lambda>(wits, _, r5).
       bind (ReadFull 4 r5) (\<lambda>(lt, r6).
         Ok (\<lparr>Version = version, TxIns = map2 (\<lambda>ti w. ti\<lparr>Witness := w\<rparr>) tis wits, TxOuts = tos,
              LockTime = int (le_value lt)\<rparr>, r6)))))))"

definition Deserialize :: "bytes \<Rightarrow> (MsgTx \<times> bytes) outcome" where
  "Deserialize r = btcDecode WitnessEncoding scriptSlabSize r"

definition DeserializeNoWitness :: "bytes \<Rightarrow> (MsgTx \<times> bytes) outcome" where
  "DeserializeNoWitness r = btcDecode BaseEncoding scriptSlabSize r"

section \<open>Codecs\<close>

text \<open>
  The contract between a writer and its reader: what is written is read back, whatever follows, as
  long as the slab has room, and a reader accepts nothing but what the writer writes.
\<close>

locale slab_codec =
  fixes wr :: "'a \<Rightarrow> bytes"
    and rd :: "nat \<Rightarrow> bytes \<Rightarrow> ('a \<times> bytes) outcome"
    and cost :: "'a \<Rightarrow> nat"
    and ok :: "'a \<Rightarrow> bool"
  assumes reads: "ok x \<Longrightarrow> cost x \<le> slab \<Longrightarrow> rd slab (wr x @ r) = Ok (x, r)"
    and writes: "rd slab r = Ok (x, r') \<Longrightarrow> ok x \<and> cost x \<le> slab \<and> r = wr x @ r'"
begin

lemma items_read:
  assumes "list_all ok xs" and "sum_list (map cost xs) \<le> slab"
  shows "read_items rd cost (length xs) slab (concat (map wr xs) @ r) = Ok (xs, slab - sum_list (map cost xs), r)"
  using assms
proof (induction xs arbitrary: slab)
  case (Cons x xs)
  then show ?case
    using reads [of x slab "concat (map wr xs) @ r"] Cons.IH [of "slab - cost x"] by simp
qed simp

lemma items_written:
  assumes "read_items rd cost n slab r = Ok (xs, slab', r')"
  shows "length xs = n \<and> list_all ok xs \<and> sum_list (map cost xs) \<le> slab \<and> slab' = slab - sum_list (map cost xs) \<and>
    r = concat (map wr xs) @ r'"
  using assms
proof (induction n arbitrary: slab r xs)
  case (Suc n)
  then obtain x xs' r1 where x: "rd slab r = Ok (x, r1)" "xs = x # xs'"
      and "read_items rd cost n (slab - cost x) r1 = Ok (xs', slab', r')"
    by (auto simp: bind_Ok_iff)
  with Suc.IH [of "slab - cost x" r1 xs'] writes [OF x(1)] show ?case
    by auto
qed simp

end

lemma ReadFull_append [simp]: "length xs = n \<Longrightarrow> ReadFull n (xs @ r) = Ok (xs, r)"
  by (simp add: ReadFull_def)

lemma ReadFull_OkD: "ReadFull n r = Ok (b, r') \<Longrightarrow> length b = n \<and> r = b @ r'"
  by (auto simp: ReadFull_def split: if_splits)

lemma uint_bytes_value [simp]:
  "length (uint32_bytes x) = 4" "length (uint64_bytes x) = 8"
  "int (le_value (uint32_bytes x)) = x mod 2 ^ 32" "int (le_value (uint64_bytes x)) = x mod 2 ^ 64"
  by (simp_all add: uint32_bytes_def uint64_bytes_def le_value_le_bytes)

lemma uint_bytes_of_value:
  "length b = 4 \<Longrightarrow> int (le_value b) mod 2 ^ 32 = x mod 2 ^ 32 \<Longrightarrow> uint32_bytes x = b"
  "length b = 8 \<Longrightarrow> int (le_value b) mod 2 ^ 64 = x mod 2 ^ 64 \<Longrightarrow> uint64_bytes x = b"
proof -
  have "nat (int (le_value b) mod 2 ^ 32) = le_value b" if "length b = 4"
    using le_value_less [of b] that by simp
  then show "length b = 4 \<Longrightarrow> int (le_value b) mod 2 ^ 32 = x mod 2 ^ 32 \<Longrightarrow> uint32_bytes x = b"
    using le_bytes_le_value [of b] by (simp add: uint32_bytes_def)
  have "nat (int (le_value b) mod 2 ^ 64) = le_value b" if "length b = 8"
    using le_value_less [of b] that by simp
  then show "length b = 8 \<Longrightarrow> int (le_value b) mod 2 ^ 64 = x mod 2 ^ 64 \<Longrightarrow> uint64_bytes x = b"
    using le_bytes_le_value [of b] by (simp add: uint64_bytes_def)
qed

lemma read_uint_append:
  "least \<le> n \<Longrightarrow> n < 256 ^ k \<Longrightarrow> read_uint k least (le_bytes k n @ r) = Ok (n, r)"
  by (simp add: read_uint_def le_value_le_bytes Let_def)

lemma read_uint_OkD:
  "read_uint k least r = Ok (n, r') \<Longrightarrow> least \<le> n \<and> n < 256 ^ k \<and> r = le_bytes k n @ r'"
  using le_bytes_le_value le_value_less
  by (auto simp: read_uint_def bind_Ok_iff Let_def split: if_splits dest!: ReadFull_OkD)

interpretation varint: slab_codec WriteVarInt "\<lambda>_. ReadVarInt" "\<lambda>_. 0" "\<lambda>n. n < 2 ^ 64"
proof
  fix x slab :: nat and r :: bytes
  assume x: "x < 2 ^ 64"
  have one: "ReadFull 1 (b # bs) = Ok ([b], bs)" "ReadFull (Suc 0) (b # bs) = Ok ([b], bs)" for b :: byte and bs
    by (simp_all add: ReadFull_def)
  have small: "ReadVarInt (le_bytes 1 x @ r) = Ok (x, r)" if "x < 253"
  proof -
    have "unat (of_nat x :: byte) = x"
      using that by (simp add: unat_of_nat)
    moreover from this have "(of_nat x :: byte) \<noteq> 255" "(of_nat x :: byte) \<noteq> 254" "(of_nat x :: byte) \<noteq> 253"
      using that by auto
    ultimately show ?thesis
      using that by (simp add: ReadVarInt_def one Let_def)
  qed
  show "ReadVarInt (WriteVarInt x @ r) = Ok (x, r)"
    using x small by (auto simp: WriteVarInt_def ReadVarInt_def one Let_def read_uint_append)
next
  fix slab x :: nat and r r' :: bytes
  assume "ReadVarInt r = Ok (x, r')"
  then obtain b r1 where r: "r = b # r1" and rest:
      "(if b = 0xff then read_uint 8 0x100000000 r1 else if b = 0xfe then read_uint 4 0x10000 r1
        else if b = 0xfd then read_uint 2 0xfd r1 else Ok (unat b, r1)) = Ok (x, r')"
    by (auto simp: ReadVarInt_def bind_Ok_iff Let_def length_Suc_conv cong: if_cong dest!: ReadFull_OkD)
  have "x < 2 ^ 64 \<and> r = WriteVarInt x @ r'" if "b \<noteq> 0xff" "b \<noteq> 0xfe" "b \<noteq> 0xfd"
  proof -
    have "unat b \<noteq> unat (0xff :: byte)" "unat b \<noteq> unat (0xfe :: byte)" "unat b \<noteq> unat (0xfd :: byte)"
      using that by (simp_all only: word_unat_eq_iff [symmetric] not_False_eq_True)
    then have "unat b < 253"
      using unat_byte_less [of b] by simp
    then show ?thesis
      using rest r that by (auto simp: WriteVarInt_def)
  qed
  moreover have "x < 2 ^ 64 \<and> r = WriteVarInt x @ r'" if "b = 0xff \<or> b = 0xfe \<or> b = 0xfd"
    using that rest r by (auto simp: WriteVarInt_def dest!: read_uint_OkD split: if_splits)
  ultimately show "x < 2 ^ 64 \<and> 0 \<le> slab \<and> r = WriteVarInt x @ r'"
    by blast
qed

lemma readScript_reads:
  assumes "length x \<le> maxAllowed" and "maxAllowed < 2 ^ 64" and "length x \<le> slab"
  shows "readScript maxAllowed slab (WriteVarBytes x @ r) = Ok (x, r)"
  using assms varint.reads [of "length x" 0 "x @ r"] by (simp add: readScript_def WriteVarBytes_def)

lemma readScript_writes:
  assumes "readScript maxAllowed slab r = Ok (x, r')"
  shows "length x \<le> maxAllowed \<and> length x \<le> slab \<and> r = WriteVarBytes x @ r'"
  using assms
  by (auto simp: readScript_def WriteVarBytes_def bind_Ok_iff split: if_splits dest!: varint.writes ReadFull_OkD)

interpretation wit_item: slab_codec WriteVarBytes "readScript maxWitnessItemSize" length "\<lambda>w. length w \<le> maxWitnessItemSize"
  by unfold_locales (auto intro: readScript_reads dest: readScript_writes)

definition in_ok :: "TxIn \<Rightarrow> bool" where
  "in_ok ti \<longleftrightarrow> length (fst (PreviousOutPoint ti)) = 32 \<and> snd (PreviousOutPoint ti) < 2 ^ 32 \<and>
     length (SignatureScript ti) \<le> MaxMessagePayload \<and> 0 \<le> Sequence ti \<and> Sequence ti < 2 ^ 32"

definition out_ok :: "TxOut \<Rightarrow> bool" where
  "out_ok to \<longleftrightarrow> - (2 ^ 63) \<le> out_Value to \<and> out_Value to < 2 ^ 63 \<and> length (PkScript to) \<le> MaxMessagePayload"

definition wit_ok :: "bytes list \<Rightarrow> bool" where
  "wit_ok w \<longleftrightarrow> length w \<le> maxWitnessItemsPerInput \<and> list_all (\<lambda>e. length e \<le> maxWitnessItemSize) w"

lemma readOutPoint_reads:
  "length (fst op) = 32 \<Longrightarrow> snd op < 2 ^ 32 \<Longrightarrow> readOutPoint (writeOutPoint op @ r) = Ok (op, r)"
  by (cases op) (simp add: readOutPoint_def writeOutPoint_def uint32_bytes_def le_value_le_bytes)

lemma readOutPoint_writes:
  assumes "readOutPoint r = Ok (op, r')"
  shows "length (fst op) = 32 \<and> snd op < 2 ^ 32 \<and> r = writeOutPoint op @ r'"
proof -
  obtain h i where r: "r = h @ i @ r'" "length h = 32" "length i = 4" "op = (h, le_value i)"
    using assms by (auto simp: readOutPoint_def bind_Ok_iff dest!: ReadFull_OkD)
  moreover have "uint32_bytes (int (le_value i)) = i"
    using r(3) by (intro uint_bytes_of_value) simp_all
  ultimately show ?thesis
    using le_value_less [of i] by (simp add: writeOutPoint_def)
qed

interpretation input: slab_codec writeTxIn readTxIn "\<lambda>ti. length (SignatureScript ti)" "\<lambda>ti. in_ok ti \<and> Witness ti = []"
proof
  fix x :: TxIn and slab :: nat and r :: bytes
  assume "in_ok x \<and> Witness x = []" and "length (SignatureScript x) \<le> slab"
  then show "readTxIn slab (writeTxIn x @ r) = Ok (x, r)"
    by (cases x) (simp add: readTxIn_def writeTxIn_def in_ok_def readOutPoint_reads readScript_reads)
next
  fix slab :: nat and r r' :: bytes and x
  assume "readTxIn slab r = Ok (x, r')"
  then obtain op r1 scr r2 sq where r: "readOutPoint r = Ok (op, r1)" "readScript MaxMessagePayload slab r1 = Ok (scr, r2)"
      "length sq = 4" "r2 = sq @ r'"
      and x: "x = \<lparr>PreviousOutPoint = op, SignatureScript = scr, Witness = [], Sequence = int (le_value sq)\<rparr>"
    by (auto simp: readTxIn_def bind_Ok_iff dest!: ReadFull_OkD)
  moreover have "uint32_bytes (int (le_value sq)) = sq"
    using r(3) by (intro uint_bytes_of_value) simp_all
  ultimately show "(in_ok x \<and> Witness x = []) \<and> length (SignatureScript x) \<le> slab \<and> r = writeTxIn x @ r'"
    using readOutPoint_writes [OF r(1)] readScript_writes [OF r(2)] le_value_less [of sq]
    by (auto simp: writeTxIn_def in_ok_def)
qed

interpretation txout: slab_codec WriteTxOut readTxOut "\<lambda>to. length (PkScript to)" out_ok
proof
  fix x :: TxOut and slab :: nat and r :: bytes
  assume "out_ok x" and "length (PkScript x) \<le> slab"
  moreover have "wrap64 (out_Value x mod 18446744073709551616) = wrap64 (out_Value x)"
    using wrap_mod(3) [of "out_Value x"] by simp
  ultimately show "readTxOut slab (WriteTxOut x @ r) = Ok (x, r)"
    by (cases x) (simp add: readTxOut_def WriteTxOut_def out_ok_def readScript_reads)
next
  fix slab :: nat and r r' :: bytes and x
  assume "readTxOut slab r = Ok (x, r')"
  then obtain v scr r1 where r: "r = v @ r1" "length v = 8" "readScript MaxMessagePayload slab r1 = Ok (scr, r')"
      and x: "x = \<lparr>out_Value = wrap64 (int (le_value v)), PkScript = scr\<rparr>"
    by (auto simp: readTxOut_def bind_Ok_iff dest!: ReadFull_OkD)
  have "uint64_bytes (wrap64 (int (le_value v))) = v"
    using r(2) by (intro uint_bytes_of_value) (simp_all only: wrap_mod)
  with x r show "out_ok x \<and> length (PkScript x) \<le> slab \<and> r = WriteTxOut x @ r'"
    using readScript_writes [OF r(3)] wrap64_range by (auto simp: WriteTxOut_def out_ok_def)
qed

interpretation wit: slab_codec writeTxWitness read_witness "\<lambda>w. sum_list (map length w)" wit_ok
proof
  fix x :: "bytes list" and slab :: nat and r :: bytes
  assume "wit_ok x" and "sum_list (map length x) \<le> slab"
  then show "read_witness slab (writeTxWitness x @ r) = Ok (x, r)"
    using varint.reads [of "length x" 0 "concat (map WriteVarBytes x) @ r"] wit_item.items_read [of x slab r]
    by (simp add: read_witness_def writeTxWitness_def wit_ok_def)
next
  fix slab :: nat and r r' :: bytes and x
  assume "read_witness slab r = Ok (x, r')"
  then show "wit_ok x \<and> sum_list (map length x) \<le> slab \<and> r = writeTxWitness x @ r'"
    by (auto simp: read_witness_def writeTxWitness_def wit_ok_def bind_Ok_iff split: if_splits
        dest!: varint.writes wit_item.items_written)
qed

section \<open>Transactions\<close>

definition strip :: "TxIn \<Rightarrow> TxIn" where
  "strip ti = ti\<lparr>Witness := []\<rparr>"

definition stripped :: "MsgTx \<Rightarrow> MsgTx" where
  "stripped tx = tx\<lparr>TxIns := map strip (TxIns tx)\<rparr>"

definition script_bytes :: "MsgTx \<Rightarrow> nat" where
  "script_bytes tx = sum_list (map (\<lambda>ti. length (SignatureScript ti)) (TxIns tx)) +
     sum_list (map (\<lambda>to. length (PkScript to)) (TxOuts tx)) +
     sum_list (map (\<lambda>ti. sum_list (map length (Witness ti))) (TxIns tx))"

text \<open>A transaction that fits into a message: every field has its width and the scripts fit into the slab.\<close>

definition tx_ok :: "MsgTx \<Rightarrow> bool" where
  "tx_ok tx \<longleftrightarrow> - (2 ^ 31) \<le> Version tx \<and> Version tx < 2 ^ 31 \<and> 0 \<le> LockTime tx \<and> LockTime tx < 2 ^ 32 \<and>
     length (TxIns tx) \<le> maxTxInPerMessage \<and> length (TxOuts tx) \<le> maxTxOutPerMessage \<and>
     list_all (\<lambda>ti. in_ok ti \<and> wit_ok (Witness ti)) (TxIns tx) \<and> list_all out_ok (TxOuts tx) \<and>
     script_bytes tx \<le> scriptSlabSize"

lemma strip_simps [simp]:
  "SignatureScript (strip ti) = SignatureScript ti" "in_ok (strip ti) = in_ok ti" "Witness (strip ti) = []"
  "writeTxIn (strip ti) = writeTxIn ti"
  by (simp_all add: strip_def in_ok_def writeTxIn_def)

lemma rejoin: "map2 (\<lambda>ti w. ti\<lparr>Witness := w\<rparr>) (map strip tis) (map Witness tis) = tis"
  by (induction tis) (simp_all add: strip_def)

lemma rejoin_empty: "map2 (\<lambda>ti w. ti\<lparr>Witness := w\<rparr>) (map strip tis) (replicate (length tis) []) = map strip tis"
  by (induction tis) (simp_all add: strip_def)

lemma read_head_reads:
  assumes "- (2 ^ 31) \<le> v" and "v < 2 ^ 31" and "n < 2 ^ 64" and "enc = WitnessEncoding \<Longrightarrow> 0 < n" and "w \<Longrightarrow> enc = WitnessEncoding"
  shows "read_head enc (uint32_bytes v @ (if w then [0, 1] else []) @ WriteVarInt n @ r) = Ok (v, w, n, r)"
proof -
  have zero: "ReadVarInt (0 # bs) = Ok (0, bs)" for bs
    using varint.reads [of 0 0 bs] by (simp add: WriteVarInt_def)
  have one: "ReadFull (Suc 0) (1 # bs) = Ok ([1], bs)" for bs
    by (simp add: ReadFull_def)
  have "wrap32 (v mod 4294967296) = v"
    using wrap_mod(1) [of v] assms(1,2) by simp
  then show ?thesis
    using assms(3-5) varint.reads [of n 0 r] by (auto simp: read_head_def zero one)
qed

lemma btcDecode_reads:
  assumes "tx_ok tx" and "enc = WitnessEncoding \<Longrightarrow> TxIns tx \<noteq> []"
  shows "btcDecode enc scriptSlabSize (btcEncode enc tx @ r) =
    Ok (if enc = WitnessEncoding then tx else stripped tx, r)"
proof -
  let ?w = "enc = WitnessEncoding \<and> HasWitness tx"
  let ?a = "sum_list (map (\<lambda>ti. length (SignatureScript ti)) (TxIns tx))"
  let ?b = "sum_list (map (\<lambda>to. length (PkScript to)) (TxOuts tx))"
  let ?slab = "scriptSlabSize - ?a - ?b"
  let ?tail = "uint32_bytes (LockTime tx) @ r"
  let ?wits = "if ?w then concat (map writeTxWitness (map Witness (TxIns tx))) else []"
  let ?outs = "concat (map WriteTxOut (TxOuts tx))"
  have "length (TxIns tx) < 2 ^ 64" and outs: "length (TxOuts tx) < 2 ^ 64"
    using assms(1) by (auto simp: tx_ok_def)
  then have head: "read_head enc (uint32_bytes (Version tx) @ (if ?w then [0, 1] else []) @ WriteVarInt (length (TxIns tx)) @ x) =
      Ok (Version tx, ?w, length (TxIns tx), x)" for x
    using assms by (intro read_head_reads) (auto simp: tx_ok_def)
  have fits: "?b \<le> scriptSlabSize - ?a" "sum_list (map (\<lambda>ti. sum_list (map length (Witness ti))) (TxIns tx)) \<le> ?slab"
    using assms(1) unfolding tx_ok_def script_bytes_def by linarith+
  have ins: "read_items readTxIn (\<lambda>ti. length (SignatureScript ti)) (length (TxIns tx)) scriptSlabSize
      (concat (map writeTxIn (TxIns tx)) @ x) = Ok (map strip (TxIns tx), scriptSlabSize - ?a, x)" for x
    using input.items_read [of "map strip (TxIns tx)" scriptSlabSize x] assms(1)
    by (simp add: comp_def tx_ok_def list_all_iff script_bytes_def)
  have rd_outs: "read_items readTxOut (\<lambda>to. length (PkScript to)) (length (TxOuts tx)) (scriptSlabSize - ?a) (?outs @ x) =
      Ok (TxOuts tx, ?slab, x)" for x
    using txout.items_read [of "TxOuts tx" "scriptSlabSize - ?a" x] fits(1) assms(1) by (simp add: tx_ok_def)
  have rd_wits: "read_items read_witness (\<lambda>w. sum_list (map length w)) (length (TxIns tx)) ?slab
      (concat (map (\<lambda>ti. writeTxWitness (Witness ti)) (TxIns tx)) @ x) =
      Ok (map Witness (TxIns tx), ?slab - sum_list (map (\<lambda>ti. sum_list (map length (Witness ti))) (TxIns tx)), x)" for x
    using wit.items_read [of "map Witness (TxIns tx)" ?slab x] fits(2) assms(1)
    by (simp add: tx_ok_def list_all_iff comp_def)
  have same: "map strip (TxIns tx) = TxIns tx" if "\<not> HasWitness tx"
    using that by (simp add: HasWitness_def list_ex_iff strip_def map_idI)
  have lt: "LockTime tx mod 4294967296 = LockTime tx"
    using assms(1) by (simp add: tx_ok_def)
  have "length (TxIns tx) \<le> maxTxInPerMessage" and "length (TxOuts tx) \<le> maxTxOutPerMessage"
    using assms(1) by (simp_all add: tx_ok_def)
  then show ?thesis
    using same head ins varint.reads [OF outs] rd_outs rd_wits lt
    by (auto simp: btcDecode_def btcEncode_def Let_def rejoin rejoin_empty stripped_def)
qed


lemma read_head_writes:
  assumes "read_head enc r = Ok (v, w, n, r')"
  shows "(w \<longrightarrow> enc = WitnessEncoding) \<and> - (2 ^ 31) \<le> v \<and> v < 2 ^ 31 \<and>
    r = uint32_bytes v @ (if w then [0, 1] else []) @ WriteVarInt n @ r'"
proof -
  obtain b r1 c r2 where r: "r = b @ r1" "length b = 4" and c: "ReadVarInt r1 = Ok (c, r2)"
      and v: "v = wrap32 (int (le_value b))"
      and rest: "(if c = 0 \<and> enc = WitnessEncoding
         then bind (ReadFull 1 r2) (\<lambda>(flag, r3).
               if flag ! 0 \<noteq> 1 then Err ''witness tx but flag byte''
               else bind (ReadVarInt r3) (\<lambda>(count', r4). Ok (v, True, count', r4)))
          else Ok (v, False, c, r2)) = Ok (v, w, n, r')"
    using assms by (auto simp: read_head_def bind_Ok_iff Let_def dest!: ReadFull_OkD split: if_splits)
  have bytes: "uint32_bytes v = b"
    using r(2) v by (intro uint_bytes_of_value) (simp_all only: wrap_mod)
  have "- (2 ^ 31) \<le> v \<and> v < 2 ^ 31"
    using v signed_take_bit_int_greater_eq_minus_exp [of 31] signed_take_bit_int_less_exp [of 31]
    by (simp add: wrap32_def)
  moreover have "r1 = WriteVarInt c @ r2"
    using varint.writes [OF c] by simp
  ultimately show ?thesis
    using rest r(1) bytes
    by (auto simp: bind_Ok_iff length_Suc_conv WriteVarInt_def [of 0] split: if_splits dest!: ReadFull_OkD varint.writes)
qed

lemma map2_witness:
  "length ws = length tis \<Longrightarrow> map Witness (map2 (\<lambda>ti w. ti\<lparr>Witness := w\<rparr>) tis ws) = ws"
  "length ws = length tis \<Longrightarrow> list_all (\<lambda>ti. in_ok ti \<and> Witness ti = []) tis \<Longrightarrow>
     map strip (map2 (\<lambda>ti w. ti\<lparr>Witness := w\<rparr>) tis ws) = tis"
  by (induction ws tis rule: list_induct2) (auto simp: strip_def)

lemma map_strip:
  assumes "map strip xs = ys" and "map Witness xs = ws"
  shows "concat (map writeTxIn ys) = concat (map writeTxIn xs)"
    and "concat (map writeTxWitness ws) = concat (map (\<lambda>ti. writeTxWitness (Witness ti)) xs)"
    and "list_all (\<lambda>ti. in_ok ti \<and> Witness ti = []) ys = list_all in_ok xs" and "list_all wit_ok ws = list_all (\<lambda>ti. wit_ok (Witness ti)) xs"
    and "map (\<lambda>ti. length (SignatureScript ti)) ys = map (\<lambda>ti. length (SignatureScript ti)) xs"
    and "length ys = length xs"
  using assms by (auto simp: comp_def list_all_iff)

text \<open>What the decoder has read, when it has read a transaction.\<close>

lemma btcDecode_writes:
  assumes "btcDecode enc scriptSlabSize r = Ok (tx, r')"
  shows "tx_ok tx \<and> (\<exists>w. (w \<longrightarrow> enc = WitnessEncoding) \<and> (HasWitness tx \<longrightarrow> w) \<and>
    r = uint32_bytes (Version tx) @ (if w then [0, 1] else []) @
         WriteVarInt (length (TxIns tx)) @ concat (map writeTxIn (TxIns tx)) @
         WriteVarInt (length (TxOuts tx)) @ concat (map WriteTxOut (TxOuts tx)) @
         (if w then concat (map (\<lambda>ti. writeTxWitness (Witness ti)) (TxIns tx)) else []) @
         uint32_bytes (LockTime tx) @ r')"
proof -
  obtain v w n r1 tis slab1 r2 c r3 tos slab2 r4 ws slab3 r5 lt where
      hd: "read_head enc r = Ok (v, w, n, r1)" and n: "n \<le> maxTxInPerMessage"
      and ins: "read_items readTxIn (\<lambda>ti. length (SignatureScript ti)) n scriptSlabSize r1 = Ok (tis, slab1, r2)"
      and c: "ReadVarInt r2 = Ok (c, r3)" "c \<le> maxTxOutPerMessage"
      and outs: "read_items readTxOut (\<lambda>to. length (PkScript to)) c slab1 r3 = Ok (tos, slab2, r4)"
      and wits: "(if w then read_items read_witness (\<lambda>w. sum_list (map length w)) (length tis) slab2 r4
             else Ok (replicate (length tis) [], slab2, r4)) = Ok (ws, slab3, r5)"
      and lt: "r5 = lt @ r'" "length lt = 4"
      and tx: "tx = \<lparr>Version = v, TxIns = map2 (\<lambda>ti w. ti\<lparr>Witness := w\<rparr>) tis ws, TxOuts = tos, LockTime = int (le_value lt)\<rparr>"
    using assms by (auto simp: btcDecode_def bind_Ok_iff if_Err_Ok_iff not_less dest!: ReadFull_OkD)
  note ins' = input.items_written [OF ins] and outs' = txout.items_written [OF outs]
  have ws: "length ws = length tis \<and> list_all wit_ok ws \<and> sum_list (map (\<lambda>w. sum_list (map length w)) ws) \<le> slab2 \<and>
      r4 = (if w then concat (map writeTxWitness ws) else []) @ r5 \<and> (list_ex (\<lambda>x. x \<noteq> []) ws \<longrightarrow> w)"
  proof (cases w)
    case True
    then show ?thesis
      using wits wit.items_written by fastforce
  next
    case False
    then show ?thesis
      using wits by (auto simp: list_all_iff list_ex_iff wit_ok_def comp_def sum_list_replicate)
  qed
  define xs where "xs = map2 (\<lambda>ti w. ti\<lparr>Witness := w\<rparr>) tis ws"
  have xs: "map strip xs = tis" "map Witness xs = ws" "length xs = length tis"
    using ws ins' map2_witness [of ws tis] by (simp_all add: xs_def)
  note simps = map_strip [OF xs(1,2)]
  have bytes: "uint32_bytes (int (le_value lt)) = lt"
    using lt(2) by (intro uint_bytes_of_value) simp_all
  have hw: "HasWitness tx \<longleftrightarrow> list_ex (\<lambda>x. x \<noteq> []) ws"
    using xs(2) by (auto simp: HasWitness_def tx xs_def [symmetric] list_ex_iff)
  have total: "script_bytes tx \<le> scriptSlabSize"
    using ws ins' outs' simps(5) xs(2) by (auto simp: script_bytes_def tx xs_def [symmetric] comp_def)
  have "tx_ok tx"
    using read_head_writes [OF hd] n c(2) ins' outs' ws lt(2) le_value_less [of lt] simps total
    by (simp add: tx_ok_def tx xs_def [symmetric] list_all_iff)
  moreover have "r = uint32_bytes v @ (if w then [0, 1] else []) @ WriteVarInt (length xs) @ concat (map writeTxIn xs) @
      WriteVarInt (length tos) @ concat (map WriteTxOut tos) @
      (if w then concat (map (\<lambda>ti. writeTxWitness (Witness ti)) xs) else []) @ lt @ r'"
  proof -
    have "r = uint32_bytes v @ (if w then [0, 1] else []) @ WriteVarInt n @ r1"
        and "r1 = concat (map writeTxIn tis) @ r2" and "r2 = WriteVarInt c @ r3" and "r3 = concat (map WriteTxOut tos) @ r4"
        and "r4 = (if w then concat (map writeTxWitness ws) else []) @ r5" and "n = length xs" and "c = length tos"
      using read_head_writes [OF hd] ins' outs' ws varint.writes [OF c(1)] xs(3) by simp_all
    then show ?thesis
      by (simp only: simps(1,2) lt(1) append_assoc)
  qed
  moreover have "w \<longrightarrow> enc = WitnessEncoding" and "HasWitness tx \<longrightarrow> w"
    using read_head_writes [OF hd] ws hw by simp_all
  ultimately show ?thesis
    using bytes by (auto simp: tx xs_def [symmetric])
qed

text \<open>
  C28: The decoder accepts only what the encoder writes.  If a transaction is read, it fits into a
  message, and the bytes read are its serialisation: no two byte strings give the same transaction.
  The one exception is a transaction marked as having witnesses when all of them are empty.
\<close>

theorem tx_canonical:
  assumes "btcDecode enc 4194304 r = Ok (tx, r')"
  shows "tx_ok tx \<and> (r = btcEncode enc tx @ r' \<or>
    enc = WitnessEncoding \<and> \<not> HasWitness tx \<and> take 2 (drop 4 r) = [0, 1])"
proof -
  obtain w where "tx_ok tx" and w: "w \<longrightarrow> enc = WitnessEncoding" "HasWitness tx \<longrightarrow> w"
    "r = uint32_bytes (Version tx) @ (if w then [0, 1] else []) @
         WriteVarInt (length (TxIns tx)) @ concat (map writeTxIn (TxIns tx)) @
         WriteVarInt (length (TxOuts tx)) @ concat (map WriteTxOut (TxOuts tx)) @
         (if w then concat (map (\<lambda>ti. writeTxWitness (Witness ti)) (TxIns tx)) else []) @
         uint32_bytes (LockTime tx) @ r'"
    using btcDecode_writes [OF assms] by blast
  then show ?thesis
    by (cases w) (auto simp: btcEncode_def Let_def)
qed

section \<open>Sizes\<close>

lemma length_WriteVarInt [simp]: "length (WriteVarInt n) = VarIntSerializeSize n"
  by (simp add: WriteVarInt_def VarIntSerializeSize_def)

lemma foldl_sizes: "foldl (\<lambda>n x. n + f x) a xs = a + sum_list (map f xs)" for a :: nat
  by (induction xs arbitrary: a) simp_all

lemma length_writeTxWitness: "length (writeTxWitness w) = witness_SerializeSize w"
proof -
  have "(\<lambda>n item. n + VarIntSerializeSize (length item) + length item) =
      (\<lambda>n item :: bytes. n + (VarIntSerializeSize (length item) + length item))"
    by (simp add: add.assoc)
  then show ?thesis
    by (simp add: writeTxWitness_def witness_SerializeSize_def foldl_sizes WriteVarBytes_def length_concat comp_def)
qed

lemma length_writeTxIn: "length (fst (PreviousOutPoint ti)) = 32 \<Longrightarrow> length (writeTxIn ti) = TxIn_SerializeSize ti"
  by (simp add: writeTxIn_def writeOutPoint_def WriteVarBytes_def TxIn_SerializeSize_def)

lemma length_WriteTxOut: "length (WriteTxOut to) = TxOut_SerializeSize to"
  by (simp add: WriteTxOut_def WriteVarBytes_def TxOut_SerializeSize_def)

lemma length_btcEncode:
  assumes "list_all (\<lambda>ti. length (fst (PreviousOutPoint ti)) = 32) (TxIns tx)"
  shows "length (btcEncode enc tx) = (if enc = WitnessEncoding then SerializeSize tx else baseSize tx)"
proof -
  have "sum_list (map (\<lambda>ti. length (writeTxIn ti)) (TxIns tx)) = sum_list (map TxIn_SerializeSize (TxIns tx))"
    using assms by (intro arg_cong [where f = sum_list] map_cong) (auto simp: list_all_iff length_writeTxIn)
  then show ?thesis
    by (cases enc) (simp_all add: btcEncode_def SerializeSize_def baseSize_def Let_def length_concat comp_def foldl_sizes
        length_WriteTxOut length_writeTxWitness)
qed

text \<open>
  The announced sizes are right.  \<^verbatim>\<open>SerializeSize\<close> and \<^verbatim>\<open>SerializeSizeStripped\<close>, which
  only add up numbers, give the lengths of the two serialisations.
\<close>

theorem tx_sizes:
  assumes "list_all (\<lambda>ti. length (fst (PreviousOutPoint ti)) = 32) (TxIns tx)"
  shows "length (Serialize tx) = SerializeSize tx \<and> length (SerializeNoWitness tx) = SerializeSizeStripped tx"
  using length_btcEncode [OF assms] by (simp add: Serialize_def SerializeNoWitness_def SerializeSizeStripped_def)

section \<open>A panic\<close>

text \<open>
  C29: A message that crashes the decoder.  The limit on a script length is 32 MiB, but the slab the
  script is read into has 4 MiB: a message whose first input claims a signature script of more than
  4 and at most 32 MiB makes the decoder panic before it reads a byte of the script, so the message
  need not be that long.
\<close>

theorem tx_decode_panics:
  assumes "length v = 4" and "length out = 36" and "4194304 < n" and "n \<le> 33554432"
  shows "Deserialize (v @ [1] @ out @ WriteVarInt n @ r) = Panic ''slice bounds out of range''"
proof -
  have one: "ReadVarInt (1 # bs) = Ok (1, bs)" for bs
    using varint.reads [of 1 0 bs] by (simp add: WriteVarInt_def)
  have "read_head WitnessEncoding (v @ [1] @ out @ WriteVarInt n @ r) = Ok (wrap32 (int (le_value v)), False, 1, out @ WriteVarInt n @ r)"
    using assms(1) by (simp add: read_head_def one Let_def)
  moreover have "readOutPoint (out @ WriteVarInt n @ r) = Ok ((take 32 out, le_value (drop 32 out)), WriteVarInt n @ r)"
  proof -
    have "out = take 32 out @ drop 32 out" and "length (take 32 out) = 32" and "length (drop 32 out) = 4"
      using assms(2) by simp_all
    then obtain h i where "out = h @ i" "length h = 32" "length i = 4"
      by blast
    then show ?thesis
      by (simp add: readOutPoint_def)
  qed
  ultimately show ?thesis
    using assms(3,4) varint.reads [of n 0 r]
    by (simp add: Deserialize_def btcDecode_def readTxIn_def readScript_def)
qed

section \<open>Witnesses\<close>

definition sample_spend :: MsgTx where
  "sample_spend = \<lparr>Version = 1, TxIns = [\<lparr>PreviousOutPoint = (replicate 32 7, 0), SignatureScript = [0x51], Witness = [[2]], Sequence = 5\<rparr>],
     TxOuts = [\<lparr>out_Value = 9, PkScript = [0x51]\<rparr>], LockTime = 0\<rparr>"

lemma sample_spend_ok: "tx_ok sample_spend"
  by (simp add: tx_ok_def sample_spend_def in_ok_def out_ok_def wit_ok_def script_bytes_def)


theorem tx_canonical_witness:
  "\<exists>tx. DeserializeNoWitness (SerializeNoWitness sample_spend) = Ok (tx, []) \<and> SerializeNoWitness sample_spend = SerializeNoWitness tx"
proof -
  have "btcDecode BaseEncoding 4194304 (SerializeNoWitness sample_spend) = Ok (stripped sample_spend, [])"
    using btcDecode_reads [OF sample_spend_ok, of BaseEncoding "[]"] by (simp add: SerializeNoWitness_def)
  from this tx_canonical [OF this] show ?thesis
    by (auto simp: DeserializeNoWitness_def SerializeNoWitness_def)
qed

theorem tx_sizes_witness: "length (Serialize sample_spend) = 67 \<and> SerializeSizeStripped sample_spend = 62"
  using tx_sizes [of sample_spend]
  by (simp add: sample_spend_def SerializeSize_def baseSize_def SerializeSizeStripped_def HasWitness_def TxIn_SerializeSize_def
      TxOut_SerializeSize_def witness_SerializeSize_def VarIntSerializeSize_def)

theorem tx_decode_panics_witness:
  "Deserialize ([1, 0, 0, 0, 1] @ replicate 36 0 @ [0xfe, 0x40, 0x4b, 0x4c, 0x00]) = Panic ''slice bounds out of range''"
proof -
  have "WriteVarInt 5000000 = [0xfe, 0x40, 0x4b, 0x4c, 0x00]"
    by (simp add: WriteVarInt_def le_bytes_map upt_rec)
  then show ?thesis
    using tx_decode_panics [of "[1, 0, 0, 0]" "replicate 36 0" 5000000 "[]"] by simp
qed

end
