(* ===== verification/Script_Sighash.thy ===== *)
theory Script_Sighash
  imports Script_Tokenizer Wire_Tx "HOL-Library.Sublist"
begin

text \<open>
  What a signature signs (\<^verbatim>\<open>coin/OrcaNet/txscript/sighash.go\<close>, \<^verbatim>\<open>hashcache.go\<close> and the
  script rewriting of \<^verbatim>\<open>script.go\<close>): the legacy, segwit and taproot signature hashes.  SHA-256
  is an argument.  Looking up a previous output is a function that may not find it; the code then
  dereferences a nil pointer, which is a panic here.
\<close>

section \<open>Rewriting scripts\<close>

definition isCanonicalPush :: "nat \<Rightarrow> bytes \<Rightarrow> bool" where
  "isCanonicalPush opc data =
     (let dataLen = length data
      in if opc > OP_16 then True
         else if opc < OP_PUSHDATA1 \<and> opc > OP_0 \<and> dataLen = 1 \<and> data ! 0 \<le> 16 then False
         else if opc = OP_PUSHDATA1 \<and> dataLen < OP_PUSHDATA1 then False
         else if opc = OP_PUSHDATA2 \<and> dataLen \<le> 0xff then False
         else if opc = OP_PUSHDATA4 \<and> dataLen \<le> 0xffff then False
         else True)"

text \<open>
  The loop shared by \<^verbatim>\<open>removeOpcodeRaw\<close> and \<^verbatim>\<open>removeOpcodeByData\<close>: nothing is copied until
  the first opcode that has to go.
\<close>

function remove_loop :: "(nat \<Rightarrow> bytes \<Rightarrow> bool) \<Rightarrow> ScriptTokenizer \<Rightarrow> bytes option \<Rightarrow> bytes option" where
  "remove_loop gone t result =
     (case tk_Next t of
        (True, t') \<Rightarrow>
          remove_loop gone t'
            (if gone (tk_op t') (tk_data t')
             then (case result of None \<Rightarrow> Some (take (tk_offset t) (tk_script t)) | Some r \<Rightarrow> Some r)
             else map_option (\<lambda>r. r @ take (tk_offset t' - tk_offset t) (drop (tk_offset t) (tk_script t))) result)
      | (False, _) \<Rightarrow> result)"
  by pat_completeness auto
termination
  by (relation "measure (\<lambda>(d, t, r). tk_left t)") (auto intro: tk_Next_measure)

declare remove_loop.simps [simp del]

definition removeOpcodeRaw :: "bytes \<Rightarrow> nat \<Rightarrow> bytes" where
  "removeOpcodeRaw script opcode =
     (if script = [] then script
      else case remove_loop (\<lambda>opc _. opc = opcode) (MakeScriptTokenizer 0 script) None of None \<Rightarrow> script | Some r \<Rightarrow> r)"

definition removeOpcodeByData :: "bytes \<Rightarrow> bytes \<Rightarrow> bytes" where
  "removeOpcodeByData script dataToRemove =
     (if script = [] \<or> dataToRemove = [] then script
      else case remove_loop (\<lambda>opc data. isCanonicalPush opc data \<and> sublist dataToRemove data)
                  (MakeScriptTokenizer 0 script) None of None \<Rightarrow> script | Some r \<Rightarrow> r)"

definition extractWitnessPubKeyHash :: "bytes \<Rightarrow> bytes option" where
  "extractWitnessPubKeyHash script =
     (if length script = 22 \<and> script ! 0 = 0 \<and> script ! 1 = 0x14 then Some (take 20 (drop 2 script)) else None)"

definition extractWitnessV1KeyBytes :: "bytes \<Rightarrow> bytes option" where
  "extractWitnessV1KeyBytes script =
     (if length script = 34 \<and> script ! 0 = 0x51 \<and> script ! 1 = 0x20 then Some (take 32 (drop 2 script)) else None)"

section \<open>Hashes\<close>

abbreviation (input) zeroHash :: bytes where "zeroHash \<equiv> replicate 32 0"

definition tag_bytes :: "string \<Rightarrow> bytes" where
  "tag_bytes s = map (\<lambda>c. of_nat (of_char c)) s"

definition TaggedHash :: "(bytes \<Rightarrow> bytes) \<Rightarrow> string \<Rightarrow> bytes \<Rightarrow> bytes" where
  "TaggedHash sha tag msg = (let shaTag = sha (tag_bytes tag) in sha (shaTag @ shaTag @ msg))"

definition calcHashPrevOuts :: "(bytes \<Rightarrow> bytes) \<Rightarrow> MsgTx \<Rightarrow> bytes" where
  "calcHashPrevOuts sha tx = sha (concat (map (\<lambda>ti. writeOutPoint (PreviousOutPoint ti)) (TxIns tx)))"

definition calcHashSequence :: "(bytes \<Rightarrow> bytes) \<Rightarrow> MsgTx \<Rightarrow> bytes" where
  "calcHashSequence sha tx = sha (concat (map (\<lambda>ti. uint32_bytes (Sequence ti)) (TxIns tx)))"

definition calcHashOutputs :: "(bytes \<Rightarrow> bytes) \<Rightarrow> MsgTx \<Rightarrow> bytes" where
  "calcHashOutputs sha tx = sha (concat (map WriteTxOut (TxOuts tx)))"

type_synonym PrevOutputFetcher = "bytes \<times> nat \<Rightarrow> TxOut option"

definition fetch_output :: "PrevOutputFetcher \<Rightarrow> bytes \<times> nat \<Rightarrow> TxOut outcome" where
  "fetch_output fetch op = (case fetch op of Some out \<Rightarrow> Ok out | None \<Rightarrow> Panic ''nil pointer dereference'')"

fun prev_outputs :: "PrevOutputFetcher \<Rightarrow> TxIn list \<Rightarrow> TxOut list outcome" where
  "prev_outputs fetch [] = Ok []"
| "prev_outputs fetch (ti # tis) =
     bind (fetch_output fetch (PreviousOutPoint ti)) (\<lambda>out. bind (prev_outputs fetch tis) (\<lambda>outs. Ok (out # outs)))"

definition calcHashInputAmounts :: "(bytes \<Rightarrow> bytes) \<Rightarrow> MsgTx \<Rightarrow> PrevOutputFetcher \<Rightarrow> bytes outcome" where
  "calcHashInputAmounts sha tx fetch =
     bind (prev_outputs fetch (TxIns tx)) (\<lambda>outs. Ok (sha (concat (map (\<lambda>out. uint64_bytes (out_Value out)) outs))))"

definition calcHashInputScripts :: "(bytes \<Rightarrow> bytes) \<Rightarrow> MsgTx \<Rightarrow> PrevOutputFetcher \<Rightarrow> bytes outcome" where
  "calcHashInputScripts sha tx fetch =
     bind (prev_outputs fetch (TxIns tx)) (\<lambda>outs. Ok (sha (concat (map (\<lambda>out. WriteVarBytes (PkScript out)) outs))))"

record TxSigHashes =
  HashPrevOutsV0 :: bytes
  HashSequenceV0 :: bytes
  HashOutputsV0 :: bytes
  HashPrevOutsV1 :: bytes
  HashSequenceV1 :: bytes
  HashOutputsV1 :: bytes
  HashInputScriptsV1 :: bytes
  HashInputAmountsV1 :: bytes

text \<open>Which of the two midstates the inputs need; the loop stops as soon as both are.\<close>

fun input_kinds :: "PrevOutputFetcher \<Rightarrow> TxIn list \<Rightarrow> bool \<Rightarrow> bool \<Rightarrow> (bool \<times> bool) outcome" where
  "input_kinds fetch [] hasV0 hasV1 = Ok (hasV0, hasV1)"
| "input_kinds fetch (ti # tis) hasV0 hasV1 =
     (let outpoint = PreviousOutPoint ti
      in if snd outpoint = 2 ^ 32 - 1 \<and> fst outpoint = zeroHash then input_kinds fetch tis True hasV1
         else bind (fetch_output fetch outpoint) (\<lambda>prevOut.
           let taproot = (extractWitnessV1KeyBytes (PkScript prevOut) \<noteq> None);
               v0 = (hasV0 \<or> \<not> taproot); v1 = (hasV1 \<or> taproot)
           in if v0 \<and> v1 then Ok (True, True) else input_kinds fetch tis v0 v1))"

definition NewTxSigHashes :: "(bytes \<Rightarrow> bytes) \<Rightarrow> MsgTx \<Rightarrow> PrevOutputFetcher \<Rightarrow> TxSigHashes outcome" where
  "NewTxSigHashes sha tx fetch =
     bind (input_kinds fetch (TxIns tx) False False) (\<lambda>(hasV0, hasV1).
       let p = calcHashPrevOuts sha tx; s = calcHashSequence sha tx; u = calcHashOutputs sha tx
       in bind (if hasV1 then calcHashInputAmounts sha tx fetch else Ok zeroHash) (\<lambda>amounts.
          bind (if hasV1 then calcHashInputScripts sha tx fetch else Ok zeroHash) (\<lambda>scripts.
            Ok \<lparr>HashPrevOutsV0 = (if hasV0 then sha p else zeroHash), HashSequenceV0 = (if hasV0 then sha s else zeroHash),
                HashOutputsV0 = (if hasV0 then sha u else zeroHash), HashPrevOutsV1 = p, HashSequenceV1 = s,
                HashOutputsV1 = u, HashInputScriptsV1 = scripts, HashInputAmountsV1 = amounts\<rparr>)))"

section \<open>The legacy signature hash\<close>

text \<open>The mask \<open>0x1f\<close> selects which outputs are signed; bit \<open>0x80\<close> leaves out the other inputs.\<close>

abbreviation (input) SigHashNone :: u32 where "SigHashNone \<equiv> 2"
abbreviation (input) SigHashSingle :: u32 where "SigHashSingle \<equiv> 3"
abbreviation (input) SigHashAnyOneCanPay :: u32 where "SigHashAnyOneCanPay \<equiv> 0x80"
abbreviation (input) sigHashMask :: u32 where "sigHashMask \<equiv> 0x1f"

definition blank_output :: TxOut where
  "blank_output = \<lparr>out_Value = - 1, PkScript = []\<rparr>"

text \<open>The modified copy of the transaction that is hashed, for an input index of the transaction.\<close>

definition sighash_copy :: "bytes \<Rightarrow> u32 \<Rightarrow> MsgTx \<Rightarrow> nat \<Rightarrow> MsgTx outcome" where
  "sighash_copy sigScript hashType tx idx =
     (let script = removeOpcodeRaw sigScript 171;
          kind = hashType AND sigHashMask;
          tis = map (\<lambda>(i, ti). ti\<lparr>SignatureScript := (if i = idx then script else []),
                    Sequence := (if i \<noteq> idx \<and> (kind = SigHashNone \<or> kind = SigHashSingle) then 0 else Sequence ti)\<rparr>)
                  (enumerate 0 (TxIns tx));
          tos = (if kind = SigHashNone then []
                 else if kind = SigHashSingle
                 then map (\<lambda>(i, to). if i < idx then blank_output else to) (enumerate 0 (take (idx + 1) (TxOuts tx)))
                 else TxOuts tx)
      in bind (if hashType AND SigHashAnyOneCanPay \<noteq> 0 then slice tis idx (idx + 1) else Ok tis) (\<lambda>tis'.
         Ok (tx\<lparr>TxIns := tis', TxOuts := tos\<rparr>)))"

definition calcSignatureHash :: "(bytes \<Rightarrow> bytes) \<Rightarrow> bytes \<Rightarrow> u32 \<Rightarrow> MsgTx \<Rightarrow> nat \<Rightarrow> bytes outcome" where
  "calcSignatureHash sha sigScript hashType tx idx =
     (if hashType AND sigHashMask = SigHashSingle \<and> idx \<ge> length (TxOuts tx) then Ok (1 # replicate 31 0)
      else bind (sighash_copy sigScript hashType tx idx) (\<lambda>txCopy.
        Ok (sha (sha (SerializeNoWitness txCopy @ uint32_bytes (uint hashType))))))"

section \<open>The segwit signature hash\<close>

definition calcWitnessSignatureHashRaw ::
  "(bytes \<Rightarrow> bytes) \<Rightarrow> bytes \<Rightarrow> TxSigHashes \<Rightarrow> u32 \<Rightarrow> MsgTx \<Rightarrow> nat \<Rightarrow> int \<Rightarrow> bytes outcome" where
  "calcWitnessSignatureHashRaw sha subScript sigHashes hashType tx idx amt =
     (if idx \<ge> length (TxIns tx) then Err ''idx but txins''
      else
        let kind = hashType AND sigHashMask; anyone = (hashType AND SigHashAnyOneCanPay \<noteq> 0);
            txIn = TxIns tx ! idx
        in Ok (sha (sha (
             uint32_bytes (Version tx) @
             (if \<not> anyone then HashPrevOutsV0 sigHashes else zeroHash) @
             (if \<not> anyone \<and> kind \<noteq> SigHashSingle \<and> kind \<noteq> SigHashNone then HashSequenceV0 sigHashes else zeroHash) @
             writeOutPoint (PreviousOutPoint txIn) @
             (case extractWitnessPubKeyHash subScript of
                Some h \<Rightarrow> [0x19, 0x76, 0xa9, 0x14] @ h @ [0x88, 0xac]
              | None \<Rightarrow> WriteVarBytes subScript) @
             uint64_bytes amt @ uint32_bytes (Sequence txIn) @
             (if kind \<noteq> SigHashSingle \<and> kind \<noteq> SigHashNone then HashOutputsV0 sigHashes
              else if kind = SigHashSingle \<and> idx < length (TxOuts tx) then sha (sha (WriteTxOut (TxOuts tx ! idx)))
              else zeroHash) @
             uint32_bytes (LockTime tx) @ uint32_bytes (uint hashType)))))"

section \<open>The taproot signature hash\<close>

record taprootSigHashOptions =
  extFlag :: byte
  annexHash :: "bytes option"
  opt_tapLeafHash :: bytes
  keyVersion :: byte
  opt_codeSepPos :: int

definition defaultTaprootSighashOptions :: taprootSigHashOptions where
  "defaultTaprootSighashOptions =
     \<lparr>extFlag = 0, annexHash = None, opt_tapLeafHash = [], keyVersion = 0, opt_codeSepPos = 0\<rparr>"

definition WithAnnex :: "(bytes \<Rightarrow> bytes) \<Rightarrow> bytes \<Rightarrow> taprootSigHashOptions \<Rightarrow> taprootSigHashOptions" where
  "WithAnnex sha a opts = opts\<lparr>annexHash := Some (sha (WriteVarBytes a))\<rparr>"

definition WithBaseTapscriptVersion :: "int \<Rightarrow> bytes \<Rightarrow> taprootSigHashOptions \<Rightarrow> taprootSigHashOptions" where
  "WithBaseTapscriptVersion pos leaf opts =
     opts\<lparr>extFlag := 1, opt_tapLeafHash := leaf, keyVersion := 0, opt_codeSepPos := pos\<rparr>"

definition writeDigestExtensions :: "taprootSigHashOptions \<Rightarrow> bytes" where
  "writeDigestExtensions t =
     (if extFlag t = 1 then opt_tapLeafHash t @ [keyVersion t] @ uint32_bytes (opt_codeSepPos t) else [])"

definition isValidTaprootSigHash :: "u32 \<Rightarrow> bool" where
  "isValidTaprootSigHash hashType \<longleftrightarrow> hashType \<in> {0, 1, 2, 3, 0x81, 0x82, 0x83}"

text \<open>Reading a field of the midstate, which panics when the midstate is nil.\<close>

definition midstate :: "TxSigHashes option \<Rightarrow> (TxSigHashes \<Rightarrow> bytes) \<Rightarrow> bytes outcome" where
  "midstate sigHashes f = (case sigHashes of Some m \<Rightarrow> Ok (f m) | None \<Rightarrow> Panic ''nil pointer dereference'')"

definition calcTaprootSignatureHashRaw ::
  "(bytes \<Rightarrow> bytes) \<Rightarrow> TxSigHashes option \<Rightarrow> u32 \<Rightarrow> MsgTx \<Rightarrow> nat \<Rightarrow> PrevOutputFetcher \<Rightarrow> taprootSigHashOptions \<Rightarrow> bytes outcome" where
  "calcTaprootSignatureHashRaw sha sigHashes hType tx idx fetch opts =
     (if \<not> isValidTaprootSigHash hType then Err ''invalid taproot sighash type''
      else if idx \<ge> length (TxIns tx) then Err ''idx but txins''
      else
        let anyone = (hType AND SigHashAnyOneCanPay = SigHashAnyOneCanPay); kind = hType AND SigHashSingle;
            txIn = TxIns tx ! idx
        in bind (if \<not> anyone then midstate sigHashes (\<lambda>m. HashPrevOutsV1 m @ HashInputAmountsV1 m @
                   HashInputScriptsV1 m @ HashSequenceV1 m) else Ok []) (\<lambda>inputs.
           bind (if kind \<noteq> SigHashSingle \<and> kind \<noteq> SigHashNone then midstate sigHashes HashOutputsV1 else Ok []) (\<lambda>outputs.
           bind (if anyone
                 then bind (fetch_output fetch (PreviousOutPoint txIn)) (\<lambda>prevOut.
                      Ok (writeOutPoint (PreviousOutPoint txIn) @ WriteTxOut prevOut @ uint32_bytes (Sequence txIn)))
                 else Ok (uint32_bytes (int idx))) (\<lambda>this.
           bind (if hType AND sigHashMask = SigHashSingle
                 then if idx \<ge> length (TxOuts tx) then Err ''invalid sighash type for input''
                      else Ok (sha (WriteTxOut (TxOuts tx ! idx)))
                 else Ok []) (\<lambda>single.
             Ok (TaggedHash sha ''TapSighash''
                  ([0, ucast hType] @ uint32_bytes (Version tx) @ uint32_bytes (LockTime tx) @ inputs @ outputs @
                   [extFlag opts * 2 + (if annexHash opts \<noteq> None then 1 else 0)] @ this @
                   (case annexHash opts of Some h \<Rightarrow> h | None \<Rightarrow> []) @ single @ writeDigestExtensions opts)))))))"

end
