(* ===== verification/Script_State.thy ===== *)
theory Script_State
  imports Script_Sighash
begin

text \<open>
  The state of the script engine (\<^verbatim>\<open>coin/OrcaNet/txscript/engine.go\<close>), its flags, and the
  functions of other packages it calls.
\<close>

section \<open>State\<close>

record taprootExecutionCtx =
  annex :: bytes
  codeSepPos :: int
  tapLeafHash :: bytes
  sigOpsBudget :: int
  mustSucceed :: bool

record Engine =
  flags :: u32
  tx :: MsgTx
  txIdx :: nat
  eng_version :: nat
  bip16 :: bool
  scripts :: "bytes list"
  scriptIdx :: nat
  opcodeIdx :: nat
  lastCodeSep :: nat
  tokenizer :: ScriptTokenizer
  savedFirstStack :: "bytes list"
  dstack :: stack
  astack :: stack
  condStack :: "nat list"
  numOps :: int
  witnessVersion :: nat
  witnessProgram :: "bytes option"
  inputAmount :: int
  taprootCtx :: "taprootExecutionCtx option"
  hashCache :: "TxSigHashes option"
  prevOutFetcher :: PrevOutputFetcher

text \<open>
  The functions of other packages: the hash functions of the Go library, and from the elliptic
  curve packages whether a key or a signature parses (for ECDSA signatures, strictly or not),
  whether a signature of a hash verifies, and the x-only key and parity of an internal key shifted
  by a tweak.
\<close>

record script_env =
  ripemd160 :: "bytes \<Rightarrow> bytes"
  sha1 :: "bytes \<Rightarrow> bytes"
  sha256 :: "bytes \<Rightarrow> bytes"
  ParsePubKey :: "bytes \<Rightarrow> bool"
  ParseSignature :: "bool \<Rightarrow> bytes \<Rightarrow> bool"
  ecdsa_Verify :: "bool \<Rightarrow> bytes \<Rightarrow> bytes \<Rightarrow> bytes \<Rightarrow> bool"
  schnorr_ParsePubKey :: "bytes \<Rightarrow> bool"
  schnorr_ParseSignature :: "bytes \<Rightarrow> bool"
  schnorr_Verify :: "bytes \<Rightarrow> bytes \<Rightarrow> bytes \<Rightarrow> bool"
  tweak_key :: "bytes \<Rightarrow> bytes \<Rightarrow> bytes \<times> bool"

type_synonym opfun = "script_env \<Rightarrow> nat \<Rightarrow> bytes \<Rightarrow> Engine \<Rightarrow> Engine outcome"

abbreviation (input) ScriptBip16 :: u32 where "ScriptBip16 \<equiv> push_bit 0 1"
abbreviation (input) ScriptStrictMultiSig :: u32 where "ScriptStrictMultiSig \<equiv> push_bit 1 1"
abbreviation (input) ScriptDiscourageUpgradableNops :: u32 where "ScriptDiscourageUpgradableNops \<equiv> push_bit 2 1"
abbreviation (input) ScriptVerifyCheckLockTimeVerify :: u32 where "ScriptVerifyCheckLockTimeVerify \<equiv> push_bit 3 1"
abbreviation (input) ScriptVerifyCheckSequenceVerify :: u32 where "ScriptVerifyCheckSequenceVerify \<equiv> push_bit 4 1"
abbreviation (input) ScriptVerifyCleanStack :: u32 where "ScriptVerifyCleanStack \<equiv> push_bit 5 1"
abbreviation (input) ScriptVerifyDERSignatures :: u32 where "ScriptVerifyDERSignatures \<equiv> push_bit 6 1"
abbreviation (input) ScriptVerifyLowS :: u32 where "ScriptVerifyLowS \<equiv> push_bit 7 1"
abbreviation (input) ScriptVerifyMinimalData :: u32 where "ScriptVerifyMinimalData \<equiv> push_bit 8 1"
abbreviation (input) ScriptVerifyNullFail :: u32 where "ScriptVerifyNullFail \<equiv> push_bit 9 1"
abbreviation (input) ScriptVerifySigPushOnly :: u32 where "ScriptVerifySigPushOnly \<equiv> push_bit 10 1"
abbreviation (input) ScriptVerifyStrictEncoding :: u32 where "ScriptVerifyStrictEncoding \<equiv> push_bit 11 1"
abbreviation (input) ScriptVerifyWitness :: u32 where "ScriptVerifyWitness \<equiv> push_bit 12 1"
abbreviation (input) ScriptVerifyDiscourageUpgradeableWitnessProgram :: u32 where
  "ScriptVerifyDiscourageUpgradeableWitnessProgram \<equiv> push_bit 13 1"
abbreviation (input) ScriptVerifyMinimalIf :: u32 where "ScriptVerifyMinimalIf \<equiv> push_bit 14 1"
abbreviation (input) ScriptVerifyWitnessPubKeyType :: u32 where "ScriptVerifyWitnessPubKeyType \<equiv> push_bit 15 1"
abbreviation (input) ScriptVerifyTaproot :: u32 where "ScriptVerifyTaproot \<equiv> push_bit 16 1"
abbreviation (input) ScriptVerifyDiscourageUpgradeableTaprootVersion :: u32 where
  "ScriptVerifyDiscourageUpgradeableTaprootVersion \<equiv> push_bit 17 1"
abbreviation (input) ScriptVerifyDiscourageOpSuccess :: u32 where "ScriptVerifyDiscourageOpSuccess \<equiv> push_bit 18 1"

abbreviation (input) ScriptVerifyDiscourageUpgradeablePubkeyType :: u32 where
  "ScriptVerifyDiscourageUpgradeablePubkeyType \<equiv> push_bit 19 1"

definition hasFlag :: "Engine \<Rightarrow> u32 \<Rightarrow> bool" where
  "hasFlag vm flag \<longleftrightarrow> flags vm AND flag = flag"

abbreviation (input) OpCondFalse :: nat where "OpCondFalse \<equiv> 0"
abbreviation (input) OpCondTrue :: nat where "OpCondTrue \<equiv> 1"
abbreviation (input) OpCondSkip :: nat where "OpCondSkip \<equiv> 2"

definition isBranchExecuting :: "Engine \<Rightarrow> bool" where
  "isBranchExecuting vm \<longleftrightarrow> condStack vm = [] \<or> last (condStack vm) = OpCondTrue"

definition isWitnessVersionActive :: "nat \<Rightarrow> Engine \<Rightarrow> bool" where
  "isWitnessVersionActive version vm \<longleftrightarrow> witnessProgram vm \<noteq> None \<and> witnessVersion vm = version"

abbreviation (input) BaseSegwitWitnessVersion :: nat where "BaseSegwitWitnessVersion \<equiv> 0"
abbreviation (input) TaprootWitnessVersion :: nat where "TaprootWitnessVersion \<equiv> 1"

abbreviation (input) MaxOpsPerScript :: int where "MaxOpsPerScript \<equiv> 201"
abbreviation (input) MaxPubKeysPerMultiSig :: int where "MaxPubKeysPerMultiSig \<equiv> 20"
abbreviation (input) MaxScriptElementSize :: nat where "MaxScriptElementSize \<equiv> 520"
abbreviation (input) LockTimeThreshold :: int where "LockTimeThreshold \<equiv> 500000000"

end
