(* ===== verification/Script_Signature.thy ===== *)
theory Script_Signature
  imports Script_State
begin

text \<open>
  Checking signatures: the encoding rules of \<^verbatim>\<open>coin/OrcaNet/txscript/engine.go\<close>, the verifiers
  of \<^verbatim>\<open>sigvalidate.go\<close> and the taproot commitments of \<^verbatim>\<open>taproot.go\<close>.  A parsed key or
  signature is represented by the bytes it was parsed from.  The signature cache is left out: it
  only remembers successful verifications.
\<close>

section \<open>Encodings\<close>

definition checkHashTypeEncoding :: "u32 \<Rightarrow> Engine \<Rightarrow> unit outcome" where
  "checkHashTypeEncoding hashType vm =
     (if \<not> hasFlag vm ScriptVerifyStrictEncoding then Ok ()
      else let sigHashType = hashType AND NOT SigHashAnyOneCanPay
           in if sigHashType < 1 \<or> sigHashType > SigHashSingle then Err ''ErrInvalidSigHashType'' else Ok ())"

definition isStrictPubKeyEncoding :: "bytes \<Rightarrow> bool" where
  "isStrictPubKeyEncoding pubKey \<longleftrightarrow>
     length pubKey = 33 \<and> (pubKey ! 0 = 2 \<or> pubKey ! 0 = 3) \<or>
     length pubKey = 65 \<and> pubKey ! 0 \<in> {4, 6, 7}"

definition IsCompressedPubKey :: "bytes \<Rightarrow> bool" where
  "IsCompressedPubKey pubKey \<longleftrightarrow> length pubKey = 33 \<and> pubKey ! 0 AND NOT 1 = 2"

definition checkPubKeyEncoding :: "bytes \<Rightarrow> Engine \<Rightarrow> unit outcome" where
  "checkPubKeyEncoding pubKey vm =
     (if hasFlag vm ScriptVerifyWitnessPubKeyType \<and> isWitnessVersionActive BaseSegwitWitnessVersion vm \<and>
         \<not> IsCompressedPubKey pubKey then Err ''ErrWitnessPubKeyType''
      else if \<not> hasFlag vm ScriptVerifyStrictEncoding then Ok ()
      else if length pubKey = 33 \<and> (pubKey ! 0 = 2 \<or> pubKey ! 0 = 3) then Ok ()
      else if length pubKey = 65 \<and> pubKey ! 0 = 4 then Ok ()
      else Err ''ErrPubKeyType'')"

text \<open>Half the order of secp256k1, rounded down.\<close>

abbreviation (input) halfOrder :: nat where
  "halfOrder \<equiv> 0x7FFFFFFFFFFFFFFFFFFFFFFFFFFFFFFF5D576E7357A4501DDFE92F46681B20A0"

text \<open>
  The rules for one of the two integers of a signature: the marker in front of it, its length, its
  sign and its padding; the four errors differ between the two.
\<close>

definition check_integer :: "string list \<Rightarrow> bytes \<Rightarrow> nat \<Rightarrow> nat \<Rightarrow> nat \<Rightarrow> unit outcome" where
  "check_integer errs sig typeOffset off len =
     bind (index sig typeOffset) (\<lambda>marker.
       if marker \<noteq> 2 then Err (errs ! 0)
       else if len = 0 then Err (errs ! 1)
       else bind (index sig off) (\<lambda>b.
         if b AND 0x80 \<noteq> 0 then Err (errs ! 2)
         else if len > 1 \<and> b = 0
         then bind (index sig (off + 1)) (\<lambda>b'. if b' AND 0x80 = 0 then Err (errs ! 3) else Ok ())
         else Ok ()))"

abbreviation (input) r_errors :: "string list" where
  "r_errors \<equiv> [''ErrSigInvalidRIntID'', ''ErrSigZeroRLen'', ''ErrSigNegativeR'', ''ErrSigTooMuchRPadding'']"

abbreviation (input) s_errors :: "string list" where
  "s_errors \<equiv> [''ErrSigInvalidSIntID'', ''ErrSigZeroSLen'', ''ErrSigNegativeS'', ''ErrSigTooMuchSPadding'']"

definition checkSignatureEncoding :: "bytes \<Rightarrow> Engine \<Rightarrow> unit outcome" where
  "checkSignatureEncoding sig vm =
     (if \<not> hasFlag vm ScriptVerifyDERSignatures \<and> \<not> hasFlag vm ScriptVerifyLowS \<and> \<not> hasFlag vm ScriptVerifyStrictEncoding
      then Ok ()
      else
        let sigLen = length sig
        in if sigLen < 8 then Err ''ErrSigTooShort''
           else if sigLen > 72 then Err ''ErrSigTooLong''
           else bind (index sig 0) (\<lambda>sequence.
             if sequence \<noteq> 0x30 then Err ''ErrSigInvalidSeqID''
             else bind (index sig 1) (\<lambda>dataLen.
             if unat dataLen \<noteq> sigLen - 2 then Err ''ErrSigInvalidDataLen''
             else bind (index sig 3) (\<lambda>rl.
             let rLen = unat rl; sTypeOffset = 4 + rLen; sLenOffset = sTypeOffset + 1
             in if sTypeOffset \<ge> sigLen then Err ''ErrSigMissingSTypeID''
                else if sLenOffset \<ge> sigLen then Err ''ErrSigMissingSLen''
                else bind (index sig sLenOffset) (\<lambda>sl.
                  let sOffset = sLenOffset + 1; sLen = unat sl
                  in if sOffset + sLen \<noteq> sigLen then Err ''ErrSigInvalidSLen''
                     else bind (check_integer r_errors sig 2 4 rLen) (\<lambda>_.
                          bind (check_integer s_errors sig sTypeOffset sOffset sLen) (\<lambda>_.
                          if hasFlag vm ScriptVerifyLowS
                          then bind (slice sig sOffset (sOffset + sLen)) (\<lambda>s.
                               if be_value s > halfOrder then Err ''ErrSigHighS'' else Ok ())
                          else Ok ())))))))"

section \<open>ECDSA signatures\<close>

text \<open>The verdict on a signature: it or its key does not parse, or whether it verifies.\<close>

datatype sig_result = Sig_bad_encoding | Sig_valid bool

definition strict_encoding :: "Engine \<Rightarrow> bool" where
  "strict_encoding vm \<longleftrightarrow> hasFlag vm ScriptVerifyStrictEncoding \<or> hasFlag vm ScriptVerifyDERSignatures"

text \<open>
  The signature without its last byte, and that byte as the hash type; \<^verbatim>\<open>None\<close> for an error that
  is not a script error.
\<close>

definition parseBaseSigAndPubkey :: "script_env \<Rightarrow> bytes \<Rightarrow> bytes \<Rightarrow> Engine \<Rightarrow> (bytes \<times> u32) option outcome" where
  "parseBaseSigAndPubkey env pkBytes fullSigBytes vm =
     (if fullSigBytes = [] then Panic ''index out of range''
      else
        let hashType = ucast (last fullSigBytes); sigBytes = butlast fullSigBytes
        in bind (checkHashTypeEncoding hashType vm) (\<lambda>_.
           bind (checkSignatureEncoding sigBytes vm) (\<lambda>_.
           bind (checkPubKeyEncoding pkBytes vm) (\<lambda>_.
             if \<not> ParsePubKey env pkBytes \<or> \<not> ParseSignature env (strict_encoding vm) sigBytes then Ok None
             else Ok (Some (sigBytes, hashType))))))"

definition subScript :: "Engine \<Rightarrow> bytes outcome" where
  "subScript vm = bind (index (scripts vm) (scriptIdx vm)) (\<lambda>s. slice s (lastCodeSep vm) (length s))"

text \<open>Creating a base verifier and verifying.\<close>

definition base_verifier :: "script_env \<Rightarrow> bytes \<Rightarrow> bytes \<Rightarrow> Engine \<Rightarrow> sig_result outcome" where
  "base_verifier env pkBytes fullSigBytes vm =
     bind (parseBaseSigAndPubkey env pkBytes fullSigBytes vm) (\<lambda>parsed.
       case parsed of
         None \<Rightarrow> Ok Sig_bad_encoding
       | Some (sig, hashType) \<Rightarrow>
           bind (subScript vm) (\<lambda>script.
           bind (calcSignatureHash (sha256 env) (removeOpcodeByData script fullSigBytes) hashType (tx vm) (txIdx vm)) (\<lambda>sigHash.
             Ok (Sig_valid (ecdsa_Verify env (strict_encoding vm) sig sigHash pkBytes)))))"

text \<open>The midstate of the transaction, from the cache when there is one.\<close>

definition sig_hashes :: "script_env \<Rightarrow> Engine \<Rightarrow> TxSigHashes outcome" where
  "sig_hashes env vm =
     (case hashCache vm of Some m \<Rightarrow> Ok m | None \<Rightarrow> NewTxSigHashes (sha256 env) (tx vm) (prevOutFetcher vm))"

definition segwit_verifier :: "script_env \<Rightarrow> bytes \<Rightarrow> bytes \<Rightarrow> Engine \<Rightarrow> sig_result outcome" where
  "segwit_verifier env pkBytes fullSigBytes vm =
     bind (parseBaseSigAndPubkey env pkBytes fullSigBytes vm) (\<lambda>parsed.
       case parsed of
         None \<Rightarrow> Ok Sig_bad_encoding
       | Some (sig, hashType) \<Rightarrow>
           bind (subScript vm) (\<lambda>script.
           bind (sig_hashes env vm) (\<lambda>sigHashes.
             case calcWitnessSignatureHashRaw (sha256 env) script sigHashes hashType (tx vm) (txIdx vm) (inputAmount vm) of
               Ok sigHash \<Rightarrow> Ok (Sig_valid (ecdsa_Verify env (strict_encoding vm) sig sigHash pkBytes))
             | Err _ \<Rightarrow> Ok (Sig_valid False)
             | Panic p \<Rightarrow> Panic p)))"

text \<open>
  One round of the loop of \<^verbatim>\<open>opcodeCheckMultiSig\<close> on a signature that is not empty.  The code
  parses a signature once and keeps the result; here it is parsed in every round, with the same
  result.
\<close>

definition multisig_verifier :: "script_env \<Rightarrow> Engine \<Rightarrow> bytes \<Rightarrow> bytes \<Rightarrow> bytes \<Rightarrow> sig_result outcome" where
  "multisig_verifier env vm script rawSig pubKey =
     (let hashType = ucast (last rawSig); signature = butlast rawSig
      in bind (checkHashTypeEncoding hashType vm) (\<lambda>_.
         bind (checkSignatureEncoding signature vm) (\<lambda>_.
         if \<not> ParseSignature env (strict_encoding vm) signature then Ok Sig_bad_encoding
         else bind (checkPubKeyEncoding pubKey vm) (\<lambda>_.
         if \<not> ParsePubKey env pubKey then Ok Sig_bad_encoding
         else bind (if isWitnessVersionActive 0 vm
                    then bind (sig_hashes env vm) (\<lambda>sigHashes.
                         calcWitnessSignatureHashRaw (sha256 env) script sigHashes hashType (tx vm) (txIdx vm) (inputAmount vm))
                    else calcSignatureHash (sha256 env) script hashType (tx vm) (txIdx vm)) (\<lambda>hash.
              Ok (Sig_valid (ecdsa_Verify env (strict_encoding vm) signature hash pubKey)))))))"

section \<open>Schnorr signatures\<close>

definition parseTaprootSigAndPubKey :: "script_env \<Rightarrow> bytes \<Rightarrow> bytes \<Rightarrow> (bytes \<times> u32) outcome" where
  "parseTaprootSigAndPubKey env pkBytes rawSig =
     (if \<not> schnorr_ParsePubKey env pkBytes then Err ''invalid pubkey''
      else if length rawSig = 64 then
        (if schnorr_ParseSignature env rawSig then Ok (rawSig, 0) else Err ''invalid signature'')
      else if length rawSig = 65 \<and> rawSig ! 64 \<noteq> 0 then
        (if schnorr_ParseSignature env (take 64 rawSig) then Ok (take 64 rawSig, ucast (rawSig ! 64))
         else Err ''invalid signature'')
      else Err ''ErrInvalidTaprootSigLen'')"

text \<open>Hashing and verifying, with an error in the hash taken as an invalid signature.\<close>

definition taproot_Verify ::
  "script_env \<Rightarrow> bytes \<Rightarrow> bytes \<Rightarrow> u32 \<Rightarrow> Engine \<Rightarrow> taprootSigHashOptions \<Rightarrow> bool outcome" where
  "taproot_Verify env pkBytes sig hashType vm opts =
     (case calcTaprootSignatureHashRaw (sha256 env) (hashCache vm) hashType (tx vm) (txIdx vm) (prevOutFetcher vm) opts of
        Ok sigHash \<Rightarrow> Ok (schnorr_Verify env sig sigHash pkBytes)
      | Err _ \<Rightarrow> Ok False
      | Panic p \<Rightarrow> Panic p)"

definition with_annex :: "script_env \<Rightarrow> bytes \<Rightarrow> taprootSigHashOptions \<Rightarrow> taprootSigHashOptions" where
  "with_annex env a opts = (if a \<noteq> [] then WithAnnex (sha256 env) a opts else opts)"

definition tapscript_verifier :: "script_env \<Rightarrow> bytes \<Rightarrow> bytes \<Rightarrow> Engine \<Rightarrow> bool outcome" where
  "tapscript_verifier env pkBytes rawSig vm =
     (if pkBytes = [] then Err ''ErrTaprootPubkeyIsEmpty''
      else if length pkBytes = 32 then
        (case taprootCtx vm of
           None \<Rightarrow> Panic ''nil pointer dereference''
         | Some ctx \<Rightarrow>
             bind (parseTaprootSigAndPubKey env pkBytes rawSig) (\<lambda>(sig, hashType).
               taproot_Verify env pkBytes sig hashType vm
                 (with_annex env (annex ctx)
                    (WithBaseTapscriptVersion (codeSepPos ctx) (tapLeafHash ctx) defaultTaprootSighashOptions))))
      else if hasFlag vm ScriptVerifyDiscourageUpgradeablePubkeyType then Err ''ErrDiscourageUpgradeablePubKeyType''
      else Ok True)"

definition isAnnexedWitness :: "bytes list \<Rightarrow> bool" where
  "isAnnexedWitness witness \<longleftrightarrow> 2 \<le> length witness \<and> last witness \<noteq> [] \<and> hd (last witness) = 0x50"

definition VerifyTaprootKeySpend :: "script_env \<Rightarrow> bytes \<Rightarrow> bytes \<Rightarrow> Engine \<Rightarrow> unit outcome" where
  "VerifyTaprootKeySpend env rawKey rawSig vm =
     bind (index (TxIns (tx vm)) (txIdx vm)) (\<lambda>txin.
       let a = (if isAnnexedWitness (Witness txin) then last (Witness txin) else [])
       in bind (parseTaprootSigAndPubKey env rawKey rawSig) (\<lambda>(sig, hashType).
          bind (taproot_Verify env rawKey sig hashType vm (with_annex env a defaultTaprootSighashOptions)) (\<lambda>valid.
            if valid then Ok () else Err ''ErrTaprootSigInvalid'')))"

section \<open>Taproot commitments\<close>

record ControlBlock =
  InternalKey :: bytes
  OutputKeyYIsOdd :: bool
  LeafVersion :: byte
  InclusionProof :: bytes

definition ControlBlock_ToBytes :: "ControlBlock \<Rightarrow> bytes" where
  "ControlBlock_ToBytes c =
     [LeafVersion c OR (if OutputKeyYIsOdd c then 1 else 0)] @ InternalKey c @ InclusionProof c"

definition ParseControlBlock :: "script_env \<Rightarrow> bytes \<Rightarrow> ControlBlock outcome" where
  "ParseControlBlock env ctrlBlock =
     (if length ctrlBlock < 33 then Err ''ErrControlBlockTooSmall''
      else if length ctrlBlock > 33 + 32 * 128 then Err ''ErrControlBlockTooLarge''
      else if (length ctrlBlock - 33) mod 32 \<noteq> 0 then Err ''ErrControlBlockInvalidLength''
      else bind (index ctrlBlock 0) (\<lambda>b.
           bind (slice ctrlBlock 1 33) (\<lambda>rawKey.
           if \<not> schnorr_ParsePubKey env rawKey then Err ''invalid pubkey''
           else bind (slice ctrlBlock 33 (length ctrlBlock)) (\<lambda>proofBytes.
             Ok \<lparr>InternalKey = rawKey, OutputKeyYIsOdd = (b AND 1 = 1), LeafVersion = b AND 0xfe,
                 InclusionProof = proofBytes\<rparr>))))"

definition TapHash :: "script_env \<Rightarrow> byte \<Rightarrow> bytes \<Rightarrow> bytes" where
  "TapHash env version script = TaggedHash (sha256 env) ''TapLeaf'' ([version] @ WriteVarBytes script)"

fun bytes_greater :: "bytes \<Rightarrow> bytes \<Rightarrow> bool" where
  "bytes_greater [] ys = False"
| "bytes_greater (x # xs) [] = True"
| "bytes_greater (x # xs) (y # ys) = (x > y \<or> x = y \<and> bytes_greater xs ys)"

definition tapBranchHash :: "script_env \<Rightarrow> bytes \<Rightarrow> bytes \<Rightarrow> bytes" where
  "tapBranchHash env l r =
     TaggedHash (sha256 env) ''TapBranch'' (if bytes_greater l r then r @ l else l @ r)"

fun root_loop :: "script_env \<Rightarrow> bytes \<Rightarrow> nat \<Rightarrow> nat \<Rightarrow> bytes \<Rightarrow> bytes outcome" where
  "root_loop env proof off 0 acc = Ok acc"
| "root_loop env proof off (Suc n) acc =
     bind (slice proof (32 * off) (32 * off + 32)) (\<lambda>node. root_loop env proof (off + 1) n (tapBranchHash env acc node))"

definition RootHash :: "script_env \<Rightarrow> ControlBlock \<Rightarrow> bytes \<Rightarrow> bytes outcome" where
  "RootHash env c revealedScript =
     root_loop env (InclusionProof c) 0 (length (InclusionProof c) div 32) (TapHash env (LeafVersion c) revealedScript)"

definition ComputeTaprootOutputKey :: "script_env \<Rightarrow> bytes \<Rightarrow> bytes \<Rightarrow> bytes \<times> bool" where
  "ComputeTaprootOutputKey env pubKey scriptRoot =
     tweak_key env pubKey (TaggedHash (sha256 env) ''TapTweak'' (pubKey @ scriptRoot))"

definition VerifyTaprootLeafCommitment :: "script_env \<Rightarrow> ControlBlock \<Rightarrow> bytes \<Rightarrow> bytes \<Rightarrow> unit outcome" where
  "VerifyTaprootLeafCommitment env controlBlock taprootWitnessProgram revealedScript =
     bind (RootHash env controlBlock revealedScript) (\<lambda>rootHash.
       let (taprootKey, derivedYIsOdd) = ComputeTaprootOutputKey env (InternalKey controlBlock) rootHash
       in if taprootKey \<noteq> taprootWitnessProgram then Err ''ErrTaprootMerkleProofInvalid''
          else if OutputKeyYIsOdd controlBlock \<noteq> derivedYIsOdd then Err ''ErrTaprootOutputKeyParityMismatch''
          else Ok ())"

end
