(* ===== verification/Script_Opcodes.thy ===== *)
theory Script_Opcodes
  imports Script_Signature
begin

text \<open>
  The opcode handlers (\<^verbatim>\<open>coin/OrcaNet/txscript/opcode.go\<close>).  A handler that fails ends the
  script, so a failing handler returns only the error.
\<close>

definition on_dstack :: "(stack \<Rightarrow> stack outcome) \<Rightarrow> Engine \<Rightarrow> Engine outcome" where
  "on_dstack f vm = bind (f (dstack vm)) (\<lambda>s. Ok (vm\<lparr>dstack := s\<rparr>))"

section \<open>Data and control opcodes\<close>

definition opcodeDisabled :: opfun where
  "opcodeDisabled env op data vm = Err ''ErrDisabledOpcode''"

definition opcodeReserved :: opfun where
  "opcodeReserved env op data vm = Err ''ErrReservedOpcode''"

definition opcodeInvalid :: opfun where
  "opcodeInvalid env op data vm = Err ''ErrReservedOpcode''"

definition opcodeFalse :: opfun where
  "opcodeFalse env op data = on_dstack (\<lambda>s. Ok (PushByteArray [] s))"

definition opcodePushData :: opfun where
  "opcodePushData env op data = on_dstack (\<lambda>s. Ok (PushByteArray data s))"

definition opcode1Negate :: opfun where
  "opcode1Negate env op data = on_dstack (PushInt (- 1))"

definition opcodeN :: opfun where
  "opcodeN env op data = on_dstack (PushInt (int (op - (OP_1 - 1))))"

definition opcodeNop :: opfun where
  "opcodeNop env op data vm =
     (if op \<in> {176, 179, 180, 181, 182, 183, 184, 185} \<and> hasFlag vm ScriptDiscourageUpgradableNops
      then Err ''ErrDiscourageUpgradableNOPs'' else Ok vm)"

definition popIfBool :: "Engine \<Rightarrow> (bool \<times> stack) outcome" where
  "popIfBool vm =
     (if \<not> isWitnessVersionActive TaprootWitnessVersion vm \<and>
         (\<not> isWitnessVersionActive BaseSegwitWitnessVersion vm \<or> \<not> hasFlag vm ScriptVerifyMinimalIf)
      then PopBool (dstack vm)
      else bind (PopByteArray (dstack vm)) (\<lambda>(so, s).
        if length so > 1 then Err ''ErrMinimalIf''
        else if length so = 1 \<and> so ! 0 \<noteq> 1 then Err ''ErrMinimalIf''
        else Ok (asBool so, s)))"

definition push_cond :: "nat \<Rightarrow> Engine \<Rightarrow> Engine" where
  "push_cond c vm = vm\<lparr>condStack := condStack vm @ [c]\<rparr>"

definition opcodeIf :: opfun where
  "opcodeIf env op data vm =
     (if isBranchExecuting vm
      then bind (popIfBool vm) (\<lambda>(ok, s). Ok (push_cond (if ok then OpCondTrue else OpCondFalse) (vm\<lparr>dstack := s\<rparr>)))
      else Ok (push_cond OpCondSkip vm))"

definition opcodeNotIf :: opfun where
  "opcodeNotIf env op data vm =
     (if isBranchExecuting vm
      then bind (popIfBool vm) (\<lambda>(ok, s). Ok (push_cond (if \<not> ok then OpCondTrue else OpCondFalse) (vm\<lparr>dstack := s\<rparr>)))
      else Ok (push_cond OpCondSkip vm))"

definition opcodeElse :: opfun where
  "opcodeElse env op data vm =
     (if condStack vm = [] then Err ''ErrUnbalancedConditional''
      else let c = last (condStack vm);
               c' = (if c = OpCondTrue then OpCondFalse else if c = OpCondFalse then OpCondTrue else c)
           in Ok (vm\<lparr>condStack := butlast (condStack vm) @ [c']\<rparr>))"

definition opcodeEndif :: opfun where
  "opcodeEndif env op data vm =
     (if condStack vm = [] then Err ''ErrUnbalancedConditional''
      else Ok (vm\<lparr>condStack := butlast (condStack vm)\<rparr>))"

definition abstractVerify :: "string \<Rightarrow> Engine \<Rightarrow> Engine outcome" where
  "abstractVerify c = on_dstack (\<lambda>s. bind (PopBool s) (\<lambda>(verified, s'). if \<not> verified then Err c else Ok s'))"

definition opcodeVerify :: opfun where
  "opcodeVerify env op data = abstractVerify ''ErrVerify''"

definition opcodeReturn :: opfun where
  "opcodeReturn env op data vm = Err ''ErrEarlyReturn''"

definition verifyLockTime :: "int \<Rightarrow> int \<Rightarrow> int \<Rightarrow> unit outcome" where
  "verifyLockTime txLockTime threshold lockTime =
     (if \<not> ((txLockTime < threshold \<and> lockTime < threshold) \<or> (txLockTime \<ge> threshold \<and> lockTime \<ge> threshold))
      then Err ''ErrUnsatisfiedLockTime''
      else if lockTime > txLockTime then Err ''ErrUnsatisfiedLockTime'' else Ok ())"

definition input_sequence :: "Engine \<Rightarrow> int outcome" where
  "input_sequence vm = bind (index (TxIns (tx vm)) (txIdx vm)) (\<lambda>i. Ok (Sequence i))"

definition opcodeCheckLockTimeVerify :: opfun where
  "opcodeCheckLockTimeVerify env op data vm =
     (if \<not> hasFlag vm ScriptVerifyCheckLockTimeVerify then
        (if hasFlag vm ScriptDiscourageUpgradableNops then Err ''ErrDiscourageUpgradableNOPs'' else Ok vm)
      else
        bind (PeekByteArray 0 (dstack vm)) (\<lambda>so.
        bind (MakeScriptNum so (verifyMinimalData (dstack vm)) 5) (\<lambda>lockTime.
        if lockTime < 0 then Err ''ErrNegativeLockTime''
        else bind (verifyLockTime (LockTime (tx vm)) LockTimeThreshold lockTime) (\<lambda>_.
          bind (input_sequence vm) (\<lambda>sq.
          if sq = 2 ^ 32 - 1 then Err ''ErrUnsatisfiedLockTime'' else Ok vm)))))"

definition opcodeCheckSequenceVerify :: opfun where
  "opcodeCheckSequenceVerify env op data vm =
     (if \<not> hasFlag vm ScriptVerifyCheckSequenceVerify then
        (if hasFlag vm ScriptDiscourageUpgradableNops then Err ''ErrDiscourageUpgradableNOPs'' else Ok vm)
      else
        bind (PeekByteArray 0 (dstack vm)) (\<lambda>so.
        bind (MakeScriptNum so (verifyMinimalData (dstack vm)) 5) (\<lambda>sequence.
        if sequence < 0 then Err ''ErrNegativeLockTime''
        else if sequence AND 2 ^ 31 \<noteq> 0 then Ok vm
        else if Version (tx vm) mod 2 ^ 32 < 2 then Err ''ErrUnsatisfiedLockTime''
        else bind (input_sequence vm) (\<lambda>txSequence.
          if txSequence AND 2 ^ 31 \<noteq> 0 then Err ''ErrUnsatisfiedLockTime''
          else let lockTimeMask = 2 ^ 22 OR 0xffff
               in bind (verifyLockTime (txSequence AND lockTimeMask) (2 ^ 22) (sequence AND lockTimeMask)) (\<lambda>_. Ok vm)))))"

section \<open>Stack opcodes\<close>

definition opcodeToAltStack :: opfun where
  "opcodeToAltStack env op data vm =
     bind (PopByteArray (dstack vm)) (\<lambda>(so, s). Ok (vm\<lparr>dstack := s, astack := PushByteArray so (astack vm)\<rparr>))"

definition opcodeFromAltStack :: opfun where
  "opcodeFromAltStack env op data vm =
     bind (PopByteArray (astack vm)) (\<lambda>(so, s). Ok (vm\<lparr>astack := s, dstack := PushByteArray so (dstack vm)\<rparr>))"

definition opcode2Drop :: opfun where
  "opcode2Drop env op data = on_dstack (DropN 2)"

definition opcode2Dup :: opfun where
  "opcode2Dup env op data = on_dstack (DupN 2)"

definition opcode3Dup :: opfun where
  "opcode3Dup env op data = on_dstack (DupN 3)"

definition opcode2Over :: opfun where
  "opcode2Over env op data = on_dstack (OverN 2)"

definition opcode2Rot :: opfun where
  "opcode2Rot env op data = on_dstack (RotN 2)"

definition opcode2Swap :: opfun where
  "opcode2Swap env op data = on_dstack (SwapN 2)"

definition opcodeIfDup :: opfun where
  "opcodeIfDup env op data = on_dstack (\<lambda>s.
     bind (PeekByteArray 0 s) (\<lambda>so. Ok (if asBool so then PushByteArray so s else s)))"

definition opcodeDepth :: opfun where
  "opcodeDepth env op data = on_dstack (\<lambda>s. PushInt (Depth s) s)"

definition opcodeDrop :: opfun where
  "opcodeDrop env op data = on_dstack (DropN 1)"

definition opcodeDup :: opfun where
  "opcodeDup env op data = on_dstack (DupN 1)"

definition opcodeNip :: opfun where
  "opcodeNip env op data = on_dstack (NipN 1)"

definition opcodeOver :: opfun where
  "opcodeOver env op data = on_dstack (OverN 1)"

definition opcodePick :: opfun where
  "opcodePick env op data = on_dstack (\<lambda>s. bind (PopInt s) (\<lambda>(val, s'). PickN (num_Int32 val) s'))"

definition opcodeRoll :: opfun where
  "opcodeRoll env op data = on_dstack (\<lambda>s. bind (PopInt s) (\<lambda>(val, s'). RollN (num_Int32 val) s'))"

definition opcodeRot :: opfun where
  "opcodeRot env op data = on_dstack (RotN 1)"

definition opcodeSwap :: opfun where
  "opcodeSwap env op data = on_dstack (SwapN 1)"

definition opcodeTuck :: opfun where
  "opcodeTuck env op data = on_dstack (Tuck)"

definition opcodeSize :: opfun where
  "opcodeSize env op data = on_dstack (\<lambda>s. bind (PeekByteArray 0 s) (\<lambda>so. PushInt (int (length so)) s))"

definition opcodeEqual :: opfun where
  "opcodeEqual env op data = on_dstack (\<lambda>s.
     bind (PopByteArray s) (\<lambda>(a, s1). bind (PopByteArray s1) (\<lambda>(b, s2). Ok (PushBool (a = b) s2))))"

definition opcodeEqualVerify :: opfun where
  "opcodeEqualVerify env op data vm =
     bind (opcodeEqual env op data vm) (abstractVerify ''ErrEqualVerify'')"

section \<open>Numeric opcodes\<close>

definition unary :: "(int \<Rightarrow> int) \<Rightarrow> stack \<Rightarrow> stack outcome" where
  "unary f s = bind (PopInt s) (\<lambda>(m, s'). PushInt (f m) s')"

definition binary :: "(int \<Rightarrow> int \<Rightarrow> int) \<Rightarrow> stack \<Rightarrow> stack outcome" where
  "binary f s = bind (PopInt s) (\<lambda>(v0, s1). bind (PopInt s1) (\<lambda>(v1, s2). PushInt (f v0 v1) s2))"

definition opcode1Add :: opfun where
  "opcode1Add env op data = on_dstack (unary (\<lambda>m. wrap64 (m + 1)))"

definition opcode1Sub :: opfun where
  "opcode1Sub env op data = on_dstack (unary (\<lambda>m. wrap64 (m - 1)))"

definition opcodeNegate :: opfun where
  "opcodeNegate env op data = on_dstack (unary (\<lambda>m. wrap64 (- m)))"

definition opcodeAbs :: opfun where
  "opcodeAbs env op data = on_dstack (unary (\<lambda>m. if m < 0 then wrap64 (- m) else m))"

definition opcodeNot :: opfun where
  "opcodeNot env op data = on_dstack (unary (\<lambda>m. if m = 0 then 1 else 0))"

definition opcode0NotEqual :: opfun where
  "opcode0NotEqual env op data = on_dstack (unary (\<lambda>m. if m \<noteq> 0 then 1 else m))"

definition opcodeAdd :: opfun where
  "opcodeAdd env op data = on_dstack (binary (\<lambda>v0 v1. wrap64 (v0 + v1)))"

definition opcodeSub :: opfun where
  "opcodeSub env op data = on_dstack (binary (\<lambda>v0 v1. wrap64 (v1 - v0)))"

definition opcodeBoolAnd :: opfun where
  "opcodeBoolAnd env op data = on_dstack (binary (\<lambda>v0 v1. if v0 \<noteq> 0 \<and> v1 \<noteq> 0 then 1 else 0))"

definition opcodeBoolOr :: opfun where
  "opcodeBoolOr env op data = on_dstack (binary (\<lambda>v0 v1. if v0 \<noteq> 0 \<or> v1 \<noteq> 0 then 1 else 0))"

definition opcodeNumEqual :: opfun where
  "opcodeNumEqual env op data = on_dstack (binary (\<lambda>v0 v1. if v0 = v1 then 1 else 0))"

definition opcodeNumEqualVerify :: opfun where
  "opcodeNumEqualVerify env op data vm =
     bind (opcodeNumEqual env op data vm) (abstractVerify ''ErrNumEqualVerify'')"

definition opcodeNumNotEqual :: opfun where
  "opcodeNumNotEqual env op data = on_dstack (binary (\<lambda>v0 v1. if v0 \<noteq> v1 then 1 else 0))"

definition opcodeLessThan :: opfun where
  "opcodeLessThan env op data = on_dstack (binary (\<lambda>v0 v1. if v1 < v0 then 1 else 0))"

definition opcodeGreaterThan :: opfun where
  "opcodeGreaterThan env op data = on_dstack (binary (\<lambda>v0 v1. if v1 > v0 then 1 else 0))"

definition opcodeLessThanOrEqual :: opfun where
  "opcodeLessThanOrEqual env op data = on_dstack (binary (\<lambda>v0 v1. if v1 \<le> v0 then 1 else 0))"

definition opcodeGreaterThanOrEqual :: opfun where
  "opcodeGreaterThanOrEqual env op data = on_dstack (binary (\<lambda>v0 v1. if v1 \<ge> v0 then 1 else 0))"

definition opcodeMin :: opfun where
  "opcodeMin env op data = on_dstack (binary (\<lambda>v0 v1. if v1 < v0 then v1 else v0))"

definition opcodeMax :: opfun where
  "opcodeMax env op data = on_dstack (binary (\<lambda>v0 v1. if v1 > v0 then v1 else v0))"

definition opcodeWithin :: opfun where
  "opcodeWithin env op data = on_dstack (\<lambda>s.
     bind (PopInt s) (\<lambda>(maxVal, s1). bind (PopInt s1) (\<lambda>(minVal, s2). bind (PopInt s2) (\<lambda>(x, s3).
       PushInt (if x \<ge> minVal \<and> x < maxVal then 1 else 0) s3))))"

section \<open>Hashes and signatures\<close>

definition hash_top :: "(bytes \<Rightarrow> bytes) \<Rightarrow> Engine \<Rightarrow> Engine outcome" where
  "hash_top h = on_dstack (\<lambda>s. bind (PopByteArray s) (\<lambda>(buf, s'). Ok (PushByteArray (h buf) s')))"

definition opcodeRipemd160 :: opfun where
  "opcodeRipemd160 env op data = hash_top (ripemd160 env)"

definition opcodeSha1 :: opfun where
  "opcodeSha1 env op data = hash_top (sha1 env)"

definition opcodeSha256 :: opfun where
  "opcodeSha256 env op data = hash_top (sha256 env)"

definition opcodeHash160 :: opfun where
  "opcodeHash160 env op data = hash_top (\<lambda>b. ripemd160 env (sha256 env b))"

definition opcodeHash256 :: opfun where
  "opcodeHash256 env op data = hash_top (\<lambda>b. sha256 env (sha256 env b))"

definition opcodeCodeSeparator :: opfun where
  "opcodeCodeSeparator env op data vm =
     Ok (vm\<lparr>lastCodeSep := tk_offset (tokenizer vm),
           taprootCtx := map_option (\<lambda>c. c\<lparr>codeSepPos := tk_opcodePos (tokenizer vm)\<rparr>) (taprootCtx vm)\<rparr>)"

definition tallysigOp :: "taprootExecutionCtx \<Rightarrow> taprootExecutionCtx outcome" where
  "tallysigOp t =
     (let t' = t\<lparr>sigOpsBudget := wrap32 (sigOpsBudget t - 50)\<rparr>
      in if sigOpsBudget t' < 0 then Err ''ErrTaprootMaxSigOps'' else Ok t')"

text \<open>The end of \<^verbatim>\<open>opcodeCheckSig\<close>, once the verifier has given its verdict.\<close>

definition push_verdict :: "bool \<Rightarrow> bytes \<Rightarrow> Engine \<Rightarrow> Engine outcome" where
  "push_verdict valid fullSigBytes vm =
     (if \<not> valid \<and> fullSigBytes \<noteq> [] \<and> (taprootCtx vm \<noteq> None \<or> hasFlag vm ScriptVerifyNullFail)
      then Err ''ErrNullFail'' else Ok (vm\<lparr>dstack := PushBool valid (dstack vm)\<rparr>))"

definition base_checksig :: "sig_result \<Rightarrow> bytes \<Rightarrow> Engine \<Rightarrow> Engine outcome" where
  "base_checksig res fullSigBytes vm =
     (case res of
        Sig_bad_encoding \<Rightarrow> Ok (vm\<lparr>dstack := PushBool False (dstack vm)\<rparr>)
      | Sig_valid valid \<Rightarrow> push_verdict valid fullSigBytes vm)"

definition tap_checksig :: "script_env \<Rightarrow> bytes \<Rightarrow> bytes \<Rightarrow> taprootExecutionCtx \<Rightarrow> Engine \<Rightarrow> Engine outcome" where
  "tap_checksig env pkBytes fullSigBytes ctx vm0 =
     bind (if fullSigBytes \<noteq> [] then tallysigOp ctx else Ok ctx) (\<lambda>ctx'.
       let vm = vm0\<lparr>taprootCtx := Some ctx'\<rparr>
       in if pkBytes = [] then Err ''ErrTaprootPubkeyIsEmpty''
          else if fullSigBytes = [] then Ok (vm\<lparr>dstack := PushByteArray [] (dstack vm)\<rparr>)
          else bind (tapscript_verifier env pkBytes fullSigBytes vm) (\<lambda>valid. push_verdict valid fullSigBytes vm))"

definition opcodeCheckSig :: opfun where
  "opcodeCheckSig env op data vm0 =
     bind (PopByteArray (dstack vm0)) (\<lambda>(pkBytes, s1).
     bind (PopByteArray s1) (\<lambda>(fullSigBytes, s2).
       let vm = vm0\<lparr>dstack := s2\<rparr>
       in if taprootCtx vm = None \<and> fullSigBytes = [] then Ok (vm\<lparr>dstack := PushBool False (dstack vm)\<rparr>)
          else if witnessProgram vm = None
          then bind (base_verifier env pkBytes fullSigBytes vm) (\<lambda>res. base_checksig res fullSigBytes vm)
          else if isWitnessVersionActive BaseSegwitWitnessVersion vm
          then bind (segwit_verifier env pkBytes fullSigBytes vm) (\<lambda>res. base_checksig res fullSigBytes vm)
          else case taprootCtx vm of
                 Some ctx \<Rightarrow> tap_checksig env pkBytes fullSigBytes ctx vm
               | None \<Rightarrow> Panic ''nil pointer dereference''))"

definition opcodeCheckSigVerify :: opfun where
  "opcodeCheckSigVerify env op data vm =
     bind (opcodeCheckSig env op data vm) (abstractVerify ''ErrCheckSigVerify'')"

definition opcodeCheckSigAdd :: opfun where
  "opcodeCheckSigAdd env op data vm0 =
     (case taprootCtx vm0 of
        None \<Rightarrow> Err ''ErrReservedOpcode''
      | Some ctx \<Rightarrow>
          bind (PopByteArray (dstack vm0)) (\<lambda>(pubKeyBytes, s1).
          bind (PopInt s1) (\<lambda>(accumulatorInt, s2).
          bind (PopByteArray s2) (\<lambda>(sigBytes, s3).
          bind (if sigBytes \<noteq> [] then tallysigOp ctx else Ok ctx) (\<lambda>ctx'.
            let vm = vm0\<lparr>dstack := s3, taprootCtx := Some ctx'\<rparr>
            in if pubKeyBytes = [] then Err ''ErrTaprootPubkeyIsEmpty''
               else if sigBytes = [] then on_dstack (PushInt accumulatorInt) vm
               else bind (tapscript_verifier env pubKeyBytes sigBytes vm) (\<lambda>valid.
                    if \<not> valid then Err ''ErrNullFail''
                    else on_dstack (PushInt (wrap64 (accumulatorInt + 1))) vm))))))"

section \<open>Multisignatures\<close>

fun pop_many :: "nat \<Rightarrow> stack \<Rightarrow> (bytes list \<times> stack) outcome" where
  "pop_many 0 s = Ok ([], s)"
| "pop_many (Suc n) s =
     bind (PopByteArray s) (\<lambda>(x, s1). bind (pop_many n s1) (\<lambda>(xs, s2). Ok (x # xs, s2)))"

text \<open>
  The matching loop: the signatures still to match and the keys still to try.  It gives up when
  there are more signatures than keys left; an empty signature or one that does not parse moves on
  to the next key.
\<close>

fun multi_loop :: "(bytes \<Rightarrow> bytes \<Rightarrow> sig_result outcome) \<Rightarrow> bytes list \<Rightarrow> bytes list \<Rightarrow> bool outcome" where
  "multi_loop check [] ks = Ok True"
| "multi_loop check (s # ss) [] = Ok False"
| "multi_loop check (s # ss) (k # ks) =
     (if length (s # ss) > length (k # ks) then Ok False
      else if s = [] then multi_loop check (s # ss) ks
      else bind (check s k) (\<lambda>res.
             case res of
               Sig_bad_encoding \<Rightarrow> multi_loop check (s # ss) ks
             | Sig_valid valid \<Rightarrow> if valid then multi_loop check ss ks else multi_loop check (s # ss) ks))"

definition opcodeCheckMultiSig :: opfun where
  "opcodeCheckMultiSig env op data vm0 =
     (if taprootCtx vm0 \<noteq> None then Err ''ErrTapscriptCheckMultisig''
      else bind (PopInt (dstack vm0)) (\<lambda>(numKeys, s1).
        let numPubKeys = num_Int32 numKeys; ops = numOps vm0 + numPubKeys
        in if numPubKeys < 0 \<or> numPubKeys > MaxPubKeysPerMultiSig then Err ''ErrInvalidPubKeyCount''
           else if ops > MaxOpsPerScript then Err ''ErrTooManyOperations''
           else bind (pop_many (nat numPubKeys) s1) (\<lambda>(pubKeys, s2).
             bind (PopInt s2) (\<lambda>(numSigs, s3).
             let numSignatures = num_Int32 numSigs
             in if numSignatures < 0 \<or> numSignatures > numPubKeys then Err ''ErrInvalidSignatureCount''
                else bind (pop_many (nat numSignatures) s3) (\<lambda>(signatures, s4).
                  bind (PopByteArray s4) (\<lambda>(dummy, s5).
                  let vm = vm0\<lparr>dstack := s5, numOps := ops\<rparr>
                  in if hasFlag vm ScriptStrictMultiSig \<and> dummy \<noteq> [] then Err ''ErrSigNullDummy''
                     else bind (subScript vm) (\<lambda>script0.
                       let script = (if isWitnessVersionActive 0 vm then script0
                                     else foldl removeOpcodeByData script0 signatures)
                       in bind (multi_loop (multisig_verifier env vm script) signatures pubKeys) (\<lambda>success.
                          if \<not> success \<and> hasFlag vm ScriptVerifyNullFail \<and> list_ex (\<lambda>sg. sg \<noteq> []) signatures
                          then Err ''ErrNullFail''
                          else Ok (vm\<lparr>dstack := PushBool success (dstack vm)\<rparr>))))))))) "

definition opcodeCheckMultiSigVerify :: opfun where
  "opcodeCheckMultiSigVerify env op data vm =
     bind (opcodeCheckMultiSig env op data vm) (abstractVerify ''ErrCheckMultiSigVerify'')"

section \<open>The opcode table\<close>

text \<open>The handler column of \<^verbatim>\<open>opcodeArray\<close>; opcodes not listed are invalid.\<close>

definition opcode_table :: "(nat \<times> opfun) list" where
  "opcode_table = [
    (0, opcodeFalse), (79, opcode1Negate), (80, opcodeReserved), (97, opcodeNop), (98, opcodeReserved),
    (99, opcodeIf), (100, opcodeNotIf), (101, opcodeReserved), (102, opcodeReserved), (103, opcodeElse),
    (104, opcodeEndif), (105, opcodeVerify), (106, opcodeReturn), (107, opcodeToAltStack),
    (108, opcodeFromAltStack), (109, opcode2Drop), (110, opcode2Dup), (111, opcode3Dup),
    (112, opcode2Over), (113, opcode2Rot), (114, opcode2Swap), (115, opcodeIfDup), (116, opcodeDepth),
    (117, opcodeDrop), (118, opcodeDup), (119, opcodeNip), (120, opcodeOver), (121, opcodePick),
    (122, opcodeRoll), (123, opcodeRot), (124, opcodeSwap), (125, opcodeTuck), (126, opcodeDisabled),
    (127, opcodeDisabled), (128, opcodeDisabled), (129, opcodeDisabled), (130, opcodeSize),
    (131, opcodeDisabled), (132, opcodeDisabled), (133, opcodeDisabled), (134, opcodeDisabled),
    (135, opcodeEqual), (136, opcodeEqualVerify), (137, opcodeReserved), (138, opcodeReserved),
    (139, opcode1Add), (140, opcode1Sub), (141, opcodeDisabled), (142, opcodeDisabled),
    (143, opcodeNegate), (144, opcodeAbs), (145, opcodeNot), (146, opcode0NotEqual), (147, opcodeAdd),
    (148, opcodeSub), (149, opcodeDisabled), (150, opcodeDisabled), (151, opcodeDisabled),
    (152, opcodeDisabled), (153, opcodeDisabled), (154, opcodeBoolAnd), (155, opcodeBoolOr),
    (156, opcodeNumEqual), (157, opcodeNumEqualVerify), (158, opcodeNumNotEqual), (159, opcodeLessThan),
    (160, opcodeGreaterThan), (161, opcodeLessThanOrEqual), (162, opcodeGreaterThanOrEqual),
    (163, opcodeMin), (164, opcodeMax), (165, opcodeWithin), (166, opcodeRipemd160), (167, opcodeSha1),
    (168, opcodeSha256), (169, opcodeHash160), (170, opcodeHash256), (171, opcodeCodeSeparator),
    (172, opcodeCheckSig), (173, opcodeCheckSigVerify), (174, opcodeCheckMultiSig),
    (175, opcodeCheckMultiSigVerify), (176, opcodeNop), (177, opcodeCheckLockTimeVerify),
    (178, opcodeCheckSequenceVerify), (179, opcodeNop), (180, opcodeNop), (181, opcodeNop),
    (182, opcodeNop), (183, opcodeNop), (184, opcodeNop), (185, opcodeNop), (186, opcodeCheckSigAdd)]"

definition opfunc :: opfun where
  "opfunc env op =
     (if 1 \<le> op \<and> op \<le> OP_PUSHDATA4 then opcodePushData env op
      else if OP_1 \<le> op \<and> op \<le> OP_16 then opcodeN env op
      else case map_of opcode_table op of Some h \<Rightarrow> h env op | None \<Rightarrow> opcodeInvalid env op)"

end
