(* ===== verification/Script_Builder.thy ===== *)
theory Script_Builder
  imports Script_Opcodes
begin

text \<open>
  The script builder (\<^verbatim>\<open>coin/OrcaNet/txscript/scriptbuilder.go\<close>), the engine's check for
  minimal pushes (\<^verbatim>\<open>checkMinimalDataPush\<close> in \<^verbatim>\<open>engine.go\<close>) and two standard scripts
  (\<^verbatim>\<open>standard.go\<close>).
\<close>

section \<open>The code\<close>

record ScriptBuilder =
  sb_script :: bytes
  sb_err :: "string option"

definition NewScriptBuilder :: ScriptBuilder where
  "NewScriptBuilder = \<lparr>sb_script = [], sb_err = None\<rparr>"

abbreviation (input) MaxScriptSize :: nat where "MaxScriptSize \<equiv> 10000"

definition not_canonical :: "ScriptBuilder \<Rightarrow> ScriptBuilder" where
  "not_canonical b = b\<lparr>sb_err := Some ''ErrScriptNotCanonical''\<rparr>"

definition AddOp :: "nat \<Rightarrow> ScriptBuilder \<Rightarrow> ScriptBuilder" where
  "AddOp opcode b =
     (if sb_err b \<noteq> None then b
      else if length (sb_script b) + 1 > MaxScriptSize then not_canonical b
      else b\<lparr>sb_script := sb_script b @ [of_nat opcode]\<rparr>)"

definition AddOps :: "bytes \<Rightarrow> ScriptBuilder \<Rightarrow> ScriptBuilder" where
  "AddOps opcodes b =
     (if sb_err b \<noteq> None then b
      else if length (sb_script b) + length opcodes > MaxScriptSize then not_canonical b
      else b\<lparr>sb_script := sb_script b @ opcodes\<rparr>)"

definition canonicalDataSize :: "bytes \<Rightarrow> nat" where
  "canonicalDataSize data =
     (let dataLen = length data
      in if dataLen = 0 then 1
         else if dataLen = 1 \<and> data ! 0 \<le> 16 then 1
         else if dataLen = 1 \<and> data ! 0 = 0x81 then 1
         else if dataLen < OP_PUSHDATA1 then 1 + dataLen
         else if dataLen \<le> 0xff then 2 + dataLen
         else if dataLen \<le> 0xffff then 3 + dataLen
         else 5 + dataLen)"

text \<open>The bytes that \<^verbatim>\<open>addData\<close> appends.\<close>

definition push_bytes :: "bytes \<Rightarrow> bytes" where
  "push_bytes data =
     (let dataLen = length data
      in if dataLen = 0 \<or> dataLen = 1 \<and> data ! 0 = 0 then [of_nat OP_0]
         else if dataLen = 1 \<and> data ! 0 \<le> 16 then [of_nat (OP_1 - 1) + data ! 0]
         else if dataLen = 1 \<and> data ! 0 = 0x81 then [of_nat OP_1NEGATE]
         else if dataLen < OP_PUSHDATA1 then of_nat dataLen # data
         else if dataLen \<le> 0xff then of_nat OP_PUSHDATA1 # of_nat dataLen # data
         else if dataLen \<le> 0xffff then of_nat OP_PUSHDATA2 # le_bytes 2 dataLen @ data
         else of_nat OP_PUSHDATA4 # le_bytes 4 dataLen @ data)"

definition addData :: "bytes \<Rightarrow> ScriptBuilder \<Rightarrow> ScriptBuilder" where
  "addData data b = b\<lparr>sb_script := sb_script b @ push_bytes data\<rparr>"

definition AddFullData :: "bytes \<Rightarrow> ScriptBuilder \<Rightarrow> ScriptBuilder" where
  "AddFullData data b = (if sb_err b \<noteq> None then b else addData data b)"

definition AddData :: "bytes \<Rightarrow> ScriptBuilder \<Rightarrow> ScriptBuilder" where
  "AddData data b =
     (if sb_err b \<noteq> None then b
      else if length (sb_script b) + canonicalDataSize data > MaxScriptSize then not_canonical b
      else if length data > MaxScriptElementSize then not_canonical b
      else addData data b)"

definition AddInt64 :: "int \<Rightarrow> ScriptBuilder \<Rightarrow> ScriptBuilder outcome" where
  "AddInt64 val b =
     (if sb_err b \<noteq> None then Ok b
      else if length (sb_script b) + 1 > MaxScriptSize then Ok (not_canonical b)
      else if val = 0 then Ok (b\<lparr>sb_script := sb_script b @ [of_nat OP_0]\<rparr>)
      else if val = - 1 \<or> (1 \<le> val \<and> val \<le> 16)
      then Ok (b\<lparr>sb_script := sb_script b @ [of_int (int (OP_1 - 1) + val)]\<rparr>)
      else bind (num_Bytes val) (\<lambda>d. Ok (AddData d b)))"

definition builder_Script :: "ScriptBuilder \<Rightarrow> bytes outcome" where
  "builder_Script b = (case sb_err b of None \<Rightarrow> Ok (sb_script b) | Some e \<Rightarrow> Err e)"

definition checkMinimalDataPush :: "nat \<Rightarrow> bytes \<Rightarrow> unit outcome" where
  "checkMinimalDataPush opcodeVal data =
     (let dataLen = length data; bad = Err ''ErrMinimalData''
      in if dataLen = 0 \<and> opcodeVal \<noteq> OP_0 then bad
         else if dataLen = 1 \<and> 1 \<le> data ! 0 \<and> data ! 0 \<le> 16 then
           (if opcodeVal \<noteq> (OP_1 + unat (data ! 0) - 1) then bad else Ok ())
         else if dataLen = 1 \<and> data ! 0 = 0x81 then (if opcodeVal \<noteq> OP_1NEGATE then bad else Ok ())
         else if dataLen \<le> 75 then (if opcodeVal \<noteq> dataLen then bad else Ok ())
         else if dataLen \<le> 255 then (if opcodeVal \<noteq> OP_PUSHDATA1 then bad else Ok ())
         else if dataLen \<le> 65535 then (if opcodeVal \<noteq> OP_PUSHDATA2 then bad else Ok ())
         else Ok ())"

definition payToPubKeyHashScript :: "bytes \<Rightarrow> bytes outcome" where
  "payToPubKeyHashScript pubKeyHash =
     builder_Script (AddOp 172 (AddOp 136 (AddData pubKeyHash (AddOp 169 (AddOp 118 NewScriptBuilder)))))"

definition extractScriptHash :: "bytes \<Rightarrow> bytes option" where
  "extractScriptHash script =
     (if length script = 23 \<and> script ! 0 = 0xa9 \<and> script ! 1 = 0x14 \<and> script ! 22 = 0x87
      then Some (take 20 (drop 2 script)) else None)"

definition isScriptHashScript :: "bytes \<Rightarrow> bool" where
  "isScriptHashScript script \<longleftrightarrow> extractScriptHash script \<noteq> None"

section \<open>What the builder writes\<close>

lemma num_Bytes_small:
  assumes "0 < n" and "n < 128"
  shows "num_Bytes n = Ok [of_int n]"
proof -
  have "num_loop n = [of_int n]"
    using assms by (simp add: num_loop.simps [of n] num_loop.simps [of 0])
  moreover have "unat (of_int n :: byte) < 128"
  proof -
    have "of_int n = (of_nat (nat n) :: byte)"
      using assms(1) by simp
    then show ?thesis
      using assms by (simp only: unsigned_of_nat take_bit_nat_def) simp
  qed
  ultimately show ?thesis
    using assms by (simp add: num_Bytes_def byte_and_80)
qed

lemma num_Bytes_minus_one: "num_Bytes (- 1) = Ok [0x81]"
  by (simp add: num_Bytes_def num_loop.simps [of 1] num_loop.simps [of 0])

text \<open>Which token \<^verbatim>\<open>addData\<close> writes.\<close>

definition push_token :: "bytes \<Rightarrow> nat \<times> bytes" where
  "push_token data =
     (if data = [] then (0, [])
      else if length data = 1 \<and> data ! 0 \<le> 16 then (80 + unat (data ! 0), [])
      else if length data = 1 \<and> data ! 0 = 0x81 then (79, [])
      else if length data \<le> 75 then (length data, data)
      else if length data \<le> 255 then (76, data)
      else (77, data))"

lemma single: "length data = 1 \<Longrightarrow> data = [data ! 0]"
  by (cases data) auto

lemma push_token_cases:
  fixes data :: bytes
  assumes "data \<noteq> [0]" and "length data \<le> 65535"
  obtains (empty) "data = []" "push_token data = (0, [])"
  | (small) x where "data = [x]" "1 \<le> unat x" "unat x \<le> 16" "x \<le> 16" "x \<noteq> 0" "x \<noteq> 0x81"
      "push_token data = (80 + unat x, [])"
  | (negate) "data = [0x81]" "push_token data = (79, [])"
  | (direct) "data \<noteq> []" "length data \<le> 75" "length data \<noteq> 1 \<or> \<not> data ! 0 \<le> 16 \<and> data ! 0 \<noteq> 0 \<and> data ! 0 \<noteq> 0x81"
      "push_token data = (length data, data)"
  | (one) "75 < length data" "length data \<le> 255" "push_token data = (76, data)"
  | (two) "255 < length data" "length data \<le> 65535" "push_token data = (77, data)"
proof (cases "length data = 1")
  case True
  then have data: "data = [data ! 0]"
    by (rule single)
  have nz: "data ! 0 \<noteq> 0"
    using data assms(1) by metis
  consider "data ! 0 \<le> 16" | "data ! 0 = 0x81" | "\<not> data ! 0 \<le> 16" "data ! 0 \<noteq> 0x81"
    by blast
  then show ?thesis
  proof cases
    case 1
    then have "unat (data ! 0) \<le> 16" and "data ! 0 \<noteq> 0x81"
      by (auto simp: word_le_nat_alt)
    moreover have "1 \<le> unat (data ! 0)"
      using nz unat_gt_0 [of "data ! 0"] by simp
    moreover have "push_token data = (80 + unat (data ! 0), [])"
      using True 1 by (auto simp: push_token_def)
    ultimately show ?thesis
      using small data nz 1 by blast
  next
    case 2
    then show ?thesis
      using negate data True by (auto simp: push_token_def)
  next
    case 3
    then show ?thesis
      using True nz by (intro direct) (auto simp: push_token_def)
  qed
next
  case False
  then show ?thesis
    using that(1,4-6) assms(2)
    by (cases "length data \<le> 75"; cases "length data \<le> 255"; cases "data = []") (auto simp: push_token_def)
qed

lemma op_length_push:
  "op_length 0 = 1" "op_length 76 = - 1" "op_length 77 = - 2" "op_length 79 = 1"
  "78 < n \<Longrightarrow> op_length n = 1" "1 \<le> n \<Longrightarrow> n \<le> 75 \<Longrightarrow> op_length n = int n + 1"
  by (simp_all add: op_length_def)

lemma push_token_writes:
  assumes "data \<noteq> [0]" and "length data \<le> 65535" and "push_token data = (opc, d)"
  shows "push_bytes data = token_bytes opc d \<and> token_ok (opc, d) \<and> length (push_bytes data) = canonicalDataSize data"
  using assms(1,2)
  by (cases rule: push_token_cases)
     (use assms(3) in \<open>auto simp: push_bytes_def token_bytes_def token_ok_def canonicalDataSize_def
        op_length_push Let_def Suc_le_eq\<close>)

lemma map_of_opcode_table: "map_of opcode_table 0 = Some opcodeFalse" "map_of opcode_table 79 = Some opcode1Negate"
  by (simp_all add: opcode_table_def)

lemma push_token_runs:
  assumes "data \<noteq> [0]" and "length data \<le> 65535" and "push_token data = (opc, d)"
  shows "opfunc env opc d vm = Ok (vm\<lparr>dstack := PushByteArray data (dstack vm)\<rparr>)"
  using assms(1,2)
proof (cases rule: push_token_cases)
  case (small x)
  have "int 0 < int (unat x)" and "int (unat x) < int 128"
    unfolding of_nat_less_iff using small(2,3) by linarith+
  then have "num_Bytes (int (unat x)) = Ok [x]"
    using num_Bytes_small [of "int (unat x)"] by simp
  then show ?thesis
    using small assms(3) by (auto simp: opfunc_def opcodeN_def on_dstack_def PushInt_def)
next
  case direct
  then show ?thesis
    using assms(3) by (auto simp: opfunc_def opcodePushData_def on_dstack_def Suc_le_eq)
qed (use assms(3) in \<open>auto simp: opfunc_def map_of_opcode_table opcodeFalse_def opcode1Negate_def
      opcodePushData_def on_dstack_def PushInt_def num_Bytes_minus_one\<close>)

lemma minimal_push_unique:
  assumes "data \<noteq> [0]" and "length data \<le> 65535" and "push_token data = (opc, d)" and "n \<le> 78"
  shows "checkMinimalDataPush n data = Ok () \<longleftrightarrow> n = opc \<and> d = data"
  using assms(1,2)
  by (cases rule: push_token_cases)
     (use assms(3,4) in \<open>auto simp: checkMinimalDataPush_def Let_def word_le_nat_alt\<close>)


text \<open>
  The byte zero is not pushed as it is.  \<^verbatim>\<open>AddData\<close> of the single byte zero writes the
  opcode that pushes the empty string, and the engine's minimal-push rule wants a different opcode
  for that byte.
\<close>

theorem add_data_zero_byte:
  "AddData [0] NewScriptBuilder = \<lparr>sb_script = token_bytes 0 [], sb_err = None\<rparr> \<and>
   opfunc env 0 [] vm = Ok (vm\<lparr>dstack := PushByteArray [] (dstack vm)\<rparr>) \<and>
   (checkMinimalDataPush n [0] = Ok ()) = (n = 1)"
  by (simp add: AddData_def NewScriptBuilder_def addData_def push_bytes_def canonicalDataSize_def
      token_bytes_def op_length_push opfunc_def map_of_opcode_table opcodeFalse_def on_dstack_def
      checkMinimalDataPush_def)


end
