(* ===== verification/Script_Multisig.thy ===== *)
theory Script_Multisig
  imports Script_Builder
begin

text \<open>
  What the loops behind \<^verbatim>\<open>OP_CHECKMULTISIG\<close> compute: the greedy matching of signatures to
  keys, and the removal of signatures from the script before it is hashed.
\<close>

section \<open>Matching signatures to keys\<close>

definition sig_matches :: "(bytes \<Rightarrow> bytes \<Rightarrow> sig_result outcome) \<Rightarrow> bytes \<Rightarrow> bytes \<Rightarrow> bool" where
  "sig_matches check s k \<longleftrightarrow> s \<noteq> [] \<and> check s k = Ok (Sig_valid True)"

lemma emb_match: "P x y \<Longrightarrow> list_emb P (x # xs) (y # ys) \<longleftrightarrow> list_emb P xs ys"
  by (auto intro: list_emb_Cons2 elim: list_emb.cases dest: list_emb_ConsD)

lemma emb_skip: "\<not> P x y \<Longrightarrow> list_emb P (x # xs) (y # ys) \<longleftrightarrow> list_emb P (x # xs) ys"
  by (auto intro: list_emb_Cons elim: list_emb.cases)

lemma multi_loop_emb:
  assumes "\<forall>s\<in>set ss. \<forall>k\<in>set ks. \<exists>res. check s k = Ok res"
  shows "multi_loop check ss ks = Ok (list_emb (sig_matches check) ss ks)"
  using assms
proof (induction check ss ks rule: multi_loop.induct)
  case (3 check s ss k ks)
  show ?case
  proof (cases "length (s # ss) > length (k # ks)")
    case True
    then show ?thesis
      using list_emb_length [of "sig_matches check" "s # ss" "k # ks"] by auto
  next
    case False
    then show ?thesis
    proof (cases "sig_matches check s k")
      case True
      then show ?thesis
        using False "3.IH"(3) [of "Sig_valid True" True] "3.prems" by (auto simp: sig_matches_def emb_match)
    next
      case nomatch: False
      then show ?thesis
        using False "3.IH" "3.prems"
        by (cases "check s k") (auto simp: sig_matches_def emb_skip split: if_splits sig_result.splits)
    qed
  qed
qed simp_all



section \<open>Removing signatures from a script\<close>

lemma remove_loop_tokens:
  assumes "tok_ok t" and "tk_err t = None" and "list_all token_ok ts"
    and "drop (tk_offset t) (tk_script t) = script_of ts"
  shows "remove_loop gone t (Some r) = Some (r @ script_of (filter (\<lambda>(opc, data). \<not> gone opc data) ts)) \<and>
    remove_loop gone t None =
      (if list_ex (\<lambda>(opc, data). gone opc data) ts
       then Some (take (tk_offset t) (tk_script t) @ script_of (filter (\<lambda>(opc, data). \<not> gone opc data) ts)) else None)"
  using assms
proof (induction ts arbitrary: t r)
  case Nil
  then have "tk_Next t = (False, t)"
    by (simp add: tk_Next_def tk_Done_ok tok_ok_def)
  then show ?case
    using Nil by (simp add: remove_loop.simps [of gone t])
next
  case (Cons x ts)
  obtain opc dat where x: "x = (opc, dat)"
    by (cases x)
  have token: "token_ok (opc, dat)"
    and here: "drop (tk_offset t) (tk_script t) = token_bytes opc dat @ script_of ts"
    using Cons.prems(3,4) x by simp_all
  obtain t' where t': "tk_Next t = (True, t')" "tk_op t' = opc" "tk_data t' = dat" "tk_script t' = tk_script t"
      "tk_err t' = None" "tk_offset t' = tk_offset t + length (token_bytes opc dat)"
    using tk_Next_reads [OF Cons.prems(1,2) token here] by blast
  have rest: "drop (tk_offset t') (tk_script t') = script_of ts"
  proof -
    have "drop (tk_offset t') (tk_script t') = drop (length (token_bytes opc dat)) (drop (tk_offset t) (tk_script t))"
      using t'(4,6) by (simp add: add.commute)
    then show ?thesis
      using here by simp
  qed
  have piece: "take (tk_offset t' - tk_offset t) (drop (tk_offset t) (tk_script t)) = token_bytes opc dat"
    using here t'(6) by simp
  have upto: "take (tk_offset t') (tk_script t') = take (tk_offset t) (tk_script t) @ token_bytes opc dat"
    using piece t'(4,6) by (simp add: take_add)
  note IH = Cons.IH [OF tk_Next_progress(1) [OF Cons.prems(1) t'(1)] t'(5) _ rest]
  show ?case
    using IH Cons.prems(1,3) x t'(1-3) piece upto
    by (auto simp: remove_loop.simps [of gone t])
qed

lemma remove_tokens:
  assumes "list_all token_ok ts" and "length (script_of ts) < 2 ^ 31"
  shows "(case remove_loop gone (MakeScriptTokenizer 0 (script_of ts)) None of None \<Rightarrow> script_of ts | Some r \<Rightarrow> r) =
    script_of (filter (\<lambda>(opc, data). \<not> gone opc data) ts)"
proof -
  let ?t = "MakeScriptTokenizer 0 (script_of ts)"
  have "tok_ok ?t" and "tk_err ?t = None" and "drop (tk_offset ?t) (tk_script ?t) = script_of ts"
      and zero: "tk_offset ?t = 0"
    using assms(2) by (simp_all add: tok_ok_Make) (simp_all add: MakeScriptTokenizer_def)
  from remove_loop_tokens [OF this(1,2) assms(1) this(3), of gone]
  have "remove_loop gone ?t None =
      (if list_ex (\<lambda>(opc, data). gone opc data) ts then Some (script_of (filter (\<lambda>(opc, data). \<not> gone opc data) ts)) else None)"
    by (simp add: zero)
  moreover have "filter (\<lambda>(opc, data). \<not> gone opc data) ts = ts" if "\<not> list_ex (\<lambda>(opc, data). gone opc data) ts"
    using that by (auto simp: list_ex_iff filter_id_conv)
  ultimately show ?thesis
    by auto
qed

lemma script_of_Nil: "script_of ts = [] \<Longrightarrow> ts = []"
  using token_bytes_nonempty by (cases ts) fastforce+

text \<open>
  Removing opcodes.  On a script made of well-formed tokens, \<^verbatim>\<open>removeOpcodeByData\<close>
  deletes exactly the canonical pushes whose data contains the given bytes, \<^verbatim>\<open>removeOpcodeRaw\<close>
  deletes exactly the given opcode, and both keep every other token as it is, in order.
\<close>

theorem remove_opcode_by_data:
  assumes "list_all token_ok ts" and "length (script_of ts) < 2 ^ 31" and "d \<noteq> []"
  shows "removeOpcodeByData (script_of ts) d =
      script_of (filter (\<lambda>(opc, data). \<not> (isCanonicalPush opc data \<and> sublist d data)) ts) \<and>
    removeOpcodeRaw (script_of ts) opcode = script_of (filter (\<lambda>(opc, _). opc \<noteq> opcode) ts)"
  using remove_tokens [OF assms(1,2), of "\<lambda>opc data. isCanonicalPush opc data \<and> sublist d data"]
    remove_tokens [OF assms(1,2), of "\<lambda>opc _. opc = opcode"] assms(3) script_of_Nil [of ts]
  by (auto simp: removeOpcodeByData_def removeOpcodeRaw_def)

theorem remove_opcode_by_data_witness:
  "removeOpcodeByData [0x02, 7, 8, 0x76, 0x02, 8, 8] [7] = [0x76, 0x02, 8, 8] \<and>
   removeOpcodeRaw [0x02, 7, 8, 0x76, 0x02, 8, 8] 118 = [0x02, 7, 8, 0x02, 8, 8]"
proof -
  let ?ts = "[(2, [7, 8]), (118, []), (2, [8, 8])] :: (nat \<times> bytes) list"
  have "script_of ?ts = [0x02, 7, 8, 0x76, 0x02, 8, 8]" and "script_of [(118, []), (2, [8, 8])] = [0x76, 0x02, 8, 8]"
      and "script_of [(2, [7, 8]), (2, [8, 8])] = [0x02, 7, 8, 0x02, 8, 8]"
    by (simp_all add: token_bytes_def op_length_def)
  moreover have "list_all token_ok ?ts"
    by (simp add: token_ok_def op_length_def)
  ultimately show ?thesis
    using remove_opcode_by_data [of ?ts "[7]" 118] by (simp add: isCanonicalPush_def sublist_Cons_right del: script_of.simps)
qed

end
