(* ===== verification/Script_Engine.thy ===== *)
theory Script_Engine
  imports Script_Multisig
begin

text \<open>
  The script engine (\<^verbatim>\<open>coin/OrcaNet/txscript/engine.go\<close>): executing one opcode, stepping
  through the signature script, the public key script and the scripts that pay-to-script-hash and
  witness programs add, and the final check.  The loop of \<^verbatim>\<open>Execute\<close> takes fuel; the lemmas
  give an amount that is always enough.  Debug callbacks and trace logging are left out, and so is
  the signature cache.
\<close>

section \<open>Executing one opcode\<close>

definition isOpcodeDisabled :: "nat \<Rightarrow> bool" where
  "isOpcodeDisabled opc \<longleftrightarrow>
     opc \<in> {126, 127, 128, 129, 131, 132, 133, 134, 141, 142, 149, 150, 151, 152, 153}"

definition isOpcodeAlwaysIllegal :: "nat \<Rightarrow> bool" where
  "isOpcodeAlwaysIllegal opc \<longleftrightarrow> opc \<in> {101, 102}"

definition isOpcodeConditional :: "nat \<Rightarrow> bool" where
  "isOpcodeConditional opc \<longleftrightarrow> opc \<in> {99, 100, 103, 104}"

definition executeOpcode :: "script_env \<Rightarrow> nat \<Rightarrow> bytes \<Rightarrow> Engine \<Rightarrow> Engine outcome" where
  "executeOpcode env opc data vm0 =
     (if isOpcodeDisabled opc then Err ''ErrDisabledOpcode''
      else if isOpcodeAlwaysIllegal opc then Err ''ErrReservedOpcode''
      else
        let counted = taprootCtx vm0 = None \<and> opc > OP_16;
            vm = (if counted then vm0\<lparr>numOps := numOps vm0 + 1\<rparr> else vm0)
        in if counted \<and> numOps vm > MaxOpsPerScript then Err ''ErrTooManyOperations''
           else if \<not> counted \<and> length data > MaxScriptElementSize then Err ''ErrElementTooBig''
           else if \<not> isBranchExecuting vm \<and> \<not> isOpcodeConditional opc then Ok vm
           else bind (if verifyMinimalData (dstack vm) \<and> isBranchExecuting vm \<and> opc \<le> OP_PUSHDATA4
                      then checkMinimalDataPush opc data else Ok ())
                  (\<lambda>_. opfunc env opc data vm))"

section \<open>Witness programs\<close>

definition newTaprootExecutionCtx :: "int \<Rightarrow> taprootExecutionCtx" where
  "newTaprootExecutionCtx inputWitnessSize =
     \<lparr>annex = [], codeSepPos = 2 ^ 32 - 1, tapLeafHash = zeroHash, sigOpsBudget = wrap32 (50 + inputWitnessSize),
      mustSucceed = False\<rparr>"

definition SetStack :: "bytes list \<Rightarrow> Engine \<Rightarrow> Engine" where
  "SetStack data vm = vm\<lparr>dstack := (dstack vm)\<lparr>stk := data\<rparr>\<rparr>"

definition GetStack :: "Engine \<Rightarrow> bytes list" where
  "GetStack vm = stk (dstack vm)"

definition ScriptHasOpSuccess :: "bytes \<Rightarrow> bool" where
  "ScriptHasOpSuccess witnessScript \<longleftrightarrow>
     list_ex (\<lambda>(opc, _). opc \<in> {80, 98, 126, 127, 128, 129, 131, 132, 133, 134, 137, 138, 141, 142} \<or>
                 149 \<le> opc \<and> opc \<le> 153 \<or> 187 \<le> opc \<and> opc \<le> 254)
       (fst (tk_run (MakeScriptTokenizer 0 witnessScript)))"

definition must_succeed :: "Engine \<Rightarrow> Engine" where
  "must_succeed vm = vm\<lparr>taprootCtx := map_option (\<lambda>c. c\<lparr>mustSucceed := True\<rparr>) (taprootCtx vm)\<rparr>"

text \<open>The element size check at the end of \<^verbatim>\<open>verifyWitnessProgram\<close>.\<close>

definition check_witness_stack :: "Engine \<Rightarrow> Engine outcome" where
  "check_witness_stack vm =
     (if isWitnessVersionActive TaprootWitnessVersion vm \<and> Depth (dstack vm) > 1000 then Err ''ErrStackOverflow''
      else if (isWitnessVersionActive TaprootWitnessVersion vm \<or> isWitnessVersionActive BaseSegwitWitnessVersion vm) \<and>
              list_ex (\<lambda>e. length e > MaxScriptElementSize) (GetStack vm)
      then Err ''ErrElementTooBig'' else Ok vm)"

definition verify_segwit :: "script_env \<Rightarrow> bytes \<Rightarrow> bytes list \<Rightarrow> Engine \<Rightarrow> Engine outcome" where
  "verify_segwit env program witness vm =
     (if length program = 20 then
        (if length witness \<noteq> 2 then Err ''ErrWitnessProgramMismatch''
         else bind (payToPubKeyHashScript program) (\<lambda>pkScript.
              bind (checkScriptParses (eng_version vm) pkScript) (\<lambda>_.
              Ok (SetStack witness (vm\<lparr>scripts := scripts vm @ [pkScript]\<rparr>)))))
      else if length program = 32 then
        (if witness = [] then Err ''ErrWitnessProgramEmpty''
         else let witnessScript = last witness
              in if length witnessScript > MaxScriptSize then Err ''ErrScriptTooBig''
                 else if sha256 env witnessScript \<noteq> program then Err ''ErrWitnessProgramMismatch''
                 else bind (checkScriptParses (eng_version vm) witnessScript) (\<lambda>_.
                      Ok (SetStack (butlast witness) (vm\<lparr>scripts := scripts vm @ [witnessScript]\<rparr>))))
      else Err ''ErrWitnessProgramWrongLength'')"

text \<open>
  Taproot spends; the flag says whether the function returns at once (a key spend, an unknown leaf
  version or an OP_SUCCESS) or goes on to the element size check.
\<close>

definition verify_tapscript :: "script_env \<Rightarrow> bytes \<Rightarrow> bytes list \<Rightarrow> Engine \<Rightarrow> (bool \<times> Engine) outcome" where
  "verify_tapscript env program witness vm =
     (let controlBytes = last witness; witnessScript = witness ! (length witness - 2)
      in bind (ParseControlBlock env controlBytes) (\<lambda>controlBlock.
         bind (VerifyTaprootLeafCommitment env controlBlock program witnessScript) (\<lambda>_.
         if ScriptHasOpSuccess witnessScript then
           (if hasFlag vm ScriptVerifyDiscourageOpSuccess then Err ''ErrDiscourageOpSuccess''
            else Ok (True, must_succeed vm))
         else if LeafVersion controlBlock \<noteq> 0xc0 then
           (if hasFlag vm ScriptVerifyDiscourageUpgradeableTaprootVersion
            then Err ''ErrDiscourageUpgradeableTaprootVersion'' else Ok (True, must_succeed vm))
         else bind (checkScriptParses (eng_version vm) witnessScript) (\<lambda>_.
           Ok (False, SetStack (take (length witness - 2) witness)
                 (vm\<lparr>taprootCtx := map_option (\<lambda>c. c\<lparr>tapLeafHash := TapHash env 0xc0 witnessScript\<rparr>) (taprootCtx vm),
                     scripts := scripts vm @ [witnessScript]\<rparr>))))))"

definition verify_taproot :: "script_env \<Rightarrow> bytes \<Rightarrow> bytes list \<Rightarrow> Engine \<Rightarrow> (bool \<times> Engine) outcome" where
  "verify_taproot env program witness0 vm0 =
     (if \<not> hasFlag vm0 ScriptVerifyTaproot then Ok (True, vm0)
      else if witness0 = [] then Err ''ErrWitnessProgramEmpty''
      else
        let ctx = newTaprootExecutionCtx (wrap32 (int (witness_SerializeSize witness0)));
            annexed = isAnnexedWitness witness0;
            vm = vm0\<lparr>taprootCtx := Some (if annexed then ctx\<lparr>annex := last witness0\<rparr> else ctx)\<rparr>;
            witness = (if annexed then butlast witness0 else witness0)
        in if length witness = 1
           then bind (VerifyTaprootKeySpend env program (witness ! 0) vm) (\<lambda>_. Ok (True, must_succeed vm))
           else verify_tapscript env program witness vm)"

definition verifyWitnessProgram :: "script_env \<Rightarrow> bytes list \<Rightarrow> Engine \<Rightarrow> Engine outcome" where
  "verifyWitnessProgram env witness vm =
     (let program = (case witnessProgram vm of Some p \<Rightarrow> p | None \<Rightarrow> [])
      in if isWitnessVersionActive BaseSegwitWitnessVersion vm
         then bind (verify_segwit env program witness vm) check_witness_stack
         else if isWitnessVersionActive TaprootWitnessVersion vm \<and> length program = 32 \<and> \<not> bip16 vm
         then bind (verify_taproot env program witness vm) (\<lambda>(stop, vm').
                if stop then Ok vm' else check_witness_stack vm')
         else if hasFlag vm ScriptVerifyDiscourageUpgradeableWitnessProgram
         then Err ''ErrDiscourageUpgradableWitnessProgram''
         else check_witness_stack (vm\<lparr>witnessProgram := None\<rparr>))"

section \<open>Stepping\<close>

definition checkValidPC :: "Engine \<Rightarrow> unit outcome" where
  "checkValidPC vm = (if scriptIdx vm \<ge> length (scripts vm) then Err ''ErrInvalidProgramCounter'' else Ok ())"

definition CheckErrorCondition :: "bool \<Rightarrow> Engine \<Rightarrow> Engine outcome" where
  "CheckErrorCondition finalScript vm =
     (if (case taprootCtx vm of Some c \<Rightarrow> mustSucceed c | None \<Rightarrow> False) then Ok vm
      else if scriptIdx vm < length (scripts vm) then Err ''ErrScriptUnfinished''
      else if finalScript \<and> isWitnessVersionActive BaseSegwitWitnessVersion vm \<and> Depth (dstack vm) \<noteq> 1
      then Err ''ErrEvalFalse''
      else if finalScript \<and> (hasFlag vm ScriptVerifyCleanStack \<or> taprootCtx vm \<noteq> None) \<and> Depth (dstack vm) \<noteq> 1
      then Err ''ErrCleanStack''
      else if Depth (dstack vm) < 1 then Err ''ErrEmptyStack''
      else bind (PopBool (dstack vm)) (\<lambda>(v, s). if \<not> v then Err ''ErrEvalFalse'' else Ok (vm\<lparr>dstack := s\<rparr>)))"

text \<open>Leaving a finished script: the alternate stack is dropped, the op count starts again.\<close>

definition leave_script :: "Engine \<Rightarrow> Engine" where
  "leave_script vm = vm\<lparr>astack := (astack vm)\<lparr>stk := []\<rparr>, numOps := 0, opcodeIdx := 0\<rparr>"

definition advance :: "Engine \<Rightarrow> Engine" where
  "advance vm = vm\<lparr>scriptIdx := scriptIdx vm + 1\<rparr>"

definition run_p2sh :: "Engine \<Rightarrow> Engine outcome" where
  "run_p2sh vm0 =
     bind (CheckErrorCondition False (advance vm0)) (\<lambda>vm.
       if savedFirstStack vm = [] then Panic ''index out of range''
       else let script = last (savedFirstStack vm)
            in bind (checkScriptParses (eng_version vm) script) (\<lambda>_.
               Ok (SetStack (butlast (savedFirstStack vm)) (vm\<lparr>scripts := scripts vm @ [script]\<rparr>))))"

definition run_witness :: "script_env \<Rightarrow> Engine \<Rightarrow> Engine outcome" where
  "run_witness env vm0 =
     bind (index (TxIns (tx vm0)) (txIdx vm0)) (\<lambda>txin. verifyWitnessProgram env (Witness txin) (advance vm0))"

definition next_script :: "script_env \<Rightarrow> Engine \<Rightarrow> Engine outcome" where
  "next_script env vm =
     (if scriptIdx vm = 0 \<and> bip16 vm then Ok ((advance vm)\<lparr>savedFirstStack := GetStack vm\<rparr>)
      else if scriptIdx vm = 1 \<and> bip16 vm then run_p2sh vm
      else if (scriptIdx vm = 1 \<and> witnessProgram vm \<noteq> None) \<or> (scriptIdx vm = 2 \<and> witnessProgram vm \<noteq> None \<and> bip16 vm)
      then run_witness env vm
      else Ok (advance vm))"

definition finish_script :: "script_env \<Rightarrow> Engine \<Rightarrow> (bool \<times> Engine) outcome" where
  "finish_script env vm0 =
     (if condStack vm0 \<noteq> [] then Err ''ErrUnbalancedConditional''
      else bind (next_script env (leave_script vm0)) (\<lambda>vm1.
        let vm2 = (if scriptIdx vm1 < length (scripts vm1) \<and> scripts vm1 ! scriptIdx vm1 = [] then advance vm1 else vm1);
            vm3 = vm2\<lparr>lastCodeSep := 0\<rparr>
        in if scriptIdx vm3 \<ge> length (scripts vm3) then Ok (True, vm3)
           else Ok (False, vm3\<lparr>tokenizer := MakeScriptTokenizer (eng_version vm3) (scripts vm3 ! scriptIdx vm3)\<rparr>)))"

definition Step :: "script_env \<Rightarrow> Engine \<Rightarrow> (bool \<times> Engine) outcome" where
  "Step env vm0 =
     bind (checkValidPC vm0) (\<lambda>_.
       case tk_Next (tokenizer vm0) of
         (False, t) \<Rightarrow> (case tk_err t of Some e \<Rightarrow> Err e | None \<Rightarrow> Err ''ErrInvalidProgramCounter'')
       | (True, t) \<Rightarrow>
           bind (executeOpcode env (tk_op t) (tk_data t) (vm0\<lparr>tokenizer := t\<rparr>)) (\<lambda>vm1.
             if wrap32 (Depth (dstack vm1) + Depth (astack vm1)) > 1000 then Err ''ErrStackOverflow''
             else let vm = vm1\<lparr>opcodeIdx := opcodeIdx vm1 + 1\<rparr>
                  in if tk_Done (tokenizer vm) then finish_script env vm else Ok (False, vm)))"

fun execute_loop :: "nat \<Rightarrow> script_env \<Rightarrow> Engine \<Rightarrow> Engine outcome option" where
  "execute_loop 0 env vm = None"
| "execute_loop (Suc fuel) env vm =
     (case Step env vm of
        Ok (True, vm') \<Rightarrow> Some (CheckErrorCondition True vm')
      | Ok (False, vm') \<Rightarrow> execute_loop fuel env vm'
      | Err e \<Rightarrow> Some (Err e)
      | Panic p \<Rightarrow> Some (Panic p))"

definition Execute :: "nat \<Rightarrow> script_env \<Rightarrow> Engine \<Rightarrow> Engine outcome option" where
  "Execute fuel env vm = (if eng_version vm \<noteq> 0 then Some (Ok vm) else execute_loop fuel env vm)"

end
