(* ===== verification/Script_Safety.thy ===== *)
theory Script_Safety
  imports Script_Engine
begin

text \<open>
  The opcode handlers keep the engine's data within bounds and do not panic: every item on the two
  stacks stays within 520 bytes, one opcode adds at most three items, the operation count stays
  within its limit, and nothing but the stacks, the conditional stack, the operation count, the code
  separator and the taproot context changes.
\<close>

named_theorems stack_safe
named_theorems handler_safe

section \<open>Stack operations\<close>

definition small :: "nat \<Rightarrow> stack \<Rightarrow> bool" where
  "small k s \<longleftrightarrow> length (stk s) \<le> k \<and> (\<forall>e\<in>set (stk s). length e \<le> 520)"

abbreviation (input) room :: nat where "room \<equiv> 2000000"

lemma small_tos: "small k s \<longleftrightarrow> length (tos s) \<le> k \<and> (\<forall>e\<in>set (tos s). length e \<le> 520)"
  by (simp add: small_def tos_def)

lemma small_with_tos: "small k (with_tos xs s) \<longleftrightarrow> length xs \<le> k \<and> (\<forall>e\<in>set xs. length e \<le> 520)"
  by (simp add: small_tos)

lemma small_mono: "small k s \<Longrightarrow> k \<le> n \<Longrightarrow> small n s"
  by (auto simp: small_def)

lemma small_ok: "small k s \<Longrightarrow> k \<le> room \<Longrightarrow> stack_ok s"
  by (auto simp: small_def stack_ok_def)

lemma small_push [intro]: "small k s \<Longrightarrow> length b \<le> 520 \<Longrightarrow> small (Suc k) (PushByteArray b s)"
  by (auto simp: small_def PushByteArray_def)

lemma small_pushbool [intro]: "small k s \<Longrightarrow> small (Suc k) (PushBool b s)"
  by (auto simp: PushBool_def fromBool_def)

lemma safe_PopByteArray [stack_safe]:
  assumes "small k s" and "k \<le> room" and "\<And>x s'. length x \<le> 520 \<Longrightarrow> small k s' \<Longrightarrow> Q (x, s')"
  shows "safe (PopByteArray s) Q"
  using assms small_ok [OF assms(1,2)]
  by (auto simp: PopByteArray_tos small_tos split: list.splits)

lemma safe_MakeScriptNum [stack_safe]:
  assumes "k \<le> 5" and "0 < k" and "\<And>v. \<bar>v\<bar> < 128 * 256 ^ (k - 1) \<Longrightarrow> Q v"
  shows "safe (MakeScriptNum b req k) Q"
proof (cases "length b \<le> k")
  case True
  then have "MakeScriptNum b req k = (if req \<and> \<not> minimal b then Err ''ErrMinimalData'' else Ok (script_value b))"
    using assms(1) by (intro MakeScriptNum_value) simp_all
  then show ?thesis
    using assms(3) script_value_bound [OF True assms(2)] by simp
qed (simp add: MakeScriptNum_def)

lemma safe_PopInt [stack_safe]:
  assumes "small k s" and "k \<le> room" and "\<And>v s'. \<bar>v\<bar> < 2 ^ 31 \<Longrightarrow> small k s' \<Longrightarrow> Q (v, s')"
  shows "safe (PopInt s) Q"
  unfolding PopInt_def safe_simps
  by (rule safe_PopByteArray [OF assms(1,2)]) (auto intro!: safe_MakeScriptNum assms(3))

lemma safe_PopBool [stack_safe]:
  assumes "small k s" and "k \<le> room" and "\<And>v s'. small k s' \<Longrightarrow> Q (v, s')"
  shows "safe (PopBool s) Q"
  unfolding PopBool_def safe_simps by (rule safe_PopByteArray [OF assms(1,2)]) (simp add: assms(3))

lemma safe_PeekByteArray [stack_safe]:
  assumes "small k s" and "k \<le> room" and "\<And>x. length x \<le> 520 \<Longrightarrow> Q x"
  shows "safe (PeekByteArray i s) Q"
  using assms small_ok [OF assms(1,2)] by (auto simp: PeekByteArray_tos small_tos)

lemma safe_num_Bytes [stack_safe]:
  assumes "\<bar>v\<bar> < 2 ^ 39" and "\<And>b. length b \<le> 520 \<Longrightarrow> Q b"
  shows "safe (num_Bytes v) Q"
proof -
  have "- (2 ^ 63) < v" and "v < 2 ^ 63"
    using assms(1) by simp_all
  then obtain b where b: "num_Bytes v = Ok b" "script_value b = v" "minimal b"
    using num_Bytes_script_value by blast
  have "length b \<le> 5"
    using minimal_length [OF b(3), of 5] b(2) assms(1) by simp
  then show ?thesis
    using b(1) assms(2) by simp
qed

lemma safe_PushInt [stack_safe]:
  assumes "small k s" and "\<bar>v\<bar> < 2 ^ 39" and "\<And>s'. small (Suc k) s' \<Longrightarrow> Q s'"
  shows "safe (PushInt v s) Q"
  unfolding PushInt_def safe_simps by (rule safe_num_Bytes [OF assms(2)]) (use assms(1,3) in auto)

lemma safe_nipN [stack_safe]:
  assumes "small k s" and "k \<le> room" and "\<And>x s'. length x \<le> 520 \<Longrightarrow> small k s' \<Longrightarrow> Q (x, s')"
  shows "safe (nipN i s) Q"
proof (cases "0 \<le> i \<and> nat i < length (tos s)")
  case True
  have "length (tos s ! nat i) \<le> 520" and "small k (with_tos (delete_at (nat i) (tos s)) s)"
    using assms(1) True set_delete_at [of "nat i" "tos s"] length_delete_at [of "nat i" "tos s"]
    by (auto simp: small_with_tos small_tos)
  then show ?thesis
    using True small_ok [OF assms(1,2)] assms(3) by (simp add: nipN_tos)
qed (use small_ok [OF assms(1,2)] in \<open>auto simp: nipN_tos\<close>)

lemma safe_loops [stack_safe]:
  assumes "small k s" and "k + n \<le> room"
  shows "safe (pop_loop n s) (small k)" and "safe (peek_push_loop i n s) (small (k + n))"
    and "safe (nip_push_loop i n s) (small (k + n))"
proof -
  show "safe (pop_loop n s) (small k)"
    using assms
  proof (induction n arbitrary: s)
    case (Suc n)
    then show ?case
      by (auto intro!: safe_PopByteArray [where k = k])
  qed simp
  show "safe (peek_push_loop i n s) (small (k + n))"
    using assms
  proof (induction n arbitrary: k s)
    case (Suc n)
    show ?case
      unfolding peek_push_loop.simps safe_simps
      by (rule safe_PeekByteArray [OF Suc.prems(1)]) (use Suc.IH [of "Suc k"] Suc.prems in auto)
  qed simp
  show "safe (nip_push_loop i n s) (small (k + n))"
    using assms
  proof (induction n arbitrary: k s)
    case (Suc n)
    show ?case
      unfolding nip_push_loop.simps safe_simps
      by (rule safe_nipN [OF Suc.prems(1)]) (use Suc.IH [of "Suc k"] Suc.prems in auto)
  qed simp
qed

text \<open>A stack operation that is safe and adds at most three items.\<close>

definition stack_op_ok :: "(stack \<Rightarrow> stack outcome) \<Rightarrow> bool" where
  "stack_op_ok f \<longleftrightarrow> (\<forall>k s. small k s \<longrightarrow> k + 10 \<le> room \<longrightarrow> safe (f s) (small (k + 3)))"

lemma stack_op_okI:
  "(\<And>k s. small k s \<Longrightarrow> k + 10 \<le> room \<Longrightarrow> safe (f s) (small (k + 3))) \<Longrightarrow> stack_op_ok f"
  by (simp add: stack_op_ok_def)

lemma safe_loops_3:
  assumes "small k s" and "k + 10 \<le> room" and "n \<le> 3"
  shows "safe (pop_loop n s) (small (k + 3))" and "safe (peek_push_loop i n s) (small (k + 3))"
    and "safe (nip_push_loop i n s) (small (k + 3))"
  using safe_loops(1) [OF assms(1), of n] safe_loops(2,3) [OF assms(1), of n i] assms(2,3)
  by (auto elim!: safe_mono intro: small_mono)

lemma stack_op_ok_shuffles [handler_safe]:
  assumes "n \<le> 3"
  shows "stack_op_ok (DropN n)" and "stack_op_ok (DupN n)" and "stack_op_ok (OverN n)"
    and "stack_op_ok (RotN n)" and "stack_op_ok (SwapN n)"
proof -
  have "nat n \<le> 3"
    using assms by simp
  then show "stack_op_ok (DropN n)" and "stack_op_ok (DupN n)" and "stack_op_ok (OverN n)"
    and "stack_op_ok (RotN n)" and "stack_op_ok (SwapN n)"
    by (simp_all add: stack_op_ok_def DropN_def DupN_def OverN_def RotN_def SwapN_def safe_loops_3)
qed

section \<open>What a handler may change\<close>

text \<open>The parts of the engine that no opcode handler changes.\<close>

definition frame_of :: "Engine \<Rightarrow> _" where
  "frame_of vm = (flags vm, tx vm, txIdx vm, eng_version vm, bip16 vm, scripts vm, scriptIdx vm, opcodeIdx vm,
     tokenizer vm, savedFirstStack vm, witnessVersion vm, witnessProgram vm, inputAmount vm,
     hashCache vm, prevOutFetcher vm, taprootCtx vm = None)"

lemma frame_of_update [simp]:
  "frame_of (vm\<lparr>dstack := s\<rparr>) = frame_of vm"
  "frame_of (vm\<lparr>astack := s\<rparr>) = frame_of vm"
  "frame_of (vm\<lparr>condStack := c\<rparr>) = frame_of vm"
  "frame_of (vm\<lparr>numOps := n\<rparr>) = frame_of vm"
  "frame_of (vm\<lparr>lastCodeSep := l\<rparr>) = frame_of vm"
  "frame_of (vm\<lparr>taprootCtx := map_option f (taprootCtx vm)\<rparr>) = frame_of vm"
  by (simp_all add: frame_of_def)

lemma frame_of_Some: "taprootCtx vm = Some c \<Longrightarrow> frame_of (vm\<lparr>taprootCtx := Some c'\<rparr>) = frame_of vm"
  by (simp add: frame_of_def)

definition keeps :: "opfun \<Rightarrow> bool" where
  "keeps h \<longleftrightarrow> (\<forall>env op data vm. upon (h env op data vm) (\<lambda>vm'. frame_of vm' = frame_of vm))"

lemma keepsD: "keeps h \<Longrightarrow> upon (h env op data vm) (\<lambda>vm'. frame_of vm' = frame_of vm)"
  by (simp add: keeps_def)

lemma on_dstack_frame: "upon (on_dstack f vm) (\<lambda>vm'. frame_of vm' = frame_of vm)"
  by (simp add: on_dstack_def uponI)

lemma keeps_on_dstack: "(\<And>env op data. h env op data = on_dstack (f env op data)) \<Longrightarrow> keeps h"
  by (simp add: keeps_def on_dstack_frame)

lemma keeps_verify:
  assumes "keeps h" and "\<And>env op data vm. h' env op data vm = bind (h env op data vm) (abstractVerify c)"
  shows "keeps h'"
proof -
  have "upon (h env op data vm) (\<lambda>x. upon (abstractVerify c x) (\<lambda>vm'. frame_of vm' = frame_of vm))" for env op data vm
    using keepsD [OF assms(1)]
  proof (rule upon_mono)
    show "upon (abstractVerify c x) (\<lambda>vm'. frame_of vm' = frame_of vm)" if "frame_of x = frame_of vm" for x
      using on_dstack_frame [of _ x] that by (simp add: abstractVerify_def)
  qed
  then show ?thesis
    by (simp add: keeps_def assms(2))
qed

lemmas dstack_handler_defs =
  opcodeFalse_def opcodePushData_def opcode1Negate_def opcodeN_def abstractVerify_def opcodeVerify_def opcode2Drop_def
  opcode2Dup_def opcode3Dup_def opcode2Over_def opcode2Rot_def opcode2Swap_def opcodeIfDup_def opcodeDepth_def
  opcodeDrop_def opcodeDup_def opcodeNip_def opcodeOver_def opcodePick_def opcodeRoll_def opcodeRot_def opcodeSwap_def
  opcodeTuck_def opcodeSize_def opcodeEqual_def opcode1Add_def opcode1Sub_def opcodeNegate_def opcodeAbs_def
  opcodeNot_def opcode0NotEqual_def opcodeAdd_def opcodeSub_def opcodeBoolAnd_def opcodeBoolOr_def opcodeNumEqual_def
  opcodeNumNotEqual_def opcodeLessThan_def opcodeGreaterThan_def opcodeLessThanOrEqual_def
  opcodeGreaterThanOrEqual_def opcodeMin_def opcodeMax_def opcodeWithin_def hash_top_def opcodeRipemd160_def
  opcodeSha1_def opcodeSha256_def opcodeHash160_def opcodeHash256_def

lemma keeps_dstack [handler_safe]:
  "keeps opcodeFalse" "keeps opcodePushData" "keeps opcode1Negate" "keeps opcodeN" "keeps opcodeVerify"
  "keeps opcode2Drop" "keeps opcode2Dup" "keeps opcode3Dup" "keeps opcode2Over" "keeps opcode2Rot"
  "keeps opcode2Swap" "keeps opcodeIfDup" "keeps opcodeDepth" "keeps opcodeDrop" "keeps opcodeDup" "keeps opcodeNip"
  "keeps opcodeOver" "keeps opcodePick" "keeps opcodeRoll" "keeps opcodeRot" "keeps opcodeSwap" "keeps opcodeTuck"
  "keeps opcodeSize" "keeps opcodeEqual" "keeps opcode1Add" "keeps opcode1Sub" "keeps opcodeNegate"
  "keeps opcodeAbs" "keeps opcodeNot" "keeps opcode0NotEqual" "keeps opcodeAdd" "keeps opcodeSub"
  "keeps opcodeBoolAnd" "keeps opcodeBoolOr" "keeps opcodeNumEqual" "keeps opcodeNumNotEqual"
  "keeps opcodeLessThan" "keeps opcodeGreaterThan" "keeps opcodeLessThanOrEqual" "keeps opcodeGreaterThanOrEqual"
  "keeps opcodeMin" "keeps opcodeMax" "keeps opcodeWithin" "keeps opcodeRipemd160" "keeps opcodeSha1"
  "keeps opcodeSha256" "keeps opcodeHash160" "keeps opcodeHash256"
  by (rule keeps_on_dstack, simp only: dstack_handler_defs)+

lemma push_verdict_frame: "upon (push_verdict v s vm) (\<lambda>vm'. frame_of vm' = frame_of vm)"
  by (simp add: push_verdict_def)

lemma base_checksig_frame: "upon (base_checksig r s vm) (\<lambda>vm'. frame_of vm' = frame_of vm)"
  by (simp add: base_checksig_def push_verdict_frame split: sig_result.splits)

lemma tap_checksig_frame:
  assumes "taprootCtx vm = Some c"
  shows "upon (tap_checksig env pk sg ctx vm) (\<lambda>vm'. frame_of vm' = frame_of vm)"
proof -
  have "frame_of (vm\<lparr>taprootCtx := Some c'\<rparr>) = frame_of vm" for c'
    using assms by (rule frame_of_Some)
  then show ?thesis
    using push_verdict_frame [of _ _ "vm\<lparr>taprootCtx := Some _\<rparr>"]
    by (auto simp: tap_checksig_def Let_def intro!: uponI)
qed

lemma keeps_errors [handler_safe]:
  "keeps opcodeDisabled" "keeps opcodeReserved" "keeps opcodeInvalid" "keeps opcodeNop" "keeps opcodeReturn"
  by (auto simp: keeps_def opcodeDisabled_def opcodeReserved_def opcodeInvalid_def opcodeNop_def opcodeReturn_def)

lemma keeps_control [handler_safe]:
  "keeps opcodeIf" "keeps opcodeNotIf" "keeps opcodeElse" "keeps opcodeEndif"
  by (auto simp: keeps_def opcodeIf_def opcodeNotIf_def opcodeElse_def opcodeEndif_def push_cond_def Let_def
      intro!: uponI [of "popIfBool _"])

lemma keeps_locks [handler_safe]: "keeps opcodeCheckLockTimeVerify" "keeps opcodeCheckSequenceVerify"
  by (auto simp: keeps_def opcodeCheckLockTimeVerify_def opcodeCheckSequenceVerify_def Let_def intro!: uponI)

lemma keeps_alt [handler_safe]: "keeps opcodeToAltStack" "keeps opcodeFromAltStack" "keeps opcodeCodeSeparator"
  by (auto simp: keeps_def opcodeToAltStack_def opcodeFromAltStack_def opcodeCodeSeparator_def frame_of_def
      intro!: uponI)

lemma keeps_CheckSig [handler_safe]: "keeps opcodeCheckSig"
proof -
  have "upon (base_checksig r sg (vm\<lparr>dstack := s\<rparr>)) (\<lambda>vm'. frame_of vm' = frame_of vm)" for r sg s vm
    using base_checksig_frame [of r sg "vm\<lparr>dstack := s\<rparr>"] by simp
  moreover have "upon (tap_checksig env pk sg ctx (vm\<lparr>dstack := s\<rparr>)) (\<lambda>vm'. frame_of vm' = frame_of vm)"
    if "taprootCtx vm = Some c" for env pk sg ctx vm s c
    using tap_checksig_frame [of "vm\<lparr>dstack := s\<rparr>"] that by simp
  ultimately show ?thesis
    by (auto simp: keeps_def opcodeCheckSig_def Let_def split: option.splits
        intro!: uponI [of "PopByteArray _"] uponI [of "base_verifier _ _ _ _"] uponI [of "segwit_verifier _ _ _ _"])
qed

lemma keeps_CheckSigAdd [handler_safe]: "keeps opcodeCheckSigAdd"
proof -
  have "upon (on_dstack f (vm\<lparr>dstack := s, taprootCtx := Some c'\<rparr>)) (\<lambda>vm'. frame_of vm' = frame_of vm)"
    if "taprootCtx vm = Some c" for f vm s c c'
    using on_dstack_frame [of f "vm\<lparr>dstack := s, taprootCtx := Some c'\<rparr>"] frame_of_Some [of "vm\<lparr>dstack := s\<rparr>" c c'] that
    by simp
  then show ?thesis
    by (auto simp: keeps_def opcodeCheckSigAdd_def Let_def split: option.splits
        intro!: uponI [of "PopByteArray _"] uponI [of "PopInt _"] uponI [of "tallysigOp _"] uponI [of "tapscript_verifier _ _ _ _"])
qed

lemma keeps_CheckMultiSig [handler_safe]: "keeps opcodeCheckMultiSig"
  by (auto simp: keeps_def opcodeCheckMultiSig_def Let_def intro!: uponI [of "PopByteArray _"] uponI [of "PopInt _"]
      uponI [of "pop_many _ _"] uponI [of "subScript _"] uponI [of "multi_loop _ _ _"])

lemma keeps_verifies [handler_safe]:
  "keeps opcodeEqualVerify" "keeps opcodeNumEqualVerify" "keeps opcodeCheckSigVerify" "keeps opcodeCheckMultiSigVerify"
  by (rule keeps_verify, rule handler_safe,
      simp only: opcodeEqualVerify_def opcodeNumEqualVerify_def opcodeCheckSigVerify_def opcodeCheckMultiSigVerify_def)+

lemma table_keeps: "list_all (\<lambda>(_, h). keeps h) opcode_table"
  unfolding opcode_table_def list.pred_inject prod.case by (intro conjI TrueI list.pred_inject(1) handler_safe)

lemma map_of_list_all: "list_all (\<lambda>(_, h). P h) t \<Longrightarrow> map_of t k = Some h \<Longrightarrow> P h"
  by (auto simp: list_all_iff dest: map_of_SomeD)

lemma keeps_opfunc: "keeps opfunc"
  unfolding keeps_def opfunc_def
  using keepsD [OF keeps_dstack(2)] keepsD [OF keeps_dstack(4)] keepsD [OF keeps_errors(3)]
    keepsD [OF map_of_list_all [OF table_keeps]]
  by (simp split: option.splits)


section \<open>Safety of the handlers\<close>

text \<open>
  The engine's data is within bounds: both stacks together hold at most \<open>k\<close> items of at most 520
  bytes, the operation count is within its limit, the input and the current script exist, and the
  last code separator lies inside the current script.
\<close>

definition bounded :: "nat \<Rightarrow> Engine \<Rightarrow> bool" where
  "bounded k vm \<longleftrightarrow> length (stk (dstack vm)) + length (stk (astack vm)) \<le> k \<and>
     (\<forall>e\<in>set (stk (dstack vm)) \<union> set (stk (astack vm)). length e \<le> 520) \<and> numOps vm \<le> 201 \<and>
     lastCodeSep vm \<le> length (scripts vm ! scriptIdx vm)"

text \<open>The outputs an input list spends are all known.\<close>

definition spends_known :: "PrevOutputFetcher \<Rightarrow> TxIn list \<Rightarrow> bool" where
  "spends_known fetch = list_all (\<lambda>ti. fetch (PreviousOutPoint ti) \<noteq> None)"

definition engine_ok :: "Engine \<Rightarrow> bool" where
  "engine_ok vm \<longleftrightarrow> txIdx vm < length (TxIns (tx vm)) \<and> scriptIdx vm < length (scripts vm) \<and>
     tk_script (tokenizer vm) = scripts vm ! scriptIdx vm \<and> tk_offset (tokenizer vm) \<le> length (scripts vm ! scriptIdx vm) \<and>
     spends_known (prevOutFetcher vm) (TxIns (tx vm))"

text \<open>A signature opcode finds a verifier: a taproot context comes with witness version 1 and a midstate.\<close>

definition sig_ready :: "Engine \<Rightarrow> bool" where
  "sig_ready vm \<longleftrightarrow>
     (if taprootCtx vm = None then witnessProgram vm = None \<or> isWitnessVersionActive BaseSegwitWitnessVersion vm
      else isWitnessVersionActive TaprootWitnessVersion vm \<and> hashCache vm \<noteq> None)"

text \<open>Digests of at most 520 bytes.\<close>

definition env_ok :: "script_env \<Rightarrow> bool" where
  "env_ok env \<longleftrightarrow> (\<forall>b. length (ripemd160 env b) \<le> 520 \<and> length (sha1 env b) \<le> 520 \<and> length (sha256 env b) \<le> 520)"

definition handler_ok :: "opfun \<Rightarrow> bool" where
  "handler_ok h \<longleftrightarrow> (\<forall>env op data vm k. env_ok env \<longrightarrow> engine_ok vm \<longrightarrow> sig_ready vm \<longrightarrow> bounded k vm \<longrightarrow>
     k + 20 \<le> room \<longrightarrow> safe (h env op data vm) (bounded (k + 3)))"

lemma boundedE:
  assumes "bounded k vm"
  obtains a b where "small a (dstack vm)" and "small b (astack vm)" and "a + b \<le> k"
    and "numOps vm \<le> 201" and "lastCodeSep vm \<le> length (scripts vm ! scriptIdx vm)"
proof -
  show thesis
    using assms
    by (intro that [of "length (stk (dstack vm))" "length (stk (astack vm))"]) (auto simp: bounded_def small_def)
qed

lemma bounded_mono: "bounded k vm \<Longrightarrow> k \<le> n \<Longrightarrow> bounded n vm"
  by (simp add: bounded_def)

lemma bounded_dstack:
  assumes "small a s" and "small b (astack vm)" and "a + b \<le> k" and "bounded n vm"
  shows "bounded k (vm\<lparr>dstack := s\<rparr>)"
  using assms by (auto simp: bounded_def small_def)

lemma safe_on_dstack:
  assumes "stack_op_ok f" and "bounded k vm" and "k + 10 \<le> room"
  shows "safe (on_dstack f vm) (bounded (k + 3))"
proof -
  obtain a b where ab: "small a (dstack vm)" "small b (astack vm)" "a + b \<le> k"
    using assms(2) by (rule boundedE)
  then have "safe (f (dstack vm)) (small (a + 3))"
    using assms(1,3) by (simp add: stack_op_ok_def)
  then show ?thesis
    unfolding on_dstack_def safe_simps
    by (rule safe_mono) (use ab assms(2) in \<open>auto intro: bounded_dstack\<close>)
qed

lemma handler_ok_dstack:
  assumes "\<And>env op data. h env op data = on_dstack (f env op data)"
    and "\<And>env op data. env_ok env \<Longrightarrow> stack_op_ok (f env op data)"
  shows "handler_ok h"
  by (simp add: handler_ok_def assms safe_on_dstack)

lemma small_3 [intro]:
  "small k s \<Longrightarrow> small (k + 3) s" "small (Suc k) s \<Longrightarrow> small (k + 3) s"
  "small k s \<Longrightarrow> length b \<le> 520 \<Longrightarrow> small (k + 3) (PushByteArray b s)" "small k s \<Longrightarrow> small (k + 3) (PushBool v s)"
  by (auto simp: small_def PushByteArray_def PushBool_def fromBool_def)

lemma small_push_3 [intro]:
  "small k s \<Longrightarrow> length x \<le> 520 \<Longrightarrow> length y \<le> 520 \<Longrightarrow> length z \<le> 520 \<Longrightarrow>
   small (k + 3) (PushByteArray x (PushByteArray y (PushByteArray z s)))"
  by (auto simp: small_def PushByteArray_def)

lemma stack_op_ok_push [handler_safe]: "length b \<le> 520 \<Longrightarrow> stack_op_ok (\<lambda>s. Ok (PushByteArray b s))"
  by (auto simp: stack_op_ok_def)

lemma stack_op_ok_PushInt [handler_safe]: "\<bar>v\<bar> < 2 ^ 39 \<Longrightarrow> stack_op_ok (PushInt v)"
  by (auto simp: stack_op_ok_def intro!: safe_PushInt)

lemma safe_pop_push:
  assumes "small k s" and "k \<le> room" and "\<And>b. length (h b) \<le> 520"
  shows "safe (PopByteArray s) (\<lambda>x. safe (case x of (buf, s') \<Rightarrow> Ok (PushByteArray (h buf) s')) (small (k + 3)))"
  using assms(1,2) by (rule safe_PopByteArray) (simp add: assms(3) small_3(3))

lemma stack_op_ok_hash [handler_safe]:
  "(\<And>b. length (h b) \<le> 520) \<Longrightarrow> stack_op_ok (\<lambda>s. bind (PopByteArray s) (\<lambda>(buf, s'). Ok (PushByteArray (h buf) s')))"
  by (rule stack_op_okI) (simp add: safe_pop_push)

lemma stack_op_ok_unary [handler_safe]:
  assumes "\<And>m. \<bar>m\<bar> < 2 ^ 31 \<Longrightarrow> \<bar>f m\<bar> < 2 ^ 39"
  shows "stack_op_ok (unary f)"
proof (rule stack_op_okI)
  fix k s
  assume "small k s" and "k + 10 \<le> room"
  then show "safe (unary f s) (small (k + 3))"
    unfolding unary_def safe_simps by (auto intro!: safe_PopInt [of k] safe_PushInt [of k] assms)
qed

lemma stack_op_ok_binary [handler_safe]:
  assumes "\<And>m n. \<bar>m\<bar> < 2 ^ 31 \<Longrightarrow> \<bar>n\<bar> < 2 ^ 31 \<Longrightarrow> \<bar>f m n\<bar> < 2 ^ 39"
  shows "stack_op_ok (binary f)"
proof (rule stack_op_okI)
  fix k s
  assume "small k s" and "k + 10 \<le> room"
  then show "safe (binary f s) (small (k + 3))"
    unfolding binary_def safe_simps by (auto intro!: safe_PopInt [of k] safe_PushInt [of k] assms)
qed

lemma Depth_small: "small k s \<Longrightarrow> k \<le> room \<Longrightarrow> \<bar>Depth s\<bar> < 2 ^ 39"
  by (simp add: small_def Depth_def)

lemma safe_single:
  assumes "small k s" and "k + 10 \<le> room"
  shows "safe (bind (PeekByteArray 0 s) (\<lambda>so. Ok (if asBool so then PushByteArray so s else s))) (small (k + 3))"
    and "safe (PushInt (Depth s) s) (small (k + 3))"
    and "safe (bind (PeekByteArray 0 s) (\<lambda>so. PushInt (int (length so)) s)) (small (k + 3))"
    and "safe (bind (PopBool s) (\<lambda>(verified, s'). if \<not> verified then Err c else Ok s')) (small (k + 3))"
    and "safe (bind (PopInt s) (\<lambda>(val, s'). PickN (num_Int32 val) s')) (small (k + 3))"
    and "safe (bind (PopInt s) (\<lambda>(val, s'). RollN (num_Int32 val) s')) (small (k + 3))"
    and "safe (NipN i s) (small (k + 3))"
    and "safe (bind (PopByteArray s) (\<lambda>(a, s1). bind (PopByteArray s1) (\<lambda>(b, s2). Ok (PushBool (a = b) s2)))) (small (k + 3))"
  using assms
  by (auto simp: PickN_def RollN_def NipN_def
      intro!: safe_PeekByteArray [of k] safe_PushInt [of k] Depth_small [of k] safe_PopBool [of k] safe_PopInt [of k]
        safe_nipN [of k] safe_PopByteArray [of k] small_3(3,4))

lemma safe_Tuck: "small k s \<Longrightarrow> k + 10 \<le> room \<Longrightarrow> safe (Tuck s) (small (k + 3))"
  by (auto simp: Tuck_def intro!: safe_PopByteArray [of k] small_push_3)

lemma stack_op_ok_single [handler_safe]:
  "stack_op_ok (\<lambda>s. bind (PeekByteArray 0 s) (\<lambda>so. Ok (if asBool so then PushByteArray so s else s)))"
  "stack_op_ok (\<lambda>s. PushInt (Depth s) s)"
  "stack_op_ok (\<lambda>s. bind (PeekByteArray 0 s) (\<lambda>so. PushInt (int (length so)) s))"
  "stack_op_ok (\<lambda>s. bind (PopBool s) (\<lambda>(verified, s'). if \<not> verified then Err c else Ok s'))"
  "stack_op_ok (\<lambda>s. bind (PopInt s) (\<lambda>(val, s'). PickN (num_Int32 val) s'))"
  "stack_op_ok (\<lambda>s. bind (PopInt s) (\<lambda>(val, s'). RollN (num_Int32 val) s'))"
  "stack_op_ok (NipN i)" "stack_op_ok Tuck"
  "stack_op_ok (\<lambda>s. bind (PopByteArray s) (\<lambda>(a, s1). bind (PopByteArray s1) (\<lambda>(b, s2). Ok (PushBool (a = b) s2))))"
  by (rule stack_op_okI, rule safe_single safe_Tuck; assumption)+

lemma stack_op_ok_within [handler_safe]:
  "stack_op_ok (\<lambda>s. bind (PopInt s) (\<lambda>(maxVal, s1). bind (PopInt s1) (\<lambda>(minVal, s2). bind (PopInt s2) (\<lambda>(x, s3).
       PushInt (if x \<ge> minVal \<and> x < maxVal then 1 else 0) s3))))"
proof (rule stack_op_okI, unfold safe_simps split_beta)
  fix k s
  assume "small k s" and "k + 10 \<le> room"
  then show "safe (PopInt s) (\<lambda>p. safe (PopInt (snd p)) (\<lambda>q. safe (PopInt (snd q)) (\<lambda>r.
      safe (PushInt (if fst q \<le> fst r \<and> fst r < fst p then 1 else 0) (snd r)) (small (k + 3)))))"
    by (auto intro!: safe_PopInt [of k] safe_PushInt [of k])
qed

lemma handler_ok_stack [handler_safe]:
  "handler_ok opcodeFalse" "handler_ok opcode1Negate" "handler_ok opcodeVerify"
  "handler_ok opcode2Drop" "handler_ok opcode2Dup" "handler_ok opcode3Dup" "handler_ok opcode2Over" "handler_ok opcode2Rot"
  "handler_ok opcode2Swap" "handler_ok opcodeIfDup" "handler_ok opcodeDepth" "handler_ok opcodeDrop"
  "handler_ok opcodeDup" "handler_ok opcodeNip" "handler_ok opcodeOver" "handler_ok opcodePick" "handler_ok opcodeRoll"
  "handler_ok opcodeRot" "handler_ok opcodeSwap" "handler_ok opcodeTuck" "handler_ok opcodeSize" "handler_ok opcodeEqual"
  "handler_ok opcodeWithin"
  by (rule handler_ok_dstack, simp only: dstack_handler_defs, rule handler_safe; simp)+

lemma handler_ok_numbers [handler_safe]:
  "handler_ok opcode1Add" "handler_ok opcode1Sub" "handler_ok opcodeNegate"
  "handler_ok opcodeAbs" "handler_ok opcodeNot" "handler_ok opcode0NotEqual" "handler_ok opcodeAdd" "handler_ok opcodeSub"
  "handler_ok opcodeBoolAnd" "handler_ok opcodeBoolOr" "handler_ok opcodeNumEqual" "handler_ok opcodeNumNotEqual"
  "handler_ok opcodeLessThan" "handler_ok opcodeGreaterThan" "handler_ok opcodeLessThanOrEqual"
  "handler_ok opcodeGreaterThanOrEqual" "handler_ok opcodeMin" "handler_ok opcodeMax"
  by (rule handler_ok_dstack, simp only: dstack_handler_defs, rule handler_safe, auto)+

lemma handler_ok_hashes [handler_safe]:
  "handler_ok opcodeRipemd160" "handler_ok opcodeSha1" "handler_ok opcodeSha256" "handler_ok opcodeHash160"
  "handler_ok opcodeHash256"
  by (rule handler_ok_dstack, simp only: dstack_handler_defs, rule handler_safe, simp add: env_ok_def)+


lemma handler_ok_errors [handler_safe]:
  "handler_ok opcodeDisabled" "handler_ok opcodeReserved" "handler_ok opcodeInvalid" "handler_ok opcodeReturn"
  "handler_ok opcodeNop"
  by (auto simp: handler_ok_def opcodeDisabled_def opcodeReserved_def opcodeInvalid_def opcodeReturn_def opcodeNop_def
      intro: bounded_mono)

lemma safe_abstractVerify:
  assumes "bounded k vm" and "k + 10 \<le> room"
  shows "safe (abstractVerify c vm) (bounded k)"
proof -
  obtain a b where ab: "small a (dstack vm)" "small b (astack vm)" "a + b \<le> k"
    using assms(1) by (rule boundedE)
  have "a \<le> room"
    using ab(3) assms(2) by simp
  with ab(1) have "safe (PopBool (dstack vm)) (\<lambda>(v, s). small a s)"
    by (rule safe_PopBool) simp
  then show ?thesis
    unfolding abstractVerify_def on_dstack_def safe_simps
    by (rule safe_mono) (use ab assms(1) in \<open>auto intro: bounded_dstack\<close>)
qed

lemma handler_ok_verify:
  assumes "handler_ok h" and "\<And>env op data vm. h' env op data vm = bind (h env op data vm) (abstractVerify c)"
  shows "handler_ok h'"
  unfolding handler_ok_def assms(2) safe_simps
proof (intro allI impI)
  fix env :: script_env and op data vm and k :: nat
  assume "env_ok env" "engine_ok vm" "sig_ready vm" "bounded k vm" and k: "k + 20 \<le> room"
  with assms(1) have "safe (h env op data vm) (bounded (k + 3))"
    by (simp add: handler_ok_def)
  then show "safe (h env op data vm) (\<lambda>x. safe (abstractVerify c x) (bounded (k + 3)))"
    by (rule safe_mono) (use k in \<open>auto intro: safe_abstractVerify\<close>)
qed

lemma safe_popIfBool:
  assumes "small a (dstack vm)" and "a \<le> room" and "\<And>v s. small a s \<Longrightarrow> Q (v, s)"
  shows "safe (popIfBool vm) Q"
  using assms by (auto simp: popIfBool_def intro!: safe_PopBool [of a] safe_PopByteArray [of a])

lemma handler_okI:
  assumes "\<And>env op data vm k a b. env_ok env \<Longrightarrow> engine_ok vm \<Longrightarrow> sig_ready vm \<Longrightarrow> bounded k vm \<Longrightarrow>
      small a (dstack vm) \<Longrightarrow> small b (astack vm) \<Longrightarrow> a + b \<le> k \<Longrightarrow> numOps vm \<le> 201 \<Longrightarrow>
      lastCodeSep vm \<le> length (scripts vm ! scriptIdx vm) \<Longrightarrow> a \<le> room \<Longrightarrow> b \<le> room \<Longrightarrow> k + 20 \<le> room \<Longrightarrow>
      safe (h env op data vm) (bounded (k + 3))"
  shows "handler_ok h"
  unfolding handler_ok_def
proof (intro allI impI)
  fix env :: script_env and op data vm and k :: nat
  assume h: "env_ok env" "engine_ok vm" "sig_ready vm" "bounded k vm" "k + 20 \<le> room"
  from h(4) obtain a b where ab: "small a (dstack vm)" "small b (astack vm)" "a + b \<le> k" "numOps vm \<le> 201"
      "lastCodeSep vm \<le> length (scripts vm ! scriptIdx vm)"
    by (rule boundedE)
  moreover have "a \<le> room" and "b \<le> room"
    using ab(3) h(5) by linarith+
  ultimately show "safe (h env op data vm) (bounded (k + 3))"
    using h by (intro assms)
qed

lemma bounded_update:
  assumes "small a (dstack vm)" and "small b (astack vm)" and "a + b \<le> k" and "numOps vm \<le> 201"
    and "lastCodeSep vm \<le> length (scripts vm ! scriptIdx vm)"
  shows "bounded k vm"
  using assms by (auto simp: bounded_def small_def)

lemma handler_ok_control [handler_safe]:
  "handler_ok opcodeIf" "handler_ok opcodeNotIf" "handler_ok opcodeElse" "handler_ok opcodeEndif"
proof -
  have cond: "bounded (k + 3) (push_cond c (vm\<lparr>dstack := s\<rparr>))"
    if "bounded k vm" "small a s" "small b (astack vm)" "a + b \<le> k" for k c vm s a b
    using that by (intro bounded_update [of a _ b]) (auto simp: bounded_def push_cond_def)
  have push_skip: "push_cond 2 vm = vm\<lparr>condStack := condStack vm @ [2]\<rparr>" for vm
    by (simp add: push_cond_def)
  have skip: "bounded (k + 3) (vm\<lparr>condStack := c\<rparr>)" if "bounded k vm" for k c vm
    using bounded_mono [OF that, of "k + 3"] by (simp add: bounded_def)
  show "handler_ok opcodeIf"
    by (rule handler_okI) (auto simp: opcodeIf_def push_skip intro!: cond skip elim!: safe_popIfBool)
  show "handler_ok opcodeNotIf"
    by (rule handler_okI) (auto simp: opcodeNotIf_def push_skip intro!: cond skip elim!: safe_popIfBool)
  show "handler_ok opcodeElse" and "handler_ok opcodeEndif"
    by (rule handler_okI; auto simp: opcodeElse_def opcodeEndif_def Let_def intro!: skip intro: bounded_mono)+
qed


lemma bounded_same: "bounded k vm \<Longrightarrow> bounded (k + 3) vm"
  by (erule bounded_mono) simp

lemma safe_verifyLockTime: "Q () \<Longrightarrow> safe (verifyLockTime t th l) Q"
  by (simp add: verifyLockTime_def)

lemma safe_input_sequence: "engine_ok vm \<Longrightarrow> (\<And>x. Q x) \<Longrightarrow> safe (input_sequence vm) Q"
  by (simp add: input_sequence_def engine_ok_def)

lemma handler_ok_locks [handler_safe]: "handler_ok opcodeCheckLockTimeVerify" "handler_ok opcodeCheckSequenceVerify"
  by (rule handler_okI; auto simp: opcodeCheckLockTimeVerify_def opcodeCheckSequenceVerify_def Let_def
      intro!: bounded_same safe_MakeScriptNum safe_verifyLockTime safe_input_sequence elim!: safe_PeekByteArray)+

lemma handler_ok_alt [handler_safe]: "handler_ok opcodeToAltStack" "handler_ok opcodeFromAltStack"
proof -
  have there: "bounded (k + 3) (vm\<lparr>dstack := s, astack := PushByteArray x (astack vm)\<rparr>)"
    if "bounded k vm" "small b (astack vm)" "a + b \<le> k" "small a s" "length x \<le> 520" for k vm s x a b
    using that by (auto simp: bounded_def small_def PushByteArray_def)
  have returned: "bounded (k + 3) (vm\<lparr>astack := s, dstack := PushByteArray x (dstack vm)\<rparr>)"
    if "bounded k vm" "small a (dstack vm)" "a + b \<le> k" "small b s" "length x \<le> 520" for k vm s x a b
    using that by (auto simp: bounded_def small_def PushByteArray_def)
  show "handler_ok opcodeToAltStack"
    by (rule handler_okI) (auto simp: opcodeToAltStack_def intro!: there elim!: safe_PopByteArray)
  show "handler_ok opcodeFromAltStack"
    by (rule handler_okI) (auto simp: opcodeFromAltStack_def intro!: returned elim!: safe_PopByteArray)
qed

lemma handler_ok_CodeSeparator [handler_safe]: "handler_ok opcodeCodeSeparator"
  by (rule handler_okI) (auto simp: opcodeCodeSeparator_def engine_ok_def bounded_def)

text \<open>Encoding checks and signature hashes.\<close>

lemma safe_check_integer:
  "typeOffset < length sig \<Longrightarrow> off + len \<le> length sig \<Longrightarrow> Q () \<Longrightarrow> safe (check_integer errs sig typeOffset off len) Q"
  by (auto simp: check_integer_def)

lemma safe_encodings:
  assumes "Q ()"
  shows "safe (checkHashTypeEncoding h vm) Q" and "safe (checkPubKeyEncoding pk vm) Q" and "safe (checkSignatureEncoding sg vm) Q"
proof -
  show "safe (checkHashTypeEncoding h vm) Q" and "safe (checkPubKeyEncoding pk vm) Q"
    using assms by (simp_all add: checkHashTypeEncoding_def checkPubKeyEncoding_def Let_def)
  show "safe (checkSignatureEncoding sg vm) Q"
  proof (cases "length sg < 8")
    case False
    then have ix: "index sg 0 = Ok (sg ! 0)" "index sg 1 = Ok (sg ! 1)" "index sg 3 = Ok (sg ! 3)" "2 < length sg"
      by (auto intro!: index_Ok)
    show ?thesis
      using False assms ix(4) unfolding checkSignatureEncoding_def Let_def ix bind_simps
      by (auto simp: slice_def intro!: safe_check_integer)
  qed (simp add: checkSignatureEncoding_def assms)
qed

lemma safe_parseBase:
  "sg \<noteq> [] \<Longrightarrow> (\<And>x. Q x) \<Longrightarrow> safe (parseBaseSigAndPubkey env pk sg vm) Q"
  by (auto simp: parseBaseSigAndPubkey_def Let_def intro!: safe_encodings)

lemma safe_subScript:
  "scriptIdx vm < length (scripts vm) \<Longrightarrow> lastCodeSep vm \<le> length (scripts vm ! scriptIdx vm) \<Longrightarrow> (\<And>x. Q x) \<Longrightarrow>
   safe (subScript vm) Q"
  by (simp add: subScript_def slice_def)

lemma safe_calcSignatureHash:
  "i < length (TxIns t) \<Longrightarrow> (\<And>x. Q x) \<Longrightarrow> safe (calcSignatureHash sha scr h t i) Q"
  by (simp add: calcSignatureHash_def sighash_copy_def Let_def slice_def)

lemma safe_calcWitness: "(\<And>x. Q x) \<Longrightarrow> safe (calcWitnessSignatureHashRaw sha scr m h t i amt) Q"
  by (simp add: calcWitnessSignatureHashRaw_def Let_def)

lemma safe_prev_outputs: "spends_known fetch tis \<Longrightarrow> (\<And>x. Q x) \<Longrightarrow> safe (prev_outputs fetch tis) Q"
  by (induction tis arbitrary: Q) (auto simp: spends_known_def fetch_output_def)

lemma safe_input_kinds: "spends_known fetch tis \<Longrightarrow> (\<And>x. Q x) \<Longrightarrow> safe (input_kinds fetch tis a b) Q"
  by (induction tis arbitrary: a b) (auto simp: spends_known_def fetch_output_def Let_def)

lemma safe_NewTxSigHashes: "spends_known fetch (TxIns t) \<Longrightarrow> (\<And>x. Q x) \<Longrightarrow> safe (NewTxSigHashes sha t fetch) Q"
  by (auto simp: NewTxSigHashes_def calcHashInputAmounts_def calcHashInputScripts_def Let_def
      intro!: safe_input_kinds safe_prev_outputs)

lemma safe_sig_hashes: "engine_ok vm \<Longrightarrow> (\<And>x. Q x) \<Longrightarrow> safe (sig_hashes env vm) Q"
  by (auto simp: sig_hashes_def engine_ok_def intro!: safe_NewTxSigHashes split: option.splits)

lemma safe_case_hash:
  "safe r (\<lambda>x. safe (f x) Q) \<Longrightarrow> (\<And>e. safe (g e) Q) \<Longrightarrow> safe (case r of Ok x \<Rightarrow> f x | Err e \<Rightarrow> g e | Panic p \<Rightarrow> Panic p) Q"
  by (cases r) simp_all

lemma safe_ecdsa_verifiers:
  assumes "engine_ok vm" and "lastCodeSep vm \<le> length (scripts vm ! scriptIdx vm)" and "\<And>x. Q x"
  shows "sg \<noteq> [] \<Longrightarrow> safe (base_verifier env pk sg vm) Q" and "sg \<noteq> [] \<Longrightarrow> safe (segwit_verifier env pk sg vm) Q"
    and "safe (multisig_verifier env vm scr sg pk) Q"
  using assms
  by (auto simp: base_verifier_def segwit_verifier_def multisig_verifier_def engine_ok_def Let_def split: option.splits
      intro!: safe_parseBase safe_subScript safe_calcSignatureHash safe_sig_hashes safe_case_hash safe_calcWitness safe_encodings)

lemma safe_taproot_Verify:
  assumes "hashCache vm \<noteq> None" and "spends_known (prevOutFetcher vm) (TxIns (tx vm))" and "\<And>x. Q x"
  shows "safe (taproot_Verify env pk sg h vm opts) Q"
proof -
  have "safe (fetch_output (prevOutFetcher vm) (PreviousOutPoint (TxIns (tx vm) ! txIdx vm))) R"
    if "\<And>x. R x" "txIdx vm < length (TxIns (tx vm))" for R
    using that assms(2) by (auto simp: spends_known_def list_all_length fetch_output_def)
  then have "safe (calcTaprootSignatureHashRaw (sha256 env) (hashCache vm) h (tx vm) (txIdx vm) (prevOutFetcher vm) opts) R"
    if "\<And>x. R x" for R
    using that assms(1) by (auto simp: calcTaprootSignatureHashRaw_def midstate_def Let_def)
  then show ?thesis
    unfolding taproot_Verify_def using assms(3) by (intro safe_case_hash) simp_all
qed

lemma safe_parseTaproot: "(\<And>x. Q x) \<Longrightarrow> safe (parseTaprootSigAndPubKey env pk sg) Q"
  by (simp add: parseTaprootSigAndPubKey_def)

lemma safe_tapscript_verifier:
  assumes "hashCache vm \<noteq> None" and "engine_ok vm" and "taprootCtx vm \<noteq> None" and "\<And>x. Q x"
  shows "safe (tapscript_verifier env pk sg vm) Q"
  using assms
  by (auto simp: tapscript_verifier_def engine_ok_def intro!: safe_parseTaproot safe_taproot_Verify split: option.splits)

text \<open>The signature opcodes.\<close>

lemma bounded_push:
  assumes "bounded k vm" and "small a s" and "small b (astack vm)" and "a + b \<le> k"
  shows "length x \<le> 520 \<Longrightarrow> bounded (k + 3) (vm\<lparr>dstack := PushByteArray x s\<rparr>)"
    and "bounded (k + 3) (vm\<lparr>dstack := PushBool v s\<rparr>)"
  using assms by (auto simp: bounded_def small_def PushByteArray_def PushBool_def fromBool_def)

lemma bounded_ctx [simp]: "bounded k (vm\<lparr>taprootCtx := c\<rparr>) = bounded k vm"
  by (simp add: bounded_def)

lemma safe_checksig:
  assumes "bounded k vm" and "small a (dstack vm)" and "small b (astack vm)" and "a + b \<le> k"
  shows "safe (push_verdict v sg vm) (bounded (k + 3))" and "safe (base_checksig r sg vm) (bounded (k + 3))"
    and "engine_ok vm \<Longrightarrow> hashCache vm \<noteq> None \<Longrightarrow> safe (tap_checksig env pk sg ctx vm) (bounded (k + 3))"
proof -
  have push: "safe (push_verdict v sg vm) (bounded (k + 3))"
    if "bounded k vm" "small a (dstack vm)" "small b (astack vm)" "a + b \<le> k" for v sg vm
    using bounded_push(2) [OF that] by (simp add: push_verdict_def)
  show "safe (push_verdict v sg vm) (bounded (k + 3))" and "safe (base_checksig r sg vm) (bounded (k + 3))"
    using push [OF assms] bounded_push(2) [OF assms] by (simp_all add: base_checksig_def split: sig_result.splits)
  have "safe (push_verdict v sg (vm\<lparr>taprootCtx := c\<rparr>)) (bounded (k + 3))" for v c
    using assms by (intro push) simp_all
  moreover have "bounded (k + 3) (vm\<lparr>taprootCtx := c, dstack := PushByteArray [] (dstack vm)\<rparr>)" for c
    using assms by (intro bounded_push(1)) simp_all
  ultimately show "safe (tap_checksig env pk sg ctx vm) (bounded (k + 3))" if "engine_ok vm" "hashCache vm \<noteq> None"
    using that by (auto simp: tap_checksig_def tallysigOp_def Let_def engine_ok_def intro!: safe_tapscript_verifier)
qed


lemma engine_ok_stack [simp]:
  "engine_ok (vm\<lparr>dstack := s\<rparr>) = engine_ok vm" "engine_ok (vm\<lparr>taprootCtx := c\<rparr>) = engine_ok vm"
  "engine_ok (vm\<lparr>numOps := n\<rparr>) = engine_ok vm"
  by (simp_all add: engine_ok_def)

lemma handler_ok_CheckSig [handler_safe]: "handler_ok opcodeCheckSig"
proof (rule handler_okI)
  fix env :: script_env and op data vm k a b
  assume vm: "bounded k vm" "small a (dstack vm)" "small b (astack vm)" "a + b \<le> k" "a \<le> room" "sig_ready vm"
    "engine_ok vm" "lastCodeSep vm \<le> length (scripts vm ! scriptIdx vm)"
  have rest: "bounded k (vm\<lparr>dstack := s\<rparr>) \<and> small a (dstack (vm\<lparr>dstack := s\<rparr>)) \<and> small b (astack (vm\<lparr>dstack := s\<rparr>))"
    if "small a s" for s
    using that vm by (auto simp: bounded_def small_def)
  have sg: "safe (base_checksig r sg (vm\<lparr>dstack := s\<rparr>)) (bounded (k + 3))"
      "hashCache vm \<noteq> None \<Longrightarrow> safe (tap_checksig env pk sg ctx (vm\<lparr>dstack := s\<rparr>)) (bounded (k + 3))"
      "bounded (k + 3) (vm\<lparr>dstack := PushBool False s\<rparr>)" if "small a s" for r pk sg ctx s
    using rest [OF that] vm(4,7) safe_checksig [of k "vm\<lparr>dstack := s\<rparr>" a b] bounded_push(2) [OF vm(1) that vm(3,4)]
    by simp_all
  have ecdsa: "safe (base_verifier env pk sg (vm\<lparr>dstack := s\<rparr>)) Q" "safe (segwit_verifier env pk sg (vm\<lparr>dstack := s\<rparr>)) Q"
    if "sg \<noteq> []" "\<And>x. Q x" for pk sg s Q
    using that vm(7,8) by (intro safe_ecdsa_verifiers; simp)+
  show "safe (opcodeCheckSig env op data vm) (bounded (k + 3))"
  proof (cases "taprootCtx vm")
    case None
    then show ?thesis
      using vm(2,5,6) unfolding opcodeCheckSig_def safe_simps
      by (auto simp: Let_def sg sig_ready_def isWitnessVersionActive_def intro!: safe_PopByteArray [of a] ecdsa)
  next
    case (Some ctx)
    then show ?thesis
      using vm(2,5,6) unfolding opcodeCheckSig_def safe_simps
      by (auto simp: Let_def sg sig_ready_def isWitnessVersionActive_def intro!: safe_PopByteArray [of a])
  qed
qed

lemma handler_ok_CheckSigAdd [handler_safe]: "handler_ok opcodeCheckSigAdd"
proof (rule handler_okI)
  fix env :: script_env and op data vm k a b
  assume vm: "bounded k vm" "small a (dstack vm)" "small b (astack vm)" "a + b \<le> k" "a \<le> room" "sig_ready vm" "engine_ok vm"
  have push: "safe (on_dstack (PushInt v) (vm\<lparr>dstack := s, taprootCtx := c\<rparr>)) (bounded (k + 3))"
    if "small a s" "\<bar>v\<bar> < 2 ^ 39" for s v c
    using that vm unfolding on_dstack_def safe_simps
    by (auto intro!: safe_PushInt [of a] simp: bounded_def small_def)
  have succ: "\<bar>v + 1\<bar> < 549755813888" if "\<bar>v\<bar> < 2147483648" for v :: int
    using that by linarith
  have verifier: "safe (tapscript_verifier env pk sg (vm\<lparr>dstack := s, taprootCtx := Some c\<rparr>)) (\<lambda>x. x \<longrightarrow> safe
      (on_dstack (PushInt (v + 1)) (vm\<lparr>dstack := s, taprootCtx := Some c\<rparr>)) (bounded (k + 3)))"
    if "taprootCtx vm \<noteq> None" "small a s" "\<bar>v\<bar> < 2147483648" for pk sg s c v
    using that vm(6,7) push [OF that(2), of "v + 1"] succ [OF that(3)]
    by (intro safe_tapscript_verifier) (auto simp: sig_ready_def)
  show "safe (opcodeCheckSigAdd env op data vm) (bounded (k + 3))"
    using vm(2,5) unfolding opcodeCheckSigAdd_def
    by (auto simp: Let_def tallysigOp_def split: option.splits
        intro!: safe_PopByteArray [of a] safe_PopInt [of a] push verifier)
qed

lemma safe_pop_many: "small a s \<Longrightarrow> a \<le> room \<Longrightarrow> (\<And>xs s'. small a s' \<Longrightarrow> Q (xs, s')) \<Longrightarrow> safe (pop_many n s) Q"
proof (induction n arbitrary: s Q)
  case (Suc n)
  show ?case
    unfolding pop_many.simps safe_simps
    by (rule safe_PopByteArray [OF Suc.prems(1,2)]) (auto intro!: Suc.IH Suc.prems)
qed simp

lemma safe_multi_loop:
  "(\<And>s k R. s \<noteq> [] \<Longrightarrow> (\<And>x. R x) \<Longrightarrow> safe (check s k) R) \<Longrightarrow> Q True \<Longrightarrow> Q False \<Longrightarrow> safe (multi_loop check ss ks) Q"
proof (induction check ss ks rule: multi_loop.induct)
  case (3 check s ss k ks)
  have "safe (check s k) (\<lambda>_. True)" if "s \<noteq> []"
    using "3.prems"(1) [OF that] by simp
  then show ?case
    using 3 by (cases "check s k") (auto split: sig_result.splits)
qed simp_all

lemma handler_ok_CheckMultiSig [handler_safe]: "handler_ok opcodeCheckMultiSig"
proof (rule handler_okI)
  fix env :: script_env and op data vm k a b
  assume vm: "bounded k vm" "small a (dstack vm)" "small b (astack vm)" "a + b \<le> k" "a \<le> room" "engine_ok vm"
    "lastCodeSep vm \<le> length (scripts vm ! scriptIdx vm)"
  have "bounded (k + 3) (vm\<lparr>numOps := n, dstack := PushBool v s\<rparr>)" if "small a s" "n \<le> 201" for s v n
    using bounded_push(2) [OF vm(1) that(1) vm(3,4), of v] that(2) by (simp add: bounded_def)
  moreover have "safe (multisig_verifier env (vm\<lparr>dstack := s, numOps := n\<rparr>) scr sg pk) Q" if "\<And>x. Q x" for s n scr sg pk Q
    using that vm(6,7) by (intro safe_ecdsa_verifiers) simp_all
  moreover have "scriptIdx vm < length (scripts vm)"
    using vm(6) by (simp add: engine_ok_def)
  ultimately show "safe (opcodeCheckMultiSig env op data vm) (bounded (k + 3))"
    using vm(2,5,7) unfolding opcodeCheckMultiSig_def
    by (auto simp: Let_def
        intro!: safe_PopByteArray [of a] safe_PopInt [of a] safe_pop_many [of a] safe_subScript safe_multi_loop)
qed

lemma handler_ok_verifies [handler_safe]:
  "handler_ok opcodeEqualVerify" "handler_ok opcodeNumEqualVerify" "handler_ok opcodeCheckSigVerify"
  "handler_ok opcodeCheckMultiSigVerify"
  by (rule handler_ok_verify, rule handler_safe,
      simp only: opcodeEqualVerify_def opcodeNumEqualVerify_def opcodeCheckSigVerify_def opcodeCheckMultiSigVerify_def)+

lemma table_ok: "list_all (\<lambda>(_, h). handler_ok h) opcode_table"
  unfolding opcode_table_def list.pred_inject prod.case by (intro conjI TrueI list.pred_inject(1) handler_safe)

text \<open>The push opcodes do not look at signatures.\<close>

definition push_op :: "nat \<Rightarrow> bool" where
  "push_op op \<longleftrightarrow> op \<le> 78 \<or> 81 \<le> op \<and> op \<le> 96"

lemma safe_opfunc:
  assumes "env_ok env" and "engine_ok vm" and "sig_ready vm \<or> push_op op" and "bounded k vm" and "k + 20 \<le> room"
    and "op \<le> 96 \<Longrightarrow> length data \<le> 520"
  shows "safe (opfunc env op data vm) (bounded (k + 3))"
proof -
  have "safe (opcodePushData env op data vm) (bounded (k + 3))" if "op \<le> 78"
    unfolding opcodePushData_def using assms(4-6) that by (intro safe_on_dstack stack_op_ok_push) simp_all
  moreover have "safe (opcodeFalse env op data vm) (bounded (k + 3))"
    unfolding opcodeFalse_def using assms(4,5) by (intro safe_on_dstack stack_op_ok_push) simp_all
  moreover have "safe (opcodeN env op data vm) (bounded (k + 3))" if "op \<le> 96"
    unfolding opcodeN_def using assms(4,5) that by (intro safe_on_dstack stack_op_ok_PushInt) simp_all
  moreover have "safe (h env op data vm) (bounded (k + 3))" if "map_of opcode_table op = Some h" "sig_ready vm" for h
    using map_of_list_all [OF table_ok that(1)] assms that(2) by (simp add: handler_ok_def)
  ultimately show ?thesis
    using assms(3) map_of_opcode_table(1)
    by (cases "op = 0") (auto simp: opfunc_def opcodeInvalid_def push_op_def split: option.splits)
qed

section \<open>Executing an opcode\<close>

lemma executeOpcode_frame: "upon (executeOpcode env op data vm) (\<lambda>vm'. frame_of vm' = frame_of vm)"
proof -
  have "upon (opfunc env op data vm) (\<lambda>vm'. frame_of vm' = frame_of vm)" for vm
    by (rule keepsD [OF keeps_opfunc])
  from this [of vm] this [of "vm\<lparr>numOps := numOps vm + 1\<rparr>"] show ?thesis
    by (auto simp: executeOpcode_def Let_def intro!: uponI)
qed

lemma safe_checkMinimalDataPush: "Q () \<Longrightarrow> safe (checkMinimalDataPush op data) Q"
  by (simp add: checkMinimalDataPush_def Let_def)

lemma sig_ready_numOps [simp]: "sig_ready (vm\<lparr>numOps := n\<rparr>) = sig_ready vm"
  by (simp add: sig_ready_def isWitnessVersionActive_def)

lemma safe_executeOpcode:
  assumes "env_ok env" and "engine_ok vm" and "sig_ready vm \<or> push_op op" and "bounded k vm" and "k + 20 \<le> room"
  shows "safe (executeOpcode env op data vm) (bounded (k + 3))"
proof -
  have count: "bounded k (vm\<lparr>numOps := numOps vm + 1\<rparr>)" if "numOps vm + 1 \<le> 201"
    using assms(4) that by (simp add: bounded_def)
  have "safe (opfunc env op data (vm\<lparr>numOps := numOps vm + 1\<rparr>)) (bounded (k + 3))" if "numOps vm + 1 \<le> 201" "op > 96"
    using assms count that by (intro safe_opfunc) simp_all
  moreover have "safe (opfunc env op data vm) (bounded (k + 3))" if "length data \<le> 520"
    using assms that by (intro safe_opfunc) simp_all
  ultimately show ?thesis
    using bounded_same [OF assms(4)] bounded_same [OF count]
    by (auto simp: executeOpcode_def Let_def intro!: safe_checkMinimalDataPush)
qed

end
