(* ===== verification/Script_Standard.thy ===== *)
theory Script_Standard
  imports Script_Builder
begin

text \<open>
  Recognising scripts (\<^verbatim>\<open>coin/OrcaNet/txscript/script.go\<close> and \<^verbatim>\<open>standard.go\<close>): push-only
  scripts, witness programs, signature operation counts, the standard script classes, and the
  scripts that pay to an address.
\<close>

section \<open>Script predicates\<close>

abbreviation tokens :: "bytes \<Rightarrow> (nat \<times> bytes) list" where
  "tokens script \<equiv> fst (tk_run (MakeScriptTokenizer 0 script))"

abbreviation parse_err :: "bytes \<Rightarrow> string option" where
  "parse_err script \<equiv> tk_err (snd (tk_run (MakeScriptTokenizer 0 script)))"

definition IsSmallInt :: "nat \<Rightarrow> bool" where
  "IsSmallInt op \<longleftrightarrow> op = OP_0 \<or> OP_1 \<le> op \<and> op \<le> OP_16"

definition AsSmallInt :: "nat \<Rightarrow> nat" where
  "AsSmallInt op = (if op = OP_0 then 0 else op - (OP_1 - 1))"

definition IsPushOnlyScript :: "bytes \<Rightarrow> bool" where
  "IsPushOnlyScript script \<longleftrightarrow> list_all (\<lambda>(op, _). op \<le> OP_16) (tokens script) \<and> parse_err script = None"

text \<open>The counting loop: the previous opcode and the count so far.\<close>

fun count_sigops :: "bool \<Rightarrow> nat \<Rightarrow> (nat \<times> bytes) list \<Rightarrow> nat" where
  "count_sigops precise prevOp [] = 0"
| "count_sigops precise prevOp ((op, _) # ts) =
     (if op \<in> {172, 173} then 1
      else if op \<in> {174, 175} then (if precise \<and> OP_1 \<le> prevOp \<and> prevOp \<le> OP_16 then AsSmallInt prevOp else 20)
      else 0) + count_sigops precise op ts"

definition countSigOpsV0 :: "bytes \<Rightarrow> bool \<Rightarrow> nat" where
  "countSigOpsV0 script precise = count_sigops precise 255 (tokens script)"

definition GetSigOpCount :: "bytes \<Rightarrow> nat" where
  "GetSigOpCount script = countSigOpsV0 script False"

text \<open>The empty result stands for nil: both have length zero, the only thing the callers look at.\<close>

definition finalOpcodeData :: "bytes \<Rightarrow> bytes" where
  "finalOpcodeData script =
     (if script = [] then []
      else if parse_err script \<noteq> None then []
      else case tokens script of [] \<Rightarrow> [] | ts \<Rightarrow> snd (last ts))"

definition GetPreciseSigOpCount :: "bytes \<Rightarrow> bytes \<Rightarrow> nat" where
  "GetPreciseSigOpCount scriptSig scriptPubKey =
     (if \<not> isScriptHashScript scriptPubKey then countSigOpsV0 scriptPubKey True
      else if scriptSig = [] \<or> \<not> IsPushOnlyScript scriptSig then 0
      else let redeemScript = finalOpcodeData scriptSig
           in if redeemScript = [] then 0 else countSigOpsV0 redeemScript True)"

definition extractWitnessProgramInfo :: "bytes \<Rightarrow> (nat \<times> bytes) option" where
  "extractWitnessProgramInfo script =
     (if length script < 4 \<or> length script > 42 then None
      else case tk_Next (MakeScriptTokenizer 0 script) of
             (False, _) \<Rightarrow> None
           | (True, t1) \<Rightarrow>
               (if \<not> IsSmallInt (tk_op t1) then None
                else case tk_Next t1 of
                       (False, _) \<Rightarrow> None
                     | (True, t2) \<Rightarrow>
                         (if \<not> isCanonicalPush (tk_op t2) (tk_data t2) then None
                          else if tk_Done t2 \<and> tk_err t2 = None then Some (AsSmallInt (tk_op t1), tk_data t2)
                          else None)))"

definition isWitnessProgramScript :: "bytes \<Rightarrow> bool" where
  "isWitnessProgramScript script \<longleftrightarrow> extractWitnessProgramInfo script \<noteq> None"

definition getWitnessSigOps :: "bytes \<Rightarrow> bytes list \<Rightarrow> nat" where
  "getWitnessSigOps pkScript witness =
     (case extractWitnessProgramInfo pkScript of
        None \<Rightarrow> 0
      | Some (v, p) \<Rightarrow>
          (if v = 0 then
             (if length p = 20 then 1
              else if length p = 32 \<and> 0 < length witness then countSigOpsV0 (last witness) True
              else 0)
           else 0))"

definition GetWitnessSigOpCount :: "bytes \<Rightarrow> bytes \<Rightarrow> bytes list \<Rightarrow> nat" where
  "GetWitnessSigOpCount sigScript pkScript witness =
     (if isWitnessProgramScript pkScript then getWitnessSigOps pkScript witness
      else if isScriptHashScript pkScript \<and> IsPushOnlyScript sigScript \<and> 0 < length sigScript \<and>
              isWitnessProgramScript (drop 1 sigScript)
      then getWitnessSigOps (drop 1 sigScript) witness
      else 0)"

definition IsUnspendable :: "bytes \<Rightarrow> bool" where
  "IsUnspendable pkScript \<longleftrightarrow>
     (0 < length pkScript \<and> pkScript ! 0 = 0x6a) \<or> length pkScript > MaxScriptSize \<or>
     checkScriptParses 0 pkScript \<noteq> Ok ()"

section \<open>Witness programs\<close>

text \<open>A witness program is a small-number opcode followed by one direct push of the program.\<close>

lemma witness_program_form:
  assumes "extractWitnessProgramInfo script = Some (v, p)"
  obtains op where "IsSmallInt op" and "v = AsSmallInt op" and "script = of_nat op # of_nat (length p) # p"
    and "2 \<le> length p" and "length p \<le> 40"
proof -
  let ?t = "MakeScriptTokenizer 0 script"
  have len: "4 \<le> length script" "length script \<le> 42"
    using assms by (auto simp: extractWitnessProgramInfo_def split: if_splits)
  have t: "tok_ok ?t" "drop (tk_offset ?t) (tk_script ?t) = script"
    using len by (simp_all add: tok_ok_Make) (simp add: MakeScriptTokenizer_def)
  obtain t1 t2 where nx: "tk_Next ?t = (True, t1)" "tk_Next t1 = (True, t2)"
      and op: "IsSmallInt (tk_op t1)" "v = AsSmallInt (tk_op t1)" "isCanonicalPush (tk_op t2) (tk_data t2)" "p = tk_data t2"
      and fin: "tk_Done t2" "tk_err t2 = None"
    using assms by (auto simp: extractWitnessProgramInfo_def split: if_splits prod.splits bool.splits)
  have ok1: "tok_ok t1" and ok2: "tok_ok t2"
    using tk_Next_progress(1) [OF t(1) nx(1)] tk_Next_progress(1) [OF _ nx(2)] by simp_all
  note r1 = tk_Next_token [OF t(1) nx(1)] and r2 = tk_Next_token [OF ok1 nx(2)]
  have "drop (tk_offset t2) (tk_script t2) = []" and "drop (tk_offset t1) (tk_script t1) =
      token_bytes (tk_op t2) p @ drop (tk_offset t2) (tk_script t2)"
      and "script = token_bytes (tk_op t1) (tk_data t1) @ drop (tk_offset t1) (tk_script t1)"
    using fin ok2 r1 r2 t(2) op(4) by (simp_all only: tk_Done_ok) auto
  then have script: "script = token_bytes (tk_op t1) (tk_data t1) @ token_bytes (tk_op t2) p"
    by simp
  have small: "op_length (tk_op t1) = 1"
    using op(1) by (auto simp: IsSmallInt_def op_length_def)
  then have "tk_data t1 = []"
    using r1 by (simp add: token_ok_def)
  then have one: "script = of_nat (tk_op t1) # token_bytes (tk_op t2) p"
    using script small by (simp add: token_bytes_def)
  have "token_ok (tk_op t2, p)" and lp: "3 \<le> length (token_bytes (tk_op t2) p)" "length (token_bytes (tk_op t2) p) \<le> 41"
    using r2 op(4) one len by simp_all
  moreover from this have "tk_op t2 = length p \<and> 2 \<le> length p \<and> length p \<le> 40 \<and> 0 < op_length (tk_op t2)"
    using op(3,4)
    by (cases "tk_op t2" rule: op_length_cases) (auto simp: token_ok_def token_bytes_def isCanonicalPush_def Let_def)
  ultimately show thesis
    using that [OF op(1,2)] one by (auto simp: token_bytes_def)
qed

end
