(* ===== verification/Script_Run.thy ===== *)
theory Script_Run
  imports Script_Safety Script_Standard
begin

text \<open>
  Setting up the engine for one transaction input (\<^verbatim>\<open>NewEngine\<close> in
  \<^verbatim>\<open>coin/OrcaNet/txscript/engine.go\<close>), that every run ends, and a transaction that makes the
  engine panic.
\<close>

section \<open>Setting up\<close>

definition set_program :: "bytes \<Rightarrow> Engine \<Rightarrow> Engine outcome" where
  "set_program witProgram vm =
     (case extractWitnessProgramInfo witProgram of
        None \<Rightarrow> Err ''script is not a witness program, unable to extract version or witness program''
      | Some (v, p) \<Rightarrow> Ok (vm\<lparr>witnessVersion := v, witnessProgram := Some p\<rparr>))"

definition setup_witness :: "TxIn \<Rightarrow> Engine \<Rightarrow> Engine outcome" where
  "setup_witness txin vm =
     (if \<not> hasFlag vm ScriptVerifyWitness then Ok vm
      else if \<not> hasFlag vm ScriptBip16 then Err ''ErrInvalidFlags''
      else if isWitnessProgramScript (scripts vm ! 1) then
        (if SignatureScript txin \<noteq> [] then Err ''ErrWitnessMalleated'' else set_program (scripts vm ! 1) vm)
      else if Witness txin \<noteq> [] \<and> bip16 vm then
        (let sigPops = scripts vm ! 0
         in if length sigPops > 2 \<and> isCanonicalPush (unat (sigPops ! 0)) (drop 1 sigPops) \<and>
               isWitnessProgramScript (drop 1 sigPops)
            then set_program (drop 1 sigPops) vm
            else Err ''ErrWitnessMalleatedP2SH'')
      else if Witness txin \<noteq> [] then Err ''ErrWitnessUnexpected'' else Ok vm)"

fun check_scripts :: "bytes list \<Rightarrow> unit outcome" where
  "check_scripts [] = Ok ()"
| "check_scripts (scr # rest) =
     (if length scr > MaxScriptSize then Err ''ErrScriptTooBig''
      else bind (checkScriptParses 0 scr) (\<lambda>_. check_scripts rest))"

text \<open>The engine before its witness program is looked for.\<close>

definition fresh_engine ::
  "bytes \<Rightarrow> MsgTx \<Rightarrow> nat \<Rightarrow> u32 \<Rightarrow> TxSigHashes option \<Rightarrow> int \<Rightarrow> PrevOutputFetcher \<Rightarrow> bool \<Rightarrow> bytes \<Rightarrow> Engine" where
  "fresh_engine scriptPubKey t idx fl cache amount fetch p2sh scriptSig =
     (let ss = [scriptSig, scriptPubKey]; i = (if scriptSig = [] then 1 else 0);
          empty = \<lparr>stk = [], verifyMinimalData = (fl AND ScriptVerifyMinimalData = ScriptVerifyMinimalData)\<rparr>
      in \<lparr>flags = fl, tx = t, txIdx = idx, eng_version = 0, bip16 = p2sh, scripts = ss, scriptIdx = i, opcodeIdx = 0,
          lastCodeSep = 0, tokenizer = MakeScriptTokenizer 0 (ss ! i), savedFirstStack = [], dstack = empty,
          astack = empty, condStack = [], numOps = 0, witnessVersion = 0, witnessProgram = None,
          inputAmount = amount, taprootCtx = None, hashCache = cache, prevOutFetcher = fetch\<rparr>)"

definition NewEngine ::
  "bytes \<Rightarrow> MsgTx \<Rightarrow> int \<Rightarrow> u32 \<Rightarrow> TxSigHashes option \<Rightarrow> int \<Rightarrow> PrevOutputFetcher \<Rightarrow> Engine outcome" where
  "NewEngine scriptPubKey t idx fl cache amount fetch =
     (if idx < 0 \<or> idx \<ge> int (length (TxIns t)) then Err ''ErrInvalidIndex''
      else
        let txin = TxIns t ! nat idx; scriptSig = SignatureScript txin;
            has = (\<lambda>f. fl AND f = f);
            p2sh = (has ScriptBip16 \<and> isScriptHashScript scriptPubKey)
        in if scriptSig = [] \<and> scriptPubKey = [] then Err ''ErrEvalFalse''
           else if has ScriptVerifyCleanStack \<and> \<not> has ScriptBip16 \<and> \<not> has ScriptVerifyWitness then Err ''ErrInvalidFlags''
           else if has ScriptVerifySigPushOnly \<and> \<not> IsPushOnlyScript scriptSig then Err ''ErrNotPushOnly''
           else if p2sh \<and> \<not> has ScriptVerifySigPushOnly \<and> \<not> IsPushOnlyScript scriptSig then Err ''ErrNotPushOnly''
           else bind (check_scripts [scriptSig, scriptPubKey]) (\<lambda>_.
             setup_witness txin (fresh_engine scriptPubKey t (nat idx) fl cache amount fetch p2sh scriptSig)))"

section \<open>Switching scripts\<close>

text \<open>What a switch keeps, and that it adds at most \<open>n\<close> scripts.\<close>

definition grown :: "nat \<Rightarrow> Engine \<Rightarrow> Engine \<Rightarrow> bool" where
  "grown n vm vm' \<longleftrightarrow> tx vm' = tx vm \<and> txIdx vm' = txIdx vm \<and> bip16 vm' = bip16 vm \<and> eng_version vm' = eng_version vm \<and>
     scriptIdx vm' = scriptIdx vm \<and> astack vm' = astack vm \<and> numOps vm' = numOps vm \<and> condStack vm' = condStack vm \<and>
     savedFirstStack vm' = savedFirstStack vm \<and> flags vm' = flags vm \<and> hashCache vm' = hashCache vm \<and>
     prevOutFetcher vm' = prevOutFetcher vm \<and> (\<exists>xs. scripts vm' = scripts vm @ xs \<and> length xs \<le> n)"

lemma grown_refl: "grown n vm vm"
  by (simp add: grown_def)

lemma grown_simps [simp]:
  "grown n vm (vm'\<lparr>witnessProgram := p\<rparr>) = grown n vm vm'"
  "grown n vm (vm'\<lparr>taprootCtx := c\<rparr>) = grown n vm vm'"
  "grown n vm (vm'\<lparr>dstack := s\<rparr>) = grown n vm vm'"
  "grown n vm (SetStack d vm') = grown n vm vm'"
  "grown n vm (must_succeed vm') = grown n vm vm'"
  "grown (Suc 0) vm (vm\<lparr>scripts := scripts vm @ [x]\<rparr>)"
  by (simp_all add: grown_def SetStack_def must_succeed_def)

lemma check_witness_stack_Ok: "upon (check_witness_stack vm) (\<lambda>vm'. vm' = vm)"
  by (simp add: check_witness_stack_def)

lemma verify_segwit_grown: "upon (verify_segwit env p w vm) (grown (Suc 0) vm)"
  by (auto simp: verify_segwit_def Let_def intro!: uponI)

lemma verify_taproot_grown: "upon (verify_taproot env p w vm) (\<lambda>(_, vm'). grown (Suc 0) vm vm')"
  by (auto simp: verify_taproot_def verify_tapscript_def Let_def grown_refl grown_def SetStack_def must_succeed_def
      intro!: uponI)

lemma verifyWitness_grown: "upon (verifyWitnessProgram env w vm) (grown (Suc 0) vm)"
proof -
  have "upon (verify_segwit env p w vm) (\<lambda>x. upon (check_witness_stack x) (grown (Suc 0) vm))" for p
    using verify_segwit_grown by (rule upon_mono) (rule upon_mono [OF check_witness_stack_Ok], simp)
  moreover have "upon (verify_taproot env p w vm)
      (\<lambda>x. upon (case x of (stop, vm') \<Rightarrow> if stop then Ok vm' else check_witness_stack vm') (grown (Suc 0) vm))" for p
    using verify_taproot_grown by (rule upon_mono) (auto intro: upon_mono [OF check_witness_stack_Ok])
  moreover have "upon (check_witness_stack (vm\<lparr>witnessProgram := None\<rparr>)) (grown (Suc 0) vm)"
    by (rule upon_mono [OF check_witness_stack_Ok]) (simp add: grown_refl)
  ultimately show ?thesis
    by (simp add: verifyWitnessProgram_def Let_def)
qed

lemma CheckErrorCondition_grown: "upon (CheckErrorCondition f vm) (grown 0 vm)"
  by (auto simp: CheckErrorCondition_def grown_refl intro!: uponI [of "PopBool _"])

lemma next_script_frame:
  "upon (next_script env vm) (\<lambda>vm'. scriptIdx vm' = scriptIdx vm + 1 \<and> tx vm' = tx vm \<and> txIdx vm' = txIdx vm \<and>
     bip16 vm' = bip16 vm \<and> eng_version vm' = eng_version vm \<and> astack vm' = astack vm \<and> numOps vm' = numOps vm \<and>
     condStack vm' = condStack vm \<and> flags vm' = flags vm \<and> hashCache vm' = hashCache vm \<and>
     prevOutFetcher vm' = prevOutFetcher vm \<and> (\<exists>xs. scripts vm' = scripts vm @ xs \<and>
     length xs \<le> (if scriptIdx vm = 1 \<or> scriptIdx vm = 2 then 1 else 0)))"
proof -
  have "upon (CheckErrorCondition False (advance vm)) (\<lambda>x. upon (if savedFirstStack x = [] then Panic p else
      let script = last (savedFirstStack x) in bind (checkScriptParses (eng_version x) script) (\<lambda>_.
      Ok (SetStack (butlast (savedFirstStack x)) (x\<lparr>scripts := scripts x @ [script]\<rparr>)))) (grown (Suc 0) (advance vm)))" for p
    using CheckErrorCondition_grown by (rule upon_mono) (auto simp: Let_def grown_def SetStack_def intro!: uponI)
  then have "upon (run_p2sh vm) (grown (Suc 0) (advance vm))"
    by (simp add: run_p2sh_def)
  moreover have "upon (run_witness env vm) (grown (Suc 0) (advance vm))"
    by (simp add: run_witness_def) (rule uponI, rule verifyWitness_grown)
  ultimately show ?thesis
    by (auto simp: next_script_def advance_def grown_def elim!: upon_mono)
qed


section \<open>Termination\<close>

text \<open>
  Scripts still to run: those after the current one, and the ones that may still be added.  A step
  that does not end the run lowers this number, or keeps it and consumes bytes of the script.
\<close>

definition budget :: "Engine \<Rightarrow> nat" where
  "budget vm = length (scripts vm) + (if scriptIdx vm \<le> 1 then 2 else if scriptIdx vm = 2 then 1 else 0) - scriptIdx vm"

lemma finish_script_budget:
  assumes "finish_script env vm = Ok (False, vm')" and "scriptIdx vm < length (scripts vm)"
  shows "budget vm' < budget vm"
proof -
  obtain vm1 where nx: "next_script env (leave_script vm) = Ok vm1"
      and vm': "scriptIdx vm' = scriptIdx vm1 \<or> scriptIdx vm' = Suc (scriptIdx vm1)" "scripts vm' = scripts vm1"
    using assms(1) by (auto simp: finish_script_def advance_def Let_def bind_Ok_iff split: if_splits)
  obtain xs where "scriptIdx vm1 = scriptIdx vm + 1" "scripts vm1 = scripts vm @ xs"
      "length xs \<le> (if scriptIdx vm = 1 \<or> scriptIdx vm = 2 then 1 else 0)"
    using uponD [OF next_script_frame nx] by (auto simp: leave_script_def)
  then show ?thesis
    using assms(2) vm' by (auto simp: budget_def split: if_splits)
qed

lemma frame_ofD:
  assumes "frame_of vm' = frame_of vm"
  shows "flags vm' = flags vm" "tx vm' = tx vm" "txIdx vm' = txIdx vm" "eng_version vm' = eng_version vm"
    "bip16 vm' = bip16 vm" "scripts vm' = scripts vm" "scriptIdx vm' = scriptIdx vm" "opcodeIdx vm' = opcodeIdx vm"
    "tokenizer vm' = tokenizer vm" "savedFirstStack vm' = savedFirstStack vm" "witnessVersion vm' = witnessVersion vm"
    "witnessProgram vm' = witnessProgram vm" "taprootCtx vm' = None \<longleftrightarrow> taprootCtx vm = None"
    "hashCache vm' = hashCache vm" "prevOutFetcher vm' = prevOutFetcher vm"
  using assms by (auto simp: frame_of_def)

lemma Step_OkE:
  assumes "Step env vm = Ok (b, vm')"
  obtains t vm1 where "scriptIdx vm < length (scripts vm)" and "tk_Next (tokenizer vm) = (True, t)"
    and "executeOpcode env (tk_op t) (tk_data t) (vm\<lparr>tokenizer := t\<rparr>) = Ok vm1"
    and "frame_of vm1 = frame_of (vm\<lparr>tokenizer := t\<rparr>)"
    and "(if tk_Done (tokenizer vm1) then finish_script env (vm1\<lparr>opcodeIdx := opcodeIdx vm1 + 1\<rparr>)
          else Ok (False, vm1\<lparr>opcodeIdx := opcodeIdx vm1 + 1\<rparr>)) = Ok (b, vm')"
proof -
  obtain ok t where nx: "tk_Next (tokenizer vm) = (ok, t)"
    by (cases "tk_Next (tokenizer vm)")
  with assms that [of t] show thesis
    by (auto simp: Step_def checkValidPC_def bind_Ok_iff Let_def executeOpcode_frame [THEN uponD]
        split: if_splits bool.splits option.splits)
qed

lemma Step_decreases:
  assumes "Step env vm = Ok (False, vm')"
  shows "budget vm' < budget vm \<or> budget vm' = budget vm \<and> tk_left (tokenizer vm') < tk_left (tokenizer vm)"
  using assms
proof (rule Step_OkE)
  fix t vm1
  assume idx: "scriptIdx vm < length (scripts vm)" and nx: "tk_Next (tokenizer vm) = (True, t)"
    and frame: "frame_of vm1 = frame_of (vm\<lparr>tokenizer := t\<rparr>)"
    and fin: "(if tk_Done (tokenizer vm1) then finish_script env (vm1\<lparr>opcodeIdx := opcodeIdx vm1 + 1\<rparr>)
          else Ok (False, vm1\<lparr>opcodeIdx := opcodeIdx vm1 + 1\<rparr>)) = Ok (False, vm')"
  note vm1 = frame_ofD [OF frame, simplified]
  show ?thesis
  proof (cases "tk_Done (tokenizer vm1)")
    case True
    then have "budget vm' < budget (vm1\<lparr>opcodeIdx := opcodeIdx vm1 + 1\<rparr>)"
      using fin idx vm1 by (intro finish_script_budget) simp_all
    moreover have "budget (vm1\<lparr>opcodeIdx := opcodeIdx vm1 + 1\<rparr>) = budget vm"
      using vm1 by (auto simp: budget_def)
    ultimately show ?thesis
      by simp
  next
    case False
    then show ?thesis
      using fin vm1 tk_Next_measure [OF nx [symmetric]] by (auto simp: budget_def)
  qed
qed

lemma execute_loop_ends: "\<exists>n r. \<forall>m. execute_loop (n + m) env vm = Some r"
proof -
  have "wf (inv_image (less_than <*lex*> less_than) (\<lambda>vm. (budget vm, tk_left (tokenizer vm))))"
    by auto
  then show ?thesis
  proof (induction vm rule: wf_induct_rule)
    case (less vm)
    show ?case
    proof (cases "Step env vm")
      case (Ok x)
      show ?thesis
      proof (cases "fst x")
        case True
        then show ?thesis
          using Ok by (intro exI [of _ 1]) (cases x; simp)
      next
        case False
        then obtain vm' where vm': "Step env vm = Ok (False, vm')"
          using Ok by (cases x) simp
        then obtain n r where "\<forall>m. execute_loop (n + m) env vm' = Some r"
          using less.IH [of vm'] Step_decreases [OF vm'] by auto
        then show ?thesis
          using vm' by (intro exI [of _ "Suc n"]) simp
      qed
    qed (intro exI [of _ 1], simp)+
  qed
qed

text \<open>
  C5: Script execution ends.  Whatever scripts a transaction brings and whatever the hash functions
  and signature checks answer, there is a number of steps after which \<^verbatim>\<open>Execute\<close> has returned, and
  more steps do not change what it returned.
\<close>

theorem execute_terminates: "\<exists>n r. \<forall>m. Execute (n + m) env vm = Some r"
  by (cases "eng_version vm = 0") (simp_all add: Execute_def execute_loop_ends)

section \<open>A panic\<close>

text \<open>
  A signature script whose last two opcodes have the form of a version-1 witness program.
\<close>

definition crash_sig :: bytes where "crash_sig = [0x51, 0x51, 3, 0x51, 0x51, 0xac]"

lemma crash_tokens:
  "tokens crash_sig = [(81, []), (81, []), (3, [0x51, 0x51, 0xac])]" "parse_err crash_sig = None"
  "length h = 20 \<Longrightarrow> parse_err (0xa9 # 0x14 # h @ [0x87]) = None"
  "parse_err [0x51, 0x51, 0xac] = None"
  by (simp_all add: crash_sig_def tk_run.simps MakeScriptTokenizer_def tk_Next_def tk_Done_def op_length_def Let_def nth_append)

lemma crash_program: "extractWitnessProgramInfo (drop 1 crash_sig) = Some (1, [0x51, 0x51, 0xac])"
  by (simp add: extractWitnessProgramInfo_def crash_sig_def MakeScriptTokenizer_def tk_Next_def tk_Done_def
     op_length_def Let_def IsSmallInt_def AsSmallInt_def isCanonicalPush_def)

lemma crash_not_program: "length h = 20 \<Longrightarrow> \<not> isWitnessProgramScript (0xa9 # 0x14 # h @ [0x87])"
  by (simp add: isWitnessProgramScript_def extractWitnessProgramInfo_def MakeScriptTokenizer_def tk_Next_def tk_Done_def
     op_length_def Let_def IsSmallInt_def)

lemma crash_new:
  assumes "length h = 20" and "TxIns t = [i]" and "SignatureScript i = crash_sig" and "Witness i \<noteq> []"
    and "fl AND 1 = 1" and "fl AND 4096 = 4096"
  shows "NewEngine (0xa9 # 0x14 # h @ [0x87]) t 0 fl cache amount fetch =
    Ok ((fresh_engine (0xa9 # 0x14 # h @ [0x87]) t 0 fl cache amount fetch True crash_sig)\<lparr>witnessVersion := 1, witnessProgram := Some [0x51, 0x51, 0xac]\<rparr>)"
proof -
  have p2sh: "isScriptHashScript (0xa9 # 0x14 # h @ [0x87])"
    using assms(1) by (simp add: isScriptHashScript_def extractScriptHash_def nth_append)
  have po: "IsPushOnlyScript crash_sig"
    by (simp add: IsPushOnlyScript_def crash_tokens)
  have ne: "crash_sig \<noteq> []" "length crash_sig = 6" "crash_sig ! 0 = 0x51"
    by (simp_all add: crash_sig_def)
  have cs: "check_scripts [crash_sig, 0xa9 # 0x14 # h @ [0x87]] = Ok ()"
    using assms(1) crash_tokens(2,3) by (simp add: checkScriptParses_def ne)
  have wp: "isWitnessProgramScript (drop (Suc 0) crash_sig)"
    using crash_program by (simp add: isWitnessProgramScript_def)
  show ?thesis
    using assms p2sh po cs crash_not_program [OF assms(1)] crash_program wp ne
    by (simp add: NewEngine_def Let_def setup_witness_def set_program_def hasFlag_def fresh_engine_def isCanonicalPush_def
       del: check_scripts.simps)
qed

lemma crash_run:
  assumes "ripemd160 env (sha256 env [0x51, 0x51, 0xac]) = h" and "length h = 20"
  shows "Execute 9 env ((fresh_engine (0xa9 # 0x14 # h @ [0x87]) t 0 fl cache amount fetch True crash_sig)
     \<lparr>witnessVersion := 1, witnessProgram := Some [0x51, 0x51, 0xac]\<rparr>) = Some (Panic ''nil pointer dereference'')"
proof -
  have nine: "9 = Suc (Suc (Suc (Suc (Suc (Suc (Suc (Suc (Suc 0))))))))"
    by simp
  have ops: "map_of opcode_table 169 = Some opcodeHash160" "map_of opcode_table 135 = Some opcodeEqual" "map_of opcode_table 172 = Some opcodeCheckSig"
    by (simp_all add: opcode_table_def)
  have num: "num_Bytes 1 = Ok [1]"
    using num_Bytes_small [of 1] by simp
  have parse: "checkScriptParses 0 [0x51, 0x51, 0xac] = Ok ()"
    using crash_tokens(4) by (simp add: checkScriptParses_def)
  note defs = Step_def checkValidPC_def tk_Next_def tk_Done_def op_length_def executeOpcode_def isOpcodeDisabled_def
      isOpcodeAlwaysIllegal_def Let_def isBranchExecuting_def opfunc_def ops opcodeN_def opcodePushData_def on_dstack_def
      PushInt_def PushByteArray_def num checkMinimalDataPush_def MakeScriptTokenizer_def Depth_def
  show ?thesis
    unfolding Execute_def nine
    using assms
    by (simp add: fresh_engine_def crash_sig_def defs finish_script_def leave_script_def next_script_def advance_def GetStack_def
      opcodeHash160_def hash_top_def PopByteArray_def nipN_def opcodeEqual_def PushBool_def fromBool_def run_p2sh_def
      CheckErrorCondition_def PopBool_def asBool_def parse SetStack_def opcodeCheckSig_def isWitnessVersionActive_def nth_append)
qed

text \<open>
  C27: A transaction that crashes the engine.  The check in \<^verbatim>\<open>NewEngine\<close> that the signature script
  of a nested witness program is a single push looks only at its first byte, so it accepts the
  script OP_1, OP_1, push of three bytes.  For an output that pays to the hash of these three bytes
  (OP_1 OP_1 OP_CHECKSIG), with pay-to-script-hash and witness rules on and any witness, the engine
  is set up, and after eight steps OP_CHECKSIG runs under witness version 1 without a taproot
  context and calls a verifier that is nil.
\<close>

theorem nested_program_panics:
  assumes "ripemd160 env (sha256 env [0x51, 0x51, 0xac]) = h" and "length h = 20"
    and "TxIns t = [i]" and "SignatureScript i = [0x51, 0x51, 3, 0x51, 0x51, 0xac]" and "Witness i \<noteq> []"
    and "fl AND 1 = 1" and "fl AND 4096 = 4096"
  shows "\<exists>vm. NewEngine (0xa9 # 0x14 # h @ [0x87]) t 0 fl cache amount fetch = Ok vm \<and>
    Execute 9 env vm = Some (Panic ''nil pointer dereference'')"
  using crash_new [OF assms(2,3) _ assms(5-7)] assms(4) crash_run [OF assms(1,2)] by (auto simp: crash_sig_def)

definition sample_input :: "bytes \<Rightarrow> bytes list \<Rightarrow> TxIn" where
  "sample_input sig wit = \<lparr>PreviousOutPoint = ([], 0), SignatureScript = sig, Witness = wit, Sequence = 0\<rparr>"

definition sample_tx :: "bytes \<Rightarrow> bytes list \<Rightarrow> MsgTx" where
  "sample_tx sig wit = \<lparr>Version = 1, TxIns = [sample_input sig wit], TxOuts = [], LockTime = 0\<rparr>"

definition sample_script_env :: script_env where
  "sample_script_env = \<lparr>ripemd160 = (\<lambda>_. replicate 20 7), sha1 = (\<lambda>_. replicate 20 7), sha256 = (\<lambda>_. replicate 32 7),
     ParsePubKey = (\<lambda>_. True), ParseSignature = (\<lambda>_ _. True), ecdsa_Verify = (\<lambda>_ _ _ _. True),
     schnorr_ParsePubKey = (\<lambda>_. True), schnorr_ParseSignature = (\<lambda>_. True), schnorr_Verify = (\<lambda>_ _ _. True),
     tweak_key = (\<lambda>k _. (k, False))\<rparr>"

definition sample_fetch :: PrevOutputFetcher where
  "sample_fetch op = Some \<lparr>out_Value = 5, PkScript = []\<rparr>"

theorem nested_program_panics_witness:
  "\<exists>vm. NewEngine (0xa9 # 0x14 # replicate 20 7 @ [0x87]) (sample_tx [0x51, 0x51, 3, 0x51, 0x51, 0xac] [[1]]) 0 4097 None 5 sample_fetch = Ok vm \<and>
     Execute 9 sample_script_env vm = Some (Panic ''nil pointer dereference'')"
  using nested_program_panics [of sample_script_env "replicate 20 7" "sample_tx [0x51, 0x51, 3, 0x51, 0x51, 0xac] [[1]]"
      "sample_input [0x51, 0x51, 3, 0x51, 0x51, 0xac] [[1]]" 4097 None 5 sample_fetch]
  by (simp add: sample_script_env_def sample_tx_def sample_input_def)

end
