(* ===== verification/Script_Invariant.thy ===== *)
theory Script_Invariant
  imports Script_Run
begin

text \<open>
  The invariant of a run of the script engine: the stacks stay within their limits and nothing
  panics, from every engine that \<^verbatim>\<open>NewEngine\<close> returns other than those with a nested witness program of a future version.
\<close>

section \<open>Safety of a run\<close>

text \<open>
  The facts that hold throughout: the input exists and its witness has at most \<open>W\<close> items, each
  shorter than 2^31 bytes, as is every script; the saved stack is bounded; under pay-to-script-hash
  the second script has the pay-to-script-hash form.
\<close>

definition static :: "nat \<Rightarrow> Engine \<Rightarrow> bool" where
  "static W vm \<longleftrightarrow> 1000 \<le> W \<and> W + 30 \<le> room \<and> txIdx vm < length (TxIns (tx vm)) \<and>
     length (Witness (TxIns (tx vm) ! txIdx vm)) \<le> W \<and>
     list_all (\<lambda>e. length e < 2 ^ 31) (Witness (TxIns (tx vm) ! txIdx vm)) \<and>
     list_all (\<lambda>s. length s < 2 ^ 31) (scripts vm) \<and> 2 \<le> length (scripts vm) \<and>
     length (savedFirstStack vm) \<le> W \<and> list_all (\<lambda>e. length e \<le> 520) (savedFirstStack vm) \<and>
     (bip16 vm \<longrightarrow> isScriptHashScript (scripts vm ! 1)) \<and> spends_known (prevOutFetcher vm) (TxIns (tx vm)) \<and>
     (flags vm AND ScriptVerifyTaproot = ScriptVerifyTaproot \<longrightarrow> hashCache vm \<noteq> None)"

text \<open>The taproot context appears when a native witness program is left.\<close>

definition tap_late :: "Engine \<Rightarrow> bool" where
  "tap_late vm \<longleftrightarrow> taprootCtx vm = None \<or> \<not> bip16 vm \<and> 2 \<le> scriptIdx vm"

text \<open>A native witness program that is being read, before its witness is looked at.\<close>

definition reading_program :: "Engine \<Rightarrow> bool" where
  "reading_program vm \<longleftrightarrow> scriptIdx vm = 1 \<and> \<not> bip16 vm \<and> isWitnessProgramScript (scripts vm ! 1) \<and>
     tk_offset (tokenizer vm) \<le> 1"

definition vm_inv :: "nat \<Rightarrow> Engine \<Rightarrow> bool" where
  "vm_inv W vm \<longleftrightarrow> static W vm \<and> engine_ok vm \<and> bounded W vm \<and> (scriptIdx vm \<le> 1 \<longrightarrow> length (scripts vm) = 2) \<and>
     (bip16 vm \<and> scriptIdx vm = 1 \<and> savedFirstStack vm = [] \<longrightarrow> stk (dstack vm) = [] \<and> tk_offset (tokenizer vm) = 0 \<and> condStack vm = []) \<and>
     (sig_ready vm \<or> reading_program vm) \<and> tap_late vm"

text \<open>The engine between two scripts: the data stack has at most \<open>k\<close> items.\<close>

definition between :: "nat \<Rightarrow> Engine \<Rightarrow> bool" where
  "between k vm \<longleftrightarrow> length (stk (dstack vm)) \<le> k \<and> (\<forall>e\<in>set (stk (dstack vm)). length e \<le> 520)"

lemma between_stack: "between k (vm\<lparr>dstack := s\<rparr>) \<longleftrightarrow> small k s"
  by (simp add: between_def small_def)

lemma between_small: "between k vm \<longleftrightarrow> small k (dstack vm)"
  by (simp add: between_def small_def)

lemma safe_CheckErrorCondition:
  assumes "between k vm" and "k \<le> room"
  shows "safe (CheckErrorCondition f vm) (between k)"
proof -
  have "safe (PopBool (dstack vm)) (\<lambda>(v, s). small k s)"
    using assms by (intro safe_PopBool [of k]) (simp_all add: between_small)
  then have "safe (PopBool (dstack vm)) (\<lambda>x. safe (case x of (v, s) \<Rightarrow> if \<not> v then Err e else Ok (vm\<lparr>dstack := s\<rparr>)) (between k))" for e
    by (rule safe_mono) (auto simp: between_stack)
  then show ?thesis
    using assms(1) by (simp add: CheckErrorCondition_def)
qed

lemma safe_checkScriptParses: "Q () \<Longrightarrow> safe (checkScriptParses v s) Q"
  by (simp add: checkScriptParses_def split: option.splits)

lemma safe_check_witness_stack:
  assumes "isWitnessVersionActive 0 vm \<or> isWitnessVersionActive 1 vm" and "length (stk (dstack vm)) \<le> k"
  shows "safe (check_witness_stack vm) (\<lambda>vm'. vm' = vm \<and> between k vm')"
  using assms by (auto simp: check_witness_stack_def between_def GetStack_def list_ex_iff not_less)

lemma payToPubKeyHashScript_Ok:
  "length p = 20 \<Longrightarrow> payToPubKeyHashScript p = Ok ([0x76, 0xa9, 0x14] @ p @ [0x88, 0xac])"
  by (simp add: payToPubKeyHashScript_def builder_Script_def AddOp_def AddData_def addData_def push_bytes_def
      canonicalDataSize_def NewScriptBuilder_def Let_def)

text \<open>
  What a witness program does to the engine: the new stack is bounded, the new script is short,
  and signature opcodes find a verifier unless the program adds no script.
\<close>

definition switched :: "nat \<Rightarrow> Engine \<Rightarrow> Engine \<Rightarrow> bool" where
  "switched W vm vm' \<longleftrightarrow> between W vm' \<and> list_all (\<lambda>s. length s < 2 ^ 31) (scripts vm') \<and>
     (sig_ready vm' \<or> scripts vm' = scripts vm \<and> \<not> bip16 vm) \<and> (bip16 vm \<longrightarrow> taprootCtx vm' = None)"

lemma safe_verify_segwit:
  assumes "static W vm" and "isWitnessVersionActive 0 vm" and "w = Witness (TxIns (tx vm) ! txIdx vm)"
  shows "safe (verify_segwit env p w vm) (\<lambda>vm'. length (stk (dstack vm')) \<le> W \<and> witnessProgram vm' = witnessProgram vm \<and>
    witnessVersion vm' = witnessVersion vm \<and> taprootCtx vm' = taprootCtx vm \<and>
    list_all (\<lambda>s. length s < 2 ^ 31) (scripts vm'))"
  using assms
  by (auto simp: verify_segwit_def Let_def payToPubKeyHashScript_Ok static_def SetStack_def list_all_iff
      intro!: safe_checkScriptParses)

lemma safe_ParseControlBlock:
  "(\<And>c. length (InclusionProof c) mod 32 = 0 \<Longrightarrow> Q c) \<Longrightarrow> safe (ParseControlBlock env b) Q"
  by (cases "length b < 33") (auto simp: ParseControlBlock_def slice_def index_def)

lemma safe_root_loop: "32 * (off + n) \<le> length proof \<Longrightarrow> (\<And>x. Q x) \<Longrightarrow> safe (root_loop env proof off n acc) Q"
  by (induction n arbitrary: off acc) (simp_all add: slice_def)

lemma safe_VerifyTaprootLeafCommitment:
  "Q () \<Longrightarrow> safe (VerifyTaprootLeafCommitment env c p scr) Q"
  by (auto simp: VerifyTaprootLeafCommitment_def RootHash_def split: prod.splits intro!: safe_root_loop)

lemma safe_verify_tapscript:
  assumes "list_all (\<lambda>e. length e < 2 ^ 31) w" and "length w \<le> W" and "w \<noteq> []"
    and "list_all (\<lambda>s. length s < 2 ^ 31) (scripts vm)" and "between W vm" and "taprootCtx vm \<noteq> None"
    and "isWitnessVersionActive 1 vm"
  shows "safe (verify_tapscript env p w vm) (\<lambda>(stop, vm').
    (stop \<longrightarrow> between W vm' \<and> taprootCtx vm' \<noteq> None \<and> scripts vm' = scripts vm) \<and>
    (\<not> stop \<longrightarrow> length (stk (dstack vm')) \<le> W \<and> isWitnessVersionActive 1 vm' \<and> taprootCtx vm' \<noteq> None \<and>
      hashCache vm' = hashCache vm \<and> list_all (\<lambda>s. length s < 2 ^ 31) (scripts vm')))"
proof -
  have stopped: "between W (must_succeed vm)" "taprootCtx (must_succeed vm) \<noteq> None" "scripts (must_succeed vm) = scripts vm"
    using assms(5,6) by (simp_all add: must_succeed_def between_def)
  have "length (w ! (length w - 2)) < 2 ^ 31"
    using assms(1,3) by (auto simp: list_all_iff)
  then show ?thesis
    using stopped assms(2,4,6,7)
    by (auto simp: verify_tapscript_def Let_def SetStack_def isWitnessVersionActive_def
        intro!: safe_ParseControlBlock safe_VerifyTaprootLeafCommitment safe_checkScriptParses)
qed

lemma safe_verify_taproot:
  assumes "static W vm" and "isWitnessVersionActive 1 vm" and "between 1000 vm" and "\<not> bip16 vm"
    and "w = Witness (TxIns (tx vm) ! txIdx vm)"
  shows "safe (verify_taproot env p w vm) (\<lambda>(stop, vm').
    (stop \<longrightarrow> switched W vm vm') \<and>
    (\<not> stop \<longrightarrow> length (stk (dstack vm')) \<le> W \<and> isWitnessVersionActive 1 vm' \<and> taprootCtx vm' \<noteq> None \<and>
      hashCache vm' \<noteq> None \<and> list_all (\<lambda>s. length s < 2 ^ 31) (scripts vm')))"
proof (cases "hasFlag vm ScriptVerifyTaproot")
  case flag: True
  let ?P = "\<lambda>(stop, vm'). (stop \<longrightarrow> switched W vm vm') \<and>
    (\<not> stop \<longrightarrow> length (stk (dstack vm')) \<le> W \<and> isWitnessVersionActive 1 vm' \<and> taprootCtx vm' \<noteq> None \<and>
      hashCache vm' \<noteq> None \<and> list_all (\<lambda>s. length s < 2 ^ 31) (scripts vm'))"
  have W: "between W (vm\<lparr>taprootCtx := c\<rparr>)" for c
    using assms(1,3) by (simp add: between_def static_def)
  have scr: "list_all (\<lambda>s. length s < 2 ^ 31) (scripts vm)" and cache: "hashCache vm \<noteq> None"
    using assms(1) flag by (auto simp: static_def hasFlag_def)
  have stop: "switched W vm vm'" if "between W vm'" "scripts vm' = scripts vm" for vm'
    using that scr assms(4) by (simp add: switched_def)
  have items: "list_all (\<lambda>e. length e < 2 ^ 31) (butlast w)" "length (butlast w) \<le> W" "list_all (\<lambda>e. length e < 2 ^ 31) w" "length w \<le> W"
    using assms(1,5) by (auto simp: static_def list_all_iff dest: in_set_butlastD)
  have tap: "safe (verify_tapscript env p xs (vm\<lparr>taprootCtx := Some c\<rparr>)) ?P"
    if "list_all (\<lambda>e. length e < 2 ^ 31) xs" "length xs \<le> W" "xs \<noteq> []" for xs c
    by (rule safe_mono [OF safe_verify_tapscript [OF that]])
      (use scr W stop cache assms(2) in \<open>auto simp: isWitnessVersionActive_def\<close>)
  have key: "safe (VerifyTaprootKeySpend env p s (vm\<lparr>taprootCtx := Some c\<rparr>)) Q" if "Q ()" for s c Q
    using that cache assms(1) by (auto simp: VerifyTaprootKeySpend_def static_def Let_def
        intro!: safe_parseTaproot safe_taproot_Verify)
  have "?P (True, must_succeed (vm\<lparr>taprootCtx := Some c\<rparr>))" for c
    using W by (auto intro!: stop simp: must_succeed_def between_def)
  moreover have "butlast w \<noteq> []" if "isAnnexedWitness w"
    using that by (cases w rule: rev_cases) (auto simp: isAnnexedWitness_def)
  ultimately show ?thesis
    using tap items key flag by (simp add: verify_taproot_def Let_def)
next
  case False
  have "switched W vm vm"
    using assms(1,3,4) by (simp add: switched_def between_def static_def)
  with False show ?thesis
    by (simp add: verify_taproot_def)
qed

lemma safe_verifyWitnessProgram:
  assumes "static W vm" and "between 1000 vm" and "w = Witness (TxIns (tx vm) ! txIdx vm)" and "taprootCtx vm = None"
  shows "safe (verifyWitnessProgram env w vm) (switched W vm)"
proof -
  have W: "between W vm" and scr: "list_all (\<lambda>s. length s < 2 ^ 31) (scripts vm)"
    using assms(1,2) by (simp_all add: between_def static_def)
  have "safe (verify_segwit env p w vm) (\<lambda>x. safe (check_witness_stack x) (switched W vm))"
    if "isWitnessVersionActive 0 vm" for p
  proof (rule safe_mono [OF safe_verify_segwit [OF assms(1) that assms(3)]])
    fix x :: Engine
    assume x: "length (stk (dstack x)) \<le> W \<and> witnessProgram x = witnessProgram vm \<and>
      witnessVersion x = witnessVersion vm \<and> taprootCtx x = taprootCtx vm \<and> list_all (\<lambda>s. length s < 2 ^ 31) (scripts x)"
    then have "isWitnessVersionActive 0 x" and "taprootCtx x = None"
      using that assms(4) by (simp_all add: isWitnessVersionActive_def)
    with x show "safe (check_witness_stack x) (switched W vm)"
      by (intro safe_mono [OF safe_check_witness_stack [of x W]]) (auto simp: switched_def sig_ready_def)
  qed
  moreover have "safe (verify_taproot env p w vm)
      (\<lambda>x. safe (case x of (stop, vm') \<Rightarrow> if stop then Ok vm' else check_witness_stack vm') (switched W vm))"
    if "isWitnessVersionActive 1 vm" "\<not> bip16 vm" for p
    by (rule safe_mono [OF safe_verify_taproot [OF assms(1) that(1) assms(2) that(2) assms(3)]])
      (use that(2) in \<open>auto intro!: safe_mono [OF safe_check_witness_stack [of _ W]] simp: switched_def sig_ready_def\<close>)
  moreover have "safe (check_witness_stack (vm\<lparr>witnessProgram := None\<rparr>)) (switched W vm)"
    using W scr assms(4) by (simp add: check_witness_stack_def isWitnessVersionActive_def switched_def between_def sig_ready_def)
  ultimately show ?thesis
    by (simp add: verifyWitnessProgram_def Let_def)
qed

text \<open>The facts about the engine when it has moved to the next script.\<close>

definition landed :: "nat \<Rightarrow> Engine \<Rightarrow> Engine \<Rightarrow> bool" where
  "landed W vm vm' \<longleftrightarrow> between W vm' \<and> list_all (\<lambda>s. length s < 2 ^ 31) (scripts vm') \<and>
     length (savedFirstStack vm') \<le> W \<and> list_all (\<lambda>e. length e \<le> 520) (savedFirstStack vm') \<and>
     (bip16 vm' \<and> scriptIdx vm' = 1 \<longrightarrow> stk (dstack vm') = savedFirstStack vm') \<and>
     (sig_ready vm' \<or> scriptIdx vm' \<ge> length (scripts vm')) \<and> tap_late vm'"

lemma sig_ready_advance [simp]: "sig_ready (advance vm) = sig_ready vm" "between k (advance vm) = between k vm"
  "static W (advance vm) = static W vm" "scriptIdx (advance vm) = Suc (scriptIdx vm)" "scripts (advance vm) = scripts vm"
  "eng_version (advance vm) = eng_version vm"
  by (simp_all add: sig_ready_def advance_def isWitnessVersionActive_def between_def static_def)

lemma safe_run_p2sh:
  assumes "static W vm" and "between 1000 vm" and "sig_ready vm" and "scriptIdx vm = 1" and "savedFirstStack vm \<noteq> []"
    and "taprootCtx vm = None"
  shows "safe (run_p2sh vm) (landed W vm)"
proof -
  have "safe (CheckErrorCondition False (advance vm)) (between 1000)"
    using assms(2) by (intro safe_CheckErrorCondition) simp_all
  moreover have "upon (CheckErrorCondition False (advance vm))
      (\<lambda>x. grown 0 (advance vm) x \<and> witnessProgram x = witnessProgram vm \<and> witnessVersion x = witnessVersion vm \<and> taprootCtx x = taprootCtx vm)"
    by (auto simp: CheckErrorCondition_def grown_refl advance_def intro!: uponI [of "PopBool _"])
  ultimately have "safe (CheckErrorCondition False (advance vm))
      (\<lambda>x. between 1000 x \<and> grown 0 (advance vm) x \<and> witnessProgram x = witnessProgram vm \<and>
        witnessVersion x = witnessVersion vm \<and> taprootCtx x = taprootCtx vm)"
    by (rule safe_upon)
  then show ?thesis
    unfolding run_p2sh_def safe_simps
  proof (rule safe_mono)
    fix x
    assume x: "between 1000 x \<and> grown 0 (advance vm) x \<and> witnessProgram x = witnessProgram vm \<and>
        witnessVersion x = witnessVersion vm \<and> taprootCtx x = taprootCtx vm"
    then have saved: "savedFirstStack x = savedFirstStack vm" and scr: "scripts x = scripts vm" and idx: "scriptIdx x = 2"
      using assms(4) by (auto simp: grown_def advance_def)
    let ?s = "last (savedFirstStack vm)"
    have "length ?s \<le> 520" and "\<forall>e\<in>set (butlast (savedFirstStack vm)). length e \<le> 520" and "length (savedFirstStack vm) - 1 \<le> W"
      using assms(1,5) by (auto simp: static_def list_all_iff dest: in_set_butlastD)
    then have "landed W vm (SetStack (butlast (savedFirstStack vm)) (x\<lparr>scripts := scripts vm @ [?s]\<rparr>))"
      using x idx assms(1,3,6) saved
      by (auto simp: tap_late_def landed_def SetStack_def between_def static_def sig_ready_def isWitnessVersionActive_def)
    then show "safe (if savedFirstStack x = [] then Panic ''index out of range''
        else let script = last (savedFirstStack x) in bind (checkScriptParses (eng_version x) script) (\<lambda>_.
          Ok (SetStack (butlast (savedFirstStack x)) (x\<lparr>scripts := scripts x @ [script]\<rparr>)))) (landed W vm)"
      using assms(5) saved scr by (auto simp: Let_def intro!: safe_checkScriptParses)
  qed
qed

lemma safe_run_witness:
  assumes "taprootCtx vm = None" and "static W vm" and "between 1000 vm" and "\<not> bip16 vm \<longrightarrow> scriptIdx vm = 1 \<and> length (scripts vm) = 2"
    and "bip16 vm \<longrightarrow> scriptIdx vm = 2"
  shows "safe (run_witness env vm) (landed W vm)"
proof -
  let ?w = "Witness (TxIns (tx vm) ! txIdx vm)"
  have ix: "index (TxIns (tx vm)) (txIdx vm) = Ok (TxIns (tx vm) ! txIdx vm)"
    using assms(2) by (simp add: static_def)
  have "safe (verifyWitnessProgram env ?w (advance vm)) (switched W (advance vm))"
    using assms(1-3) by (intro safe_verifyWitnessProgram) (simp_all, simp_all add: advance_def)
  from safe_upon [OF this verifyWitness_grown] have "safe (verifyWitnessProgram env ?w (advance vm)) (landed W vm)"
    by (rule safe_mono) (use assms in \<open>auto simp: switched_def landed_def grown_def advance_def static_def tap_late_def\<close>)
  then show ?thesis
    by (simp add: run_witness_def ix)
qed

lemma safe_next_script:
  assumes "tap_late vm" and "static W vm" and "between 1000 vm" and "scriptIdx vm \<le> 1 \<longrightarrow> length (scripts vm) = 2"
    and "sig_ready vm \<or> scriptIdx vm = 1 \<and> \<not> bip16 vm"
    and "\<not> (bip16 vm \<and> scriptIdx vm = 1 \<and> savedFirstStack vm = [])"
  shows "safe (next_script env vm) (landed W vm)"
proof -
  have W: "between W vm"
    using assms(2,3) by (simp add: between_def static_def)
  have p2sh: "safe (run_p2sh vm) (landed W vm)" if "scriptIdx vm = 1" "bip16 vm"
    using that assms by (intro safe_run_p2sh) (auto simp: tap_late_def)
  have wit: "safe (run_witness env vm) (landed W vm)" if "(scriptIdx vm = 1 \<and> \<not> bip16 vm) \<or> (scriptIdx vm = 2 \<and> bip16 vm)"
    using that assms by (intro safe_run_witness) (auto simp: tap_late_def)
  have first: "landed W vm ((advance vm)\<lparr>savedFirstStack := GetStack vm\<rparr>)" if "scriptIdx vm = 0"
    using that assms(1,2,5) W
    by (auto simp: tap_late_def landed_def GetStack_def between_def static_def list_all_iff advance_def sig_ready_def isWitnessVersionActive_def)
  have other: "landed W vm (advance vm)"
    if "\<not> (scriptIdx vm = 0 \<and> bip16 vm)" "sig_ready vm"
    using that assms(1,2) W by (auto simp: landed_def static_def tap_late_def) (simp_all add: advance_def)
  have "sig_ready vm" if "scriptIdx vm = 1" "\<not> bip16 vm" "witnessProgram vm = None"
    using that assms(1) by (auto simp: tap_late_def sig_ready_def)
  then show ?thesis
    using p2sh wit first other assms(5) by (auto simp: next_script_def)
qed

lemma vm_inv_enter:
  assumes "static W x" and "between W x" and "stk (astack x) = []" and "numOps x = 0" and "condStack x = []"
    and "scriptIdx x < length (scripts x)" and "scriptIdx x \<le> 1 \<longrightarrow> length (scripts x) = 2"
    and "bip16 x \<and> scriptIdx x = 1 \<and> savedFirstStack x = [] \<longrightarrow> stk (dstack x) = []" and "sig_ready x" and "tap_late x"
  shows "vm_inv W (x\<lparr>lastCodeSep := 0, tokenizer := MakeScriptTokenizer v (scripts x ! scriptIdx x)\<rparr>)"
proof -
  let ?y = "x\<lparr>lastCodeSep := 0, tokenizer := MakeScriptTokenizer v (scripts x ! scriptIdx x)\<rparr>"
  have "static W ?y" and "engine_ok ?y" and "bounded W ?y"
    using assms(1-7) by (simp_all add: static_def engine_ok_def bounded_def between_def MakeScriptTokenizer_def)
  moreover have "sig_ready ?y = sig_ready x" and "tap_late ?y = tap_late x"
    by (simp_all add: sig_ready_def isWitnessVersionActive_def tap_late_def)
  ultimately show ?thesis
    using assms by (simp add: vm_inv_def MakeScriptTokenizer_def)
qed

lemma vm_inv_skip:
  assumes "static W vm1" and "between W vm1" and "stk (astack vm1) = []" and "numOps vm1 = 0" and "condStack vm1 = []"
    and "1 \<le> scriptIdx vm1" and "scriptIdx vm1 = 1 \<longrightarrow> length (scripts vm1) = 2"
    and "bip16 vm1 \<and> scriptIdx vm1 = 1 \<longrightarrow> stk (dstack vm1) = savedFirstStack vm1"
    and "sig_ready vm1 \<or> scriptIdx vm1 \<ge> length (scripts vm1)"
    and "x = vm1 \<or> x = advance vm1" and "scriptIdx x < length (scripts vm1)" and "tap_late vm1"
  shows "vm_inv W (x\<lparr>lastCodeSep := 0, tokenizer := MakeScriptTokenizer v (scripts vm1 ! scriptIdx x)\<rparr>)"
proof -
  have le: "scriptIdx vm1 \<le> scriptIdx x" "scripts x = scripts vm1"
    and same: "static W x = static W vm1" "between W x = between W vm1" "astack x = astack vm1" "numOps x = numOps vm1"
      "condStack x = condStack vm1" "sig_ready x = sig_ready vm1" "bip16 x = bip16 vm1" "dstack x = dstack vm1"
      "savedFirstStack x = savedFirstStack vm1" "scriptIdx x = 1 \<longrightarrow> scriptIdx vm1 = 1"
    using assms(6,10) by (auto, auto simp: advance_def)
  then have "sig_ready vm1"
    using assms(9,11) by simp
  then have "sig_ready x" and "static W x" and "between W x" and "stk (astack x) = []" and "numOps x = 0" and "condStack x = []"
      and "scriptIdx x \<le> 1 \<longrightarrow> length (scripts x) = 2"
      and "bip16 x \<and> scriptIdx x = 1 \<and> savedFirstStack x = [] \<longrightarrow> stk (dstack x) = []"
    using assms(1-8) same le by auto
  moreover have "tap_late x"
    using assms(10,12) by (auto simp: tap_late_def advance_def)
  ultimately show ?thesis
    using vm_inv_enter [of W x v] assms(11) le(2) by simp
qed

lemma safe_finish_script:
  assumes "tap_late vm" and "static W vm" and "bounded 1000 vm" and "scriptIdx vm \<le> 1 \<longrightarrow> length (scripts vm) = 2"
    and "sig_ready vm \<or> scriptIdx vm = 1 \<and> \<not> bip16 vm"
    and "\<not> (bip16 vm \<and> scriptIdx vm = 1 \<and> savedFirstStack vm = [])"
  shows "safe (finish_script env vm) (\<lambda>(done, vm'). between W vm' \<and> (\<not> done \<longrightarrow> vm_inv W vm'))"
proof (cases "condStack vm = []")
  case cond: True
  let ?l = "leave_script vm"
  have l: "static W ?l" "between 1000 ?l" "sig_ready ?l = sig_ready vm" "stk (astack ?l) = []" "numOps ?l = 0"
    using assms(2,3)
    by (simp_all add: leave_script_def static_def between_def bounded_def sig_ready_def isWitnessVersionActive_def)
  have "safe (next_script env ?l) (landed W ?l)"
    using assms l by (intro safe_next_script) (auto simp: leave_script_def tap_late_def)
  from safe_upon [OF this next_script_frame]
  have "safe (next_script env ?l) (\<lambda>vm1. safe (let vm2 = (if scriptIdx vm1 < length (scripts vm1) \<and> scripts vm1 ! scriptIdx vm1 = []
          then advance vm1 else vm1); vm3 = vm2\<lparr>lastCodeSep := 0\<rparr>
        in if scriptIdx vm3 \<ge> length (scripts vm3) then Ok (True, vm3)
           else Ok (False, vm3\<lparr>tokenizer := MakeScriptTokenizer (eng_version vm3) (scripts vm3 ! scriptIdx vm3)\<rparr>))
      (\<lambda>(done, vm'). between W vm' \<and> (\<not> done \<longrightarrow> vm_inv W vm')))"
  proof (rule safe_mono)
    fix vm1 :: Engine
    let ?i = "scriptIdx vm1"
    assume "landed W ?l vm1 \<and> scriptIdx vm1 = scriptIdx ?l + 1 \<and> tx vm1 = tx ?l \<and> txIdx vm1 = txIdx ?l \<and>
     bip16 vm1 = bip16 ?l \<and> eng_version vm1 = eng_version ?l \<and> astack vm1 = astack ?l \<and> numOps vm1 = numOps ?l \<and>
     condStack vm1 = condStack ?l \<and> flags vm1 = flags ?l \<and> hashCache vm1 = hashCache ?l \<and>
     prevOutFetcher vm1 = prevOutFetcher ?l \<and> (\<exists>xs. scripts vm1 = scripts ?l @ xs \<and>
     length xs \<le> (if scriptIdx ?l = 1 \<or> scriptIdx ?l = 2 then 1 else 0))"
    then obtain xs where vm1: "landed W ?l vm1" "?i = scriptIdx vm + 1" "tx vm1 = tx vm" "txIdx vm1 = txIdx vm"
        "bip16 vm1 = bip16 vm" "stk (astack vm1) = []" "numOps vm1 = 0" "condStack vm1 = []" "scripts vm1 = scripts vm @ xs"
        "?i = 1 \<longrightarrow> xs = []" "flags vm1 = flags vm" "hashCache vm1 = hashCache vm" "prevOutFetcher vm1 = prevOutFetcher vm"
      using l(4,5) cond by (auto simp: leave_script_def split: if_splits)
    have st: "static W vm1" and two: "?i = 1 \<longrightarrow> length (scripts vm1) = 2"
      using vm1 assms(2,4) by (auto simp: static_def landed_def nth_append)
    have inv: "vm_inv W (x\<lparr>lastCodeSep := 0, tokenizer := MakeScriptTokenizer v (scripts vm1 ! scriptIdx x)\<rparr>)"
      if "x = vm1 \<or> x = advance vm1" "scriptIdx x < length (scripts vm1)" for x v
      using vm1 st two that by (intro vm_inv_skip) (simp_all add: landed_def)
    have bt: "between W (x\<lparr>lastCodeSep := 0\<rparr>)" "between W (x\<lparr>lastCodeSep := 0, tokenizer := t\<rparr>)" if "x = vm1 \<or> x = advance vm1" for x t
      using that vm1(1) by (auto simp: landed_def between_def advance_def)
    show "safe (let vm2 = (if ?i < length (scripts vm1) \<and> scripts vm1 ! ?i = [] then advance vm1 else vm1); vm3 = vm2\<lparr>lastCodeSep := 0\<rparr>
        in if scriptIdx vm3 \<ge> length (scripts vm3) then Ok (True, vm3)
           else Ok (False, vm3\<lparr>tokenizer := MakeScriptTokenizer (eng_version vm3) (scripts vm3 ! scriptIdx vm3)\<rparr>))
      (\<lambda>(done, vm'). between W vm' \<and> (\<not> done \<longrightarrow> vm_inv W vm'))"
      using inv [of vm1] inv [of "advance vm1"] bt [of vm1] bt [of "advance vm1"] by (simp add: Let_def)
  qed
  then show ?thesis
    using cond by (simp add: finish_script_def)
qed (simp add: finish_script_def)

lemma reading_program_token:
  assumes "reading_program vm" and "engine_ok vm" and "tk_Next (tokenizer vm) = (True, t)"
  shows "push_op (tk_op t) \<and> (\<not> tk_Done t \<longrightarrow> tk_offset t \<le> 1)"
proof -
  obtain v p where "extractWitnessProgramInfo (scripts vm ! 1) = Some (v, p)"
    using assms(1) by (auto simp: reading_program_def isWitnessProgramScript_def)
  then obtain op where op: "IsSmallInt op" "tk_script (tokenizer vm) = of_nat op # of_nat (length p) # p"
      "2 \<le> length p" "length p \<le> 40"
    using assms(1,2) by (elim witness_program_form) (auto simp: engine_ok_def reading_program_def)
  have small: "unat (of_nat op :: byte) = op" "op_length op = 1" "op = 0 \<or> 81 \<le> op \<and> op \<le> 96"
    using op(1) by (auto simp: IsSmallInt_def op_length_def unat_of_nat)
  have push: "unat (of_nat (length p) :: byte) = length p" "op_length (length p) = int (length p) + 1"
    using op(3,4) by (simp_all add: unat_of_nat op_length_def)
  have "tk_offset (tokenizer vm) = 0 \<or> tk_offset (tokenizer vm) = 1"
    using assms(1) by (auto simp: reading_program_def)
  then show ?thesis
  proof
    assume "tk_offset (tokenizer vm) = 0"
    then show ?thesis
      using assms(3) op small by (auto simp: tk_Next_def Let_def push_op_def split: if_splits)
  next
    assume "tk_offset (tokenizer vm) = 1"
    then show ?thesis
      using assms(3) op push by (auto simp: tk_Next_def Let_def push_op_def malformed_def tk_Done_def split: if_splits)
  qed
qed

lemma p2sh_needs_item:
  assumes "scriptIdx vm = 1" and "isScriptHashScript (scripts vm ! 1)" and "engine_ok vm" and "stk (dstack vm) = []"
    and "tk_offset (tokenizer vm) = 0" and "condStack vm = []"
  shows "safe (Step env vm) Q"
proof -
  have script: "length (tk_script (tokenizer vm)) = 23" "tk_script (tokenizer vm) ! 0 = 0xa9"
    using assms(1-3) by (auto simp: isScriptHashScript_def extractScriptHash_def engine_ok_def split: if_splits)
  obtain ok t where t: "tk_Next (tokenizer vm) = (ok, t)"
    by (cases "tk_Next (tokenizer vm)")
  have op: "tk_op t = 169" if "ok"
    using t that script assms(5) by (auto simp: tk_Next_def Let_def op_length_def split: if_splits)
  have hash: "map_of opcode_table 169 = Some opcodeHash160"
    by (simp add: opcode_table_def)
  have "opfunc env 169 data v = Err ''ErrInvalidStackOperation''" if "stk (dstack v) = []" for data v
    using that by (simp add: opfunc_def hash opcodeHash160_def hash_top_def on_dstack_def PopByteArray_def nipN_def)
  then have "executeOpcode env 169 d (vm\<lparr>tokenizer := t\<rparr>) \<in> range Err" for d
    using assms(4,6)
    by (auto simp: executeOpcode_def Let_def isOpcodeDisabled_def isOpcodeAlwaysIllegal_def isBranchExecuting_def)
  then obtain e where "executeOpcode env 169 (tk_data t) (vm\<lparr>tokenizer := t\<rparr>) = Err e"
    by blast
  then show ?thesis
    using t op by (cases ok) (simp_all add: Step_def checkValidPC_def split: option.splits)
qed

lemma static_frame: "frame_of vm' = frame_of vm \<Longrightarrow> static W vm' = static W vm"
  using frame_ofD [of vm' vm] by (simp add: static_def)

lemma engine_ok_frame: "frame_of vm' = frame_of vm \<Longrightarrow> engine_ok vm' = engine_ok vm"
  using frame_ofD [of vm' vm] by (simp add: engine_ok_def)

lemma sig_ready_frame: "frame_of vm' = frame_of vm \<Longrightarrow> sig_ready vm' = sig_ready vm"
  using frame_ofD [of vm' vm] by (simp add: sig_ready_def isWitnessVersionActive_def)

lemma opcodeIdx_simps [simp]:
  "static W (vm\<lparr>opcodeIdx := n\<rparr>) = static W vm" "engine_ok (vm\<lparr>opcodeIdx := n\<rparr>) = engine_ok vm"
  "sig_ready (vm\<lparr>opcodeIdx := n\<rparr>) = sig_ready vm" "bounded k (vm\<lparr>opcodeIdx := n\<rparr>) = bounded k vm"
  "reading_program (vm\<lparr>opcodeIdx := n\<rparr>) = reading_program vm" "between k (vm\<lparr>opcodeIdx := n\<rparr>) = between k vm"
  "tap_late (vm\<lparr>opcodeIdx := n\<rparr>) = tap_late vm"
  by (simp_all add: tap_late_def static_def engine_ok_def sig_ready_def bounded_def reading_program_def isWitnessVersionActive_def between_def)

text \<open>One step, once the opcode has been executed and the stack size has been checked.\<close>

lemma safe_step_end:
  assumes "env_ok env" and "vm_inv W vm" and nx: "tk_Next (tokenizer vm) = (True, t)" and "engine_ok (vm\<lparr>tokenizer := t\<rparr>)"
    and frame: "frame_of vm1 = frame_of (vm\<lparr>tokenizer := t\<rparr>)" and "bounded 1000 vm1"
    and start: "\<not> (bip16 vm \<and> scriptIdx vm = 1 \<and> savedFirstStack vm = [])"
  shows "safe (if tk_Done (tokenizer vm1) then finish_script env (vm1\<lparr>opcodeIdx := n\<rparr>) else Ok (False, vm1\<lparr>opcodeIdx := n\<rparr>))
    (\<lambda>(done, vm'). between W vm' \<and> (\<not> done \<longrightarrow> vm_inv W vm'))"
proof -
  note same = frame_ofD [OF frame, simplified]
  have st: "static W vm1" and ok: "engine_ok vm1" and ready: "sig_ready vm1 = sig_ready vm"
    using assms(2,4) static_frame [OF frame, of W] engine_ok_frame [OF frame] sig_ready_frame [OF frame]
    by (simp_all add: vm_inv_def static_def sig_ready_def isWitnessVersionActive_def)
  have W: "1000 \<le> W"
    using st by (simp add: static_def)
  have late: "tap_late vm1"
    using assms(2) same by (auto simp: vm_inv_def tap_late_def)
  have idx: "scriptIdx vm \<le> 1 \<longrightarrow> length (scripts vm) = 2" and sig: "sig_ready vm \<or> reading_program vm"
    using assms(2) by (auto simp: vm_inv_def)
  show ?thesis
  proof (cases "tk_Done (tokenizer vm1)")
    case True
    have "safe (finish_script env (vm1\<lparr>opcodeIdx := n\<rparr>)) (\<lambda>(done, vm'). between W vm' \<and> (\<not> done \<longrightarrow> vm_inv W vm'))"
      using assms(6) st ready same idx sig start late
      by (intro safe_finish_script) (auto simp: reading_program_def)
    with True show ?thesis
      by simp
  next
    case False
    have "sig_ready vm1 \<or> reading_program vm1"
      using sig ready reading_program_token [OF _ _ nx] False same assms(2) by (auto simp: reading_program_def vm_inv_def)
    moreover have "bounded W vm1" and "between W vm1"
      using assms(6) W by (auto simp: bounded_def between_def)
    ultimately show ?thesis
      using False st ok same idx start late by (auto simp: vm_inv_def)
  qed
qed

lemma safe_Step:
  assumes "env_ok env" and "vm_inv W vm"
  shows "safe (Step env vm) (\<lambda>(done, vm'). between W vm' \<and> (\<not> done \<longrightarrow> vm_inv W vm'))"
proof (cases "bip16 vm \<and> scriptIdx vm = 1 \<and> savedFirstStack vm = []")
  case True
  then show ?thesis
    using assms(2) by (intro p2sh_needs_item) (auto simp: vm_inv_def static_def)
next
  case start: False
  let ?P = "\<lambda>(done, vm'). between W vm' \<and> (\<not> done \<longrightarrow> vm_inv W vm')"
  obtain ok t where t: "tk_Next (tokenizer vm) = (ok, t)"
    by (cases "tk_Next (tokenizer vm)")
  have inv: "static W vm" "engine_ok vm" "bounded W vm" "sig_ready vm \<or> reading_program vm"
    using assms(2) by (auto simp: vm_inv_def)
  show ?thesis
  proof (cases ok)
    case True
    then have nx: "tk_Next (tokenizer vm) = (True, t)"
      using t by simp
    let ?vm = "vm\<lparr>tokenizer := t\<rparr>"
    have "tok_ok (tokenizer vm)"
      using inv(1,2) by (simp add: tok_ok_def engine_ok_def static_def list_all_length)
    note tk = tk_Next_progress [OF this nx]
    have eo: "engine_ok ?vm"
      using inv(2) tk by (simp add: engine_ok_def tok_ok_def)
    have W: "W + 20 \<le> room" and "sig_ready ?vm \<or> push_op (tk_op t)" and "bounded W ?vm"
      using inv reading_program_token [OF _ inv(2) nx]
      by (auto simp: static_def sig_ready_def isWitnessVersionActive_def bounded_def)
    then have "safe (executeOpcode env (tk_op t) (tk_data t) ?vm) (bounded (W + 3))"
      using assms(1) eo by (intro safe_executeOpcode)
    from safe_upon [OF this executeOpcode_frame]
    have "safe (executeOpcode env (tk_op t) (tk_data t) ?vm) (\<lambda>vm1. safe
        (if wrap32 (Depth (dstack vm1) + Depth (astack vm1)) > 1000 then Err ''ErrStackOverflow''
         else let vm = vm1\<lparr>opcodeIdx := opcodeIdx vm1 + 1\<rparr>
              in if tk_Done (tokenizer vm) then finish_script env vm else Ok (False, vm)) ?P)"
    proof (rule safe_mono)
      fix vm1 :: Engine
      assume vm1: "bounded (W + 3) vm1 \<and> frame_of vm1 = frame_of ?vm"
      have "bounded 1000 vm1" if "\<not> wrap32 (Depth (dstack vm1) + Depth (astack vm1)) > 1000"
      proof -
        let ?d = "length (stk (dstack vm1))" and ?a = "length (stk (astack vm1))"
        have "?d + ?a \<le> room"
          using vm1 W by (simp add: bounded_def)
        then have "Depth (dstack vm1) = int ?d" "Depth (astack vm1) = int ?a" "wrap32 (int ?d + int ?a) = int ?d + int ?a"
          by (simp_all add: Depth_def)
        with that vm1 show ?thesis
          by (simp add: bounded_def)
      qed
      then have "safe (if tk_Done (tokenizer vm1) then finish_script env (vm1\<lparr>opcodeIdx := opcodeIdx vm1 + 1\<rparr>)
          else Ok (False, vm1\<lparr>opcodeIdx := opcodeIdx vm1 + 1\<rparr>)) ?P"
        if "\<not> wrap32 (Depth (dstack vm1) + Depth (astack vm1)) > 1000"
        using that vm1 by (intro safe_step_end [OF assms nx eo _ _ start]) simp_all
      then show "safe (if wrap32 (Depth (dstack vm1) + Depth (astack vm1)) > 1000 then Err ''ErrStackOverflow''
         else let vm = vm1\<lparr>opcodeIdx := opcodeIdx vm1 + 1\<rparr>
              in if tk_Done (tokenizer vm) then finish_script env vm else Ok (False, vm)) ?P"
        by (auto simp: Let_def)
    qed
    then show ?thesis
      using nx inv(2) by (simp add: Step_def checkValidPC_def engine_ok_def)
  qed (use t in \<open>simp add: Step_def checkValidPC_def split: option.splits\<close>)
qed

section \<open>Runs from a new engine\<close>

inductive reaches :: "script_env \<Rightarrow> Engine \<Rightarrow> Engine \<Rightarrow> bool" for env :: script_env and vm0 :: Engine where
  start: "reaches env vm0 vm0"
| step: "reaches env vm0 vm \<Longrightarrow> Step env vm = Ok (False, vm') \<Longrightarrow> reaches env vm0 vm'"

text \<open>The bound on the stacks: 1000 items, or as many as the witness of the input has.\<close>

definition stack_limit :: "MsgTx \<Rightarrow> int \<Rightarrow> nat" where
  "stack_limit t idx = max 1000 (length (Witness (TxIns t ! nat idx)))"

text \<open>Witnesses that fit in a transaction: fewer than two million items, of less than two gigabytes.\<close>

definition witness_fits :: "MsgTx \<Rightarrow> int \<Rightarrow> bool" where
  "witness_fits t idx \<longleftrightarrow> length (Witness (TxIns t ! nat idx)) + 30 \<le> room \<and>
     list_all (\<lambda>e. length e < 2 ^ 31) (Witness (TxIns t ! nat idx))"

text \<open>
  What the caller of \<^verbatim>\<open>NewEngine\<close> passes in: a source of previous outputs that knows all outputs
  the transaction spends, and the midstate if the taproot rules are on.
\<close>

definition sources_ok :: "MsgTx \<Rightarrow> u32 \<Rightarrow> TxSigHashes option \<Rightarrow> PrevOutputFetcher \<Rightarrow> bool" where
  "sources_ok t fl ca fe \<longleftrightarrow> list_all (\<lambda>ti. fe (PreviousOutPoint ti) \<noteq> None) (TxIns t) \<and>
     (fl AND ScriptVerifyTaproot = ScriptVerifyTaproot \<longrightarrow> ca \<noteq> None)"

definition nested_future_program :: "Engine \<Rightarrow> bool" where
  "nested_future_program vm \<longleftrightarrow> bip16 vm \<and> witnessProgram vm \<noteq> None \<and> witnessVersion vm \<noteq> 0"

lemma fresh_engine_simps [simp]:
  "flags (fresh_engine pk t i fl ca am fe p2sh sig) = fl" "tx (fresh_engine pk t i fl ca am fe p2sh sig) = t"
  "txIdx (fresh_engine pk t i fl ca am fe p2sh sig) = i" "bip16 (fresh_engine pk t i fl ca am fe p2sh sig) = p2sh"
  "scripts (fresh_engine pk t i fl ca am fe p2sh sig) = [sig, pk]"
  "scriptIdx (fresh_engine pk t i fl ca am fe p2sh sig) = (if sig = [] then 1 else 0)"
  "savedFirstStack (fresh_engine pk t i fl ca am fe p2sh sig) = []" "stk (dstack (fresh_engine pk t i fl ca am fe p2sh sig)) = []"
  "stk (astack (fresh_engine pk t i fl ca am fe p2sh sig)) = []" "condStack (fresh_engine pk t i fl ca am fe p2sh sig) = []"
  "numOps (fresh_engine pk t i fl ca am fe p2sh sig) = 0" "lastCodeSep (fresh_engine pk t i fl ca am fe p2sh sig) = 0"
  "witnessProgram (fresh_engine pk t i fl ca am fe p2sh sig) = None" "taprootCtx (fresh_engine pk t i fl ca am fe p2sh sig) = None"
  "hashCache (fresh_engine pk t i fl ca am fe p2sh sig) = ca" "prevOutFetcher (fresh_engine pk t i fl ca am fe p2sh sig) = fe"
  "tokenizer (fresh_engine pk t i fl ca am fe p2sh sig) = MakeScriptTokenizer 0 (if sig = [] then pk else sig)"
  by (simp_all add: fresh_engine_def Let_def)

lemma setup_witness_cases:
  assumes "setup_witness i (fresh_engine pk t n fl ca am fe p2sh sig) = Ok vm" and "sig = SignatureScript i"
  obtains v p where "vm = (fresh_engine pk t n fl ca am fe p2sh sig)\<lparr>witnessVersion := v, witnessProgram := p\<rparr>"
    and "p = None \<or> p2sh \<or> sig = [] \<and> isWitnessProgramScript pk"
proof -
  let ?f = "fresh_engine pk t n fl ca am fe p2sh sig"
  have same: "?f\<lparr>witnessVersion := witnessVersion ?f, witnessProgram := None\<rparr> = ?f"
    by (simp add: fresh_engine_def Let_def)
  have "vm = ?f \<or> (\<exists>w. set_program w ?f = Ok vm \<and> (p2sh \<or> sig = [] \<and> isWitnessProgramScript pk))"
    using assms by (auto simp: setup_witness_def Let_def split: if_splits)
  then show thesis
  proof
    assume "vm = ?f"
    then show thesis
      using that [of None "witnessVersion ?f"] unfolding same by blast
  next
    assume "\<exists>w. set_program w ?f = Ok vm \<and> (p2sh \<or> sig = [] \<and> isWitnessProgramScript pk)"
    then show thesis
      using that by (auto simp: set_program_def split: option.splits)
  qed
qed

lemma NewEngine_inv:
  assumes "NewEngine pk t idx fl ca am fe = Ok vm" and "witness_fits t idx" and "\<not> nested_future_program vm"
    and "sources_ok t fl ca fe"
  shows "vm_inv (stack_limit t idx) vm"
proof -
  let ?i = "TxIns t ! nat idx"
  define p2sh where "p2sh = (fl AND 1 = 1 \<and> isScriptHashScript pk)"
  let ?f = "fresh_engine pk t (nat idx) fl ca am fe p2sh (SignatureScript ?i)"
  have ix: "nat idx < length (TxIns t)" and cs: "check_scripts [SignatureScript ?i, pk] = Ok ()"
      and st: "setup_witness ?i ?f = Ok vm"
    using assms(1) by (auto simp: NewEngine_def Let_def bind_Ok_iff p2sh_def split: if_splits simp del: check_scripts.simps)
  have len: "length (SignatureScript ?i) \<le> 10000" "length pk \<le> 10000"
    using cs by (auto simp: bind_Ok_iff split: if_splits)
  obtain v p where vm: "vm = ?f\<lparr>witnessVersion := v, witnessProgram := p\<rparr>"
      "p = None \<or> p2sh \<or> SignatureScript ?i = [] \<and> isWitnessProgramScript pk"
    using st by (rule setup_witness_cases) simp
  have "static (stack_limit t idx) vm"
    using ix len assms(2,4)
    by (auto simp: vm(1) static_def stack_limit_def witness_fits_def p2sh_def sources_ok_def spends_known_def hasFlag_def)
  moreover have "engine_ok vm" and "bounded (stack_limit t idx) vm"
    using ix assms(4) by (auto simp: vm(1) engine_ok_def bounded_def MakeScriptTokenizer_def sources_ok_def spends_known_def)
  moreover have "sig_ready vm \<or> reading_program vm"
    using vm(2) assms(3)
    by (auto simp: vm(1) nested_future_program_def sig_ready_def reading_program_def isWitnessVersionActive_def MakeScriptTokenizer_def)
  ultimately show ?thesis
    by (simp add: vm_inv_def) (auto simp: vm(1) MakeScriptTokenizer_def tap_late_def)
qed

lemma reaches_inv:
  assumes "env_ok env" and "vm_inv W vm0" and "reaches env vm0 vm"
  shows "vm_inv W vm"
  using assms(3)
proof (induction rule: reaches.induct)
  case (step vm vm')
  then show ?case
    using safe_Ok [OF safe_Step [OF assms(1) step.IH] step.hyps(2)] by simp
qed (rule assms(2))

lemma execute_loop_safe:
  assumes "env_ok env" and "vm_inv W vm"
  shows "execute_loop fuel env vm \<noteq> Some (Panic p)"
  using assms(2)
proof (induction fuel arbitrary: vm)
  case (Suc fuel)
  have W: "W \<le> room"
    using Suc.prems by (simp add: vm_inv_def static_def)
  note step = safe_Step [OF assms(1) Suc.prems]
  show ?case
  proof (cases "Step env vm")
    case (Ok x)
    obtain b vm' where x: "x = (b, vm')"
      by (cases x)
    then have "between W vm'" "\<not> b \<Longrightarrow> vm_inv W vm'"
      using step Ok by auto
    then show ?thesis
      using Ok x Suc.IH [of vm'] safe_no_panic [OF safe_CheckErrorCondition [of W vm' True]] W by (cases b) auto
  qed (use step in auto)
qed simp

text \<open>
  C4: Stack limits.  In every state a run reaches from a new engine, both stacks together hold at
  most 1000 items (or as many as the input's witness brings, until the first opcode after it), every
  item has at most 520 bytes, and at most 201 operations have been counted.  Excluded are engines
  with a nested witness program of a future version.
\<close>

theorem run_stack_limits:
  assumes "NewEngine pk t idx fl ca am fe = Ok vm0" and "witness_fits t idx" and "\<not> nested_future_program vm0"
    and "sources_ok t fl ca fe" and "env_ok env" and "reaches env vm0 vm"
  shows "length (stk (dstack vm)) + length (stk (astack vm)) \<le> stack_limit t idx \<and>
    list_all (\<lambda>e. length e \<le> 520) (stk (dstack vm) @ stk (astack vm)) \<and> numOps vm \<le> 201"
  using reaches_inv [OF assms(5) NewEngine_inv [OF assms(1-4)] assms(6)]
  by (auto simp: vm_inv_def bounded_def list_all_iff)



lemma sample_env_ok: "env_ok sample_script_env"
  by (simp add: env_ok_def sample_script_env_def)

definition sample_engine :: Engine where
  "sample_engine = fresh_engine [0x51] (sample_tx [] []) 0 1 None 5 sample_fetch False []"

lemma sample_new: "NewEngine [0x51] (sample_tx [] []) 0 1 None 5 sample_fetch = Ok sample_engine"
  by (simp add: NewEngine_def Let_def sample_tx_def sample_input_def isScriptHashScript_def extractScriptHash_def
      IsPushOnlyScript_def checkScriptParses_def tk_run.simps MakeScriptTokenizer_def tk_Next_def tk_Done_def
      op_length_def setup_witness_def hasFlag_def sample_engine_def)

lemma sample_fits: "witness_fits (sample_tx [] []) 0" "\<not> nested_future_program sample_engine"
    "sources_ok (sample_tx [] []) 1 None sample_fetch"
  by (simp_all add: witness_fits_def sample_tx_def sample_input_def nested_future_program_def sample_engine_def
      sources_ok_def sample_fetch_def)

theorem run_stack_limits_witness:
  "NewEngine [0x51] (sample_tx [] []) 0 1 None 5 sample_fetch = Ok sample_engine \<and> numOps sample_engine \<le> 201 \<and>
   length (stk (dstack sample_engine)) + length (stk (astack sample_engine)) \<le> 1000"
  using run_stack_limits [OF sample_new sample_fits sample_env_ok reaches.start] sample_new
  by (simp add: stack_limit_def sample_tx_def sample_input_def)


end
