(* ===== verification/Script_Der.thy ===== *)
theory Script_Der
  imports Script_Signature
begin

text \<open>
  The signature encoding check of the engine (\<^verbatim>\<open>checkSignatureEncoding\<close> in
  \<^verbatim>\<open>coin/OrcaNet/txscript/engine.go\<close>) against the DER encoding of two numbers.
\<close>

section \<open>DER integers\<close>

text \<open>The shortest big-endian bytes of a number, and with the sign byte that DER adds.\<close>

fun nat_be :: "nat \<Rightarrow> bytes" where
  "nat_be n = (if n < 256 then [of_nat n] else nat_be (n div 256) @ [of_nat n])"

declare nat_be.simps [simp del]

definition der_nat :: "nat \<Rightarrow> bytes" where
  "der_nat n = (let b = nat_be n in if 0x80 \<le> hd b then 0 # b else b)"

definition der_int :: "bytes \<Rightarrow> bool" where
  "der_int b \<longleftrightarrow> b \<noteq> [] \<and> hd b < 0x80 \<and> (1 < length b \<and> hd b = 0 \<longrightarrow> 0x80 \<le> b ! 1)"

lemma nat_be_nonempty [simp]: "nat_be n \<noteq> []"
  by (subst nat_be.simps) simp

lemma be_value_snoc: "be_value (xs @ [x]) = be_value xs * 256 + unat x"
  by (simp add: be_value_def)

lemma be_value_nat_be [simp]: "be_value (nat_be n) = n"
proof (induction n rule: nat_be.induct)
  case (1 n)
  show ?case
  proof (cases "n < 256")
    case True
    then show ?thesis
      by (subst nat_be.simps) (simp add: be_value_Cons unat_of_nat)
  next
    case False
    have "unat (of_nat n :: byte) = n mod 256"
      by (simp add: unat_of_nat)
    with False 1 show ?thesis
      by (subst nat_be.simps) (simp add: be_value_snoc)
  qed
qed

lemma hd_nat_be: "0 < n \<Longrightarrow> hd (nat_be n) \<noteq> 0"
proof (induction n rule: nat_be.induct)
  case (1 n)
  show ?case
  proof (cases "n < 256")
    case True
    then have "unat (of_nat n :: byte) = n"
      by (simp add: unat_of_nat)
    with True 1 show ?thesis
      by (subst nat_be.simps) (auto simp: unat_eq_0 [symmetric])
  next
    case False
    with 1 show ?thesis
      by (subst nat_be.simps) (simp add: hd_append div_greater_zero_iff)
  qed
qed

lemma nat_be_be_value:
  assumes "b \<noteq> []" and "hd b \<noteq> 0 \<or> length b = 1"
  shows "nat_be (be_value b) = b"
  using assms
proof (induction b rule: rev_induct)
  case (snoc x xs)
  have x: "unat x < 256"
    by (rule unat_byte_less)
  show ?case
  proof (cases "xs = []")
    case True
    then show ?thesis
      using x by (subst nat_be.simps) (simp add: be_value_Cons)
  next
    case False
    have h: "hd xs \<noteq> 0"
      using snoc.prems False by auto
    then have "nat_be (be_value xs) = xs"
      using snoc.IH False by simp
    moreover have "be_value xs \<noteq> 0"
      using h False by (cases xs) (auto simp: be_value_Cons unat_eq_0)
    moreover have "(of_nat (be_value xs * 256 + unat x) :: byte) = x"
      using of_nat_mod_byte [of "be_value xs * 256 + unat x"] x by simp
    ultimately show ?thesis
      using x by (subst nat_be.simps) (simp add: be_value_snoc)
  qed
qed simp

lemma der_int_iff: "der_int b \<longleftrightarrow> b = der_nat (be_value b)"
proof
  assume b: "der_int b"
  show "b = der_nat (be_value b)"
  proof (cases "1 < length b \<and> hd b = 0")
    case True
    then obtain c cs where bc: "b = 0 # c # cs"
      by (cases b rule: list.exhaust; cases "tl b") auto
    then have "0x80 \<le> c"
      using b by (simp add: der_int_def)
    moreover from this have "nat_be (be_value (c # cs)) = c # cs"
      by (intro nat_be_be_value) auto
    ultimately show ?thesis
      using bc by (simp add: der_nat_def be_value_Cons [of 0])
  next
    case False
    with b have "b \<noteq> []" and "hd b \<noteq> 0 \<or> length b = 1"
      by (cases b; auto simp: der_int_def)+
    then have "nat_be (be_value b) = b"
      by (rule nat_be_be_value)
    with b show ?thesis
      by (simp add: der_nat_def der_int_def not_le [symmetric])
  qed
next
  assume "b = der_nat (be_value b)"
  moreover have "der_int (der_nat n)" for n
  proof (cases "0x80 \<le> hd (nat_be n)")
    case True
    then show ?thesis
      by (simp add: der_nat_def der_int_def) (metis hd_conv_nth nat_be_nonempty)
  next
    case False
    have "length (nat_be 0) = 1"
      by (subst nat_be.simps) simp
    with False show ?thesis
      using hd_nat_be [of n] by (cases "n = 0") (auto simp: der_nat_def der_int_def not_le Let_def)
  qed
  ultimately show "der_int b"
    by metis
qed

section \<open>Signatures\<close>

text \<open>The layout of a signature with the integers \<open>r\<close> and \<open>s\<close>.\<close>

definition der_layout :: "bytes \<Rightarrow> bytes \<Rightarrow> bytes" where
  "der_layout r s = [0x30, of_nat (4 + length r + length s), 2, of_nat (length r)] @ r @ [2, of_nat (length s)] @ s"

lemma drop_layout: "drop (6 + length r) (der_layout r s) = s"
  by (simp add: der_layout_def eval_nat_numeral)

lemma sign_bit: "(b :: byte) AND 0x80 = 0 \<longleftrightarrow> b < 0x80"
  by (simp add: byte_and_80 word_less_nat_alt)

lemma check_integer_iff:
  assumes "t < length sig" and "off + len \<le> length sig"
  shows "check_integer errs sig t off len = Ok () \<longleftrightarrow> sig ! t = 2 \<and> der_int (take len (drop off sig))"
proof (cases "len = 0")
  case True
  then show ?thesis
    using assms(1) by (simp add: check_integer_def der_int_def)
next
  case False
  then have "hd (take len (drop off sig)) = sig ! off" and "off < length sig"
    using assms(2) by (simp_all add: hd_drop_conv_nth)
  moreover have "take len (drop off sig) ! 1 = sig ! (off + 1)" and "off + 1 < length sig" if "1 < len"
    using that assms(2) by simp_all
  ultimately show ?thesis
    using assms False by (auto simp: check_integer_def der_int_def sign_bit not_less)
qed

lemma split_pair: "n + 2 \<le> length xs \<Longrightarrow> xs = take n xs @ [xs ! n, xs ! (n + 1)] @ drop (n + 2) xs"
  by (simp add: Cons_nth_drop_Suc)


definition der_engine :: Engine where
  "der_engine = \<lparr>flags = ScriptVerifyDERSignatures, tx = \<lparr>Version = 1, TxIns = [], TxOuts = [], LockTime = 0\<rparr>, txIdx = 0,
     eng_version = 0, bip16 = False, scripts = [], scriptIdx = 0, opcodeIdx = 0, lastCodeSep = 0,
     tokenizer = MakeScriptTokenizer 0 [], savedFirstStack = [], dstack = \<lparr>stk = [], verifyMinimalData = False\<rparr>,
     astack = \<lparr>stk = [], verifyMinimalData = False\<rparr>, condStack = [], numOps = 0, witnessVersion = 0, witnessProgram = None,
     inputAmount = 0, taprootCtx = None, hashCache = None, prevOutFetcher = \<lambda>_. None\<rparr>"


end
