(* ===== verification/Taproot_Tree.thy ===== *)
theory Taproot_Tree
  imports Script_Signature
begin

text \<open>
  Assembling a tree of tapscript leaves with an inclusion proof for each leaf
  (\<^verbatim>\<open>AssembleTaprootScriptTree\<close> in \<^verbatim>\<open>coin/OrcaNet/txscript/taproot.go\<close>), and that every
  proof verifies.  All slice indices of the code come from the loop counters or from the leaf index,
  so they are in range.
\<close>

section \<open>The code\<close>

datatype TapNode = TapLeaf byte bytes | TapBranch TapNode TapNode

primrec node_TapHash :: "script_env \<Rightarrow> TapNode \<Rightarrow> bytes" where
  "node_TapHash env (TapLeaf version script) = TapHash env version script"
| "node_TapHash env (TapBranch l r) = tapBranchHash env (node_TapHash env l) (node_TapHash env r)"

primrec leafDescendants :: "TapNode \<Rightarrow> TapNode list" where
  "leafDescendants (TapLeaf v s) = [TapLeaf v s]"
| "leafDescendants (TapBranch l r) = leafDescendants l @ leafDescendants r"

record TapscriptProof =
  proof_leaf :: TapNode
  proof_root :: "TapNode option"
  proof_bytes :: bytes

record IndexedTapScriptTree =
  RootNode :: "TapNode option"
  LeafMerkleProofs :: "TapscriptProof list"
  LeafProofIndex :: "bytes \<rightharpoonup> nat"

definition empty_proof :: TapscriptProof where
  "empty_proof = \<lparr>proof_leaf = TapLeaf 0 [], proof_root = None, proof_bytes = []\<rparr>"

text \<open>Looking up a Go map gives zero for a missing key.\<close>

definition leaf_index :: "(bytes \<rightharpoonup> nat) \<Rightarrow> bytes \<Rightarrow> nat" where
  "leaf_index idx h = (case idx h of Some i \<Rightarrow> i | None \<Rightarrow> 0)"

definition extend :: "nat \<Rightarrow> bytes \<Rightarrow> TapscriptProof list \<Rightarrow> TapscriptProof list" where
  "extend i h ps = ps[i := (ps ! i)\<lparr>proof_bytes := proof_bytes (ps ! i) @ h\<rparr>]"

definition set_leaf :: "nat \<Rightarrow> TapNode \<Rightarrow> TapscriptProof list \<Rightarrow> TapscriptProof list" where
  "set_leaf i leaf ps = ps[i := (ps ! i)\<lparr>proof_leaf := leaf\<rparr>]"

definition merge_last :: "script_env \<Rightarrow> (bytes \<rightharpoonup> nat) \<Rightarrow> nat \<Rightarrow> TapNode \<Rightarrow> TapNode \<Rightarrow> TapscriptProof list \<Rightarrow> TapscriptProof list" where
  "merge_last env idx i leaf branchToMerge ps =
     (let ps1 = extend i (node_TapHash env branchToMerge) (set_leaf i leaf ps);
          lastLeafHash = node_TapHash env leaf
      in case branchToMerge of
           TapBranch l r \<Rightarrow>
             extend (leaf_index idx (node_TapHash env r)) lastLeafHash
               (extend (leaf_index idx (node_TapHash env l)) lastLeafHash ps1)
         | TapLeaf _ _ \<Rightarrow> ps1)"

fun pair_loop ::
  "script_env \<Rightarrow> (bytes \<rightharpoonup> nat) \<Rightarrow> nat \<Rightarrow> TapNode list \<Rightarrow> TapNode list \<Rightarrow> TapscriptProof list \<Rightarrow> TapNode list \<times> TapscriptProof list" where
  "pair_loop env idx i [] branches ps = (branches, ps)"
| "pair_loop env idx i [leaf] branches ps =
     (butlast branches @ [TapBranch (last branches) leaf], merge_last env idx i leaf (last branches) ps)"
| "pair_loop env idx i (l # r # rest) branches ps =
     pair_loop env idx (i + 2) rest (branches @ [TapBranch l r])
       (extend (i + 1) (node_TapHash env l) (set_leaf (i + 1) r (extend i (node_TapHash env r) (set_leaf i l ps))))"

definition extend_all :: "script_env \<Rightarrow> (bytes \<rightharpoonup> nat) \<Rightarrow> bytes \<Rightarrow> TapNode list \<Rightarrow> TapscriptProof list \<Rightarrow> TapscriptProof list" where
  "extend_all env idx h leaves ps = foldl (\<lambda>ps leaf. extend (leaf_index idx (node_TapHash env leaf)) h ps) ps leaves"

function merge_loop ::
  "script_env \<Rightarrow> (bytes \<rightharpoonup> nat) \<Rightarrow> TapNode list \<Rightarrow> TapscriptProof list \<Rightarrow> TapNode option \<times> TapscriptProof list" where
  "merge_loop env idx [] ps = (None, ps)"
| "merge_loop env idx [b] ps = (Some b, ps)"
| "merge_loop env idx (l # r # rest) ps =
     merge_loop env idx (rest @ [TapBranch l r])
       (extend_all env idx (node_TapHash env l) (leafDescendants r)
         (extend_all env idx (node_TapHash env r) (leafDescendants l) ps))"
  by pat_completeness auto
termination
  by (relation "measure (\<lambda>(env, idx, branches, ps). length branches)") auto

definition leaf_map :: "script_env \<Rightarrow> TapNode list \<Rightarrow> bytes \<rightharpoonup> nat" where
  "leaf_map env leaves = foldl (\<lambda>m (i, leaf). m(node_TapHash env leaf \<mapsto> i)) Map.empty (enumerate 0 leaves)"

definition AssembleTaprootScriptTree :: "script_env \<Rightarrow> TapNode list \<Rightarrow> IndexedTapScriptTree" where
  "AssembleTaprootScriptTree env leaves =
     (if length leaves = 1
      then let leaf = leaves ! 0
           in \<lparr>RootNode = Some leaf, LeafMerkleProofs = [\<lparr>proof_leaf = leaf, proof_root = Some leaf, proof_bytes = []\<rparr>],
               LeafProofIndex = [node_TapHash env leaf \<mapsto> 0]\<rparr>
      else let idx = leaf_map env leaves;
               (branches, ps) = pair_loop env idx 0 leaves [] (replicate (length leaves) empty_proof);
               (root, ps') = merge_loop env idx branches ps
           in \<lparr>RootNode = root, LeafMerkleProofs = map (\<lambda>p. p\<lparr>proof_root := root\<rparr>) ps', LeafProofIndex = idx\<rparr>)"

definition ToControlBlock :: "script_env \<Rightarrow> TapscriptProof \<Rightarrow> bytes \<Rightarrow> ControlBlock outcome" where
  "ToControlBlock env t internalKey =
     (case proof_root t of
        None \<Rightarrow> Panic ''nil pointer dereference''
      | Some root \<Rightarrow>
          Ok \<lparr>InternalKey = internalKey,
              OutputKeyYIsOdd = snd (ComputeTaprootOutputKey env internalKey (node_TapHash env root)),
              LeafVersion = (case proof_leaf t of TapLeaf v _ \<Rightarrow> v | TapBranch _ _ \<Rightarrow> 0),
              InclusionProof = proof_bytes t\<rparr>)"

section \<open>Proofs\<close>

lemma bytes_greater_asym: "length xs = length ys \<Longrightarrow> bytes_greater xs ys \<Longrightarrow> \<not> bytes_greater ys xs"
  by (induction xs ys rule: list_induct2) auto

lemma bytes_greater_total: "length xs = length ys \<Longrightarrow> \<not> bytes_greater xs ys \<Longrightarrow> \<not> bytes_greater ys xs \<Longrightarrow> xs = ys"
  by (induction xs ys rule: list_induct2) auto

lemma tapBranchHash_commute: "length l = length r \<Longrightarrow> tapBranchHash env l r = tapBranchHash env r l"
  using bytes_greater_asym [of l r] bytes_greater_total [of l r] by (auto simp: tapBranchHash_def)

definition sha_ok :: "script_env \<Rightarrow> bool" where
  "sha_ok env \<longleftrightarrow> (\<forall>b. length (sha256 env b) = 32)"

lemma length_node_TapHash: "sha_ok env \<Longrightarrow> length (node_TapHash env t) = 32"
  by (cases t) (simp_all add: sha_ok_def TapHash_def tapBranchHash_def TaggedHash_def Let_def)

text \<open>The bytes of a proof lead from a leaf to a node, in fewer steps than the node has leaves.\<close>

definition proves :: "script_env \<Rightarrow> TapNode \<Rightarrow> bytes \<Rightarrow> TapNode \<Rightarrow> bool" where
  "proves env leaf p node \<longleftrightarrow>
     (\<exists>ns. p = concat ns \<and> list_all (\<lambda>n. length n = 32) ns \<and> length ns < length (leafDescendants node) \<and>
        foldl (tapBranchHash env) (node_TapHash env leaf) ns = node_TapHash env node)"

lemma leafDescendants_pos [simp]: "leafDescendants t \<noteq> []"
  by (induction t) simp_all

lemma proves_refl: "proves env leaf [] leaf"
  unfolding proves_def by (rule exI [of _ "[]"]) simp

lemma proves_step:
  assumes "proves env leaf p node" and "length h = 32" and "tapBranchHash env (node_TapHash env node) h = node_TapHash env up"
    and "length (leafDescendants node) < length (leafDescendants up)"
  shows "proves env leaf (p @ h) up"
proof -
  obtain ns where "p = concat ns" "list_all (\<lambda>n. length n = 32) ns" "length ns < length (leafDescendants node)"
      "foldl (tapBranchHash env) (node_TapHash env leaf) ns = node_TapHash env node"
    using assms(1) by (auto simp: proves_def)
  then show ?thesis
    unfolding proves_def using assms(2-) by (intro exI [of _ "ns @ [h]"]) simp
qed

lemma proves_sibling:
  assumes "sha_ok env" and "proves env leaf p node"
  shows "proves env leaf (p @ node_TapHash env other) (TapBranch node other)"
    and "proves env leaf (p @ node_TapHash env other) (TapBranch other node)"
  using assms length_node_TapHash [OF assms(1)]
  by (auto intro!: proves_step [OF assms(2)] simp: tapBranchHash_commute)

lemma root_loop_concat:
  assumes "list_all (\<lambda>n. length n = 32) ns" and "length pre = 32 * off"
  shows "root_loop env (pre @ concat ns) off (length ns) acc = Ok (foldl (tapBranchHash env) acc ns)"
  using assms
proof (induction ns arbitrary: pre off acc)
  case (Cons n ns)
  have "slice (pre @ concat (n # ns)) (32 * off) (32 * off + 32) = Ok n"
    using slice_append [of pre n "concat ns"] Cons.prems by simp
  then show ?case
    using Cons.IH [of "pre @ n" "off + 1"] Cons.prems by simp
qed simp

lemma length_nodes: "list_all (\<lambda>n. length n = 32) ns \<Longrightarrow> length (concat ns) = 32 * length ns"
  by (induction ns) simp_all

lemma proves_RootHash:
  assumes "proves env (TapLeaf v s) (InclusionProof c) root" and "LeafVersion c = v"
  shows "RootHash env c s = Ok (node_TapHash env root)"
proof -
  obtain ns where ns: "InclusionProof c = concat ns" "list_all (\<lambda>n. length n = 32) ns"
      "foldl (tapBranchHash env) (TapHash env v s) ns = node_TapHash env root"
    using assms(1) by (auto simp: proves_def)
  then show ?thesis
    using root_loop_concat [OF ns(2), of "[]" 0] assms(2) by (simp add: RootHash_def length_nodes)
qed

section \<open>The invariant\<close>

text \<open>
  The leaf index finds every leaf.  It is built from leaves with different hashes.
\<close>

definition indexes :: "script_env \<Rightarrow> (bytes \<rightharpoonup> nat) \<Rightarrow> TapNode list \<Rightarrow> bool" where
  "indexes env idx leaves \<longleftrightarrow> (\<forall>i < length leaves. leaf_index idx (node_TapHash env (leaves ! i)) = i)"

lemma length_extends [simp]:
  "length (extend i h ps) = length ps" "length (set_leaf i l ps) = length ps" "length (extend_all env idx h ls ps) = length ps"
proof -
  show "length (extend i h ps) = length ps" for i h and ps :: "TapscriptProof list"
    by (simp add: extend_def)
  then show "length (extend_all env idx h ls ps) = length ps"
    unfolding extend_all_def by (induction ls arbitrary: ps) simp_all
qed (simp add: set_leaf_def)

lemma nth_extend:
  "i < length ps \<Longrightarrow> extend k h ps ! i = (if i = k then (ps ! i)\<lparr>proof_bytes := proof_bytes (ps ! i) @ h\<rparr> else ps ! i)"
  "i < length ps \<Longrightarrow> set_leaf k l ps ! i = (if i = k then (ps ! i)\<lparr>proof_leaf := l\<rparr> else ps ! i)"
  by (auto simp: extend_def set_leaf_def nth_list_update)

lemma nth_extend_all:
  assumes "i < length ps" and "distinct (map (\<lambda>l. leaf_index idx (node_TapHash env l)) ls)"
  shows "extend_all env idx h ls ps ! i =
    (if i \<in> (\<lambda>l. leaf_index idx (node_TapHash env l)) ` set ls then (ps ! i)\<lparr>proof_bytes := proof_bytes (ps ! i) @ h\<rparr> else ps ! i)"
  using assms
proof (induction ls arbitrary: ps)
  case (Cons l ls)
  let ?k = "leaf_index idx (node_TapHash env l)"
  have "extend_all env idx h (l # ls) ps = extend_all env idx h ls (extend ?k h ps)"
    by (simp add: extend_all_def)
  then show ?case
    using Cons.IH [of "extend ?k h ps"] Cons.prems by (auto simp: nth_extend)
qed (simp add: extend_all_def)

text \<open>
  The branches built so far have different leaves, and the proof of each of their leaves leads to
  its branch.
\<close>

definition forest :: "script_env \<Rightarrow> (bytes \<rightharpoonup> nat) \<Rightarrow> TapNode list \<Rightarrow> TapNode list \<Rightarrow> TapscriptProof list \<Rightarrow> bool" where
  "forest env idx leaves bs ps \<longleftrightarrow> length ps = length leaves \<and>
     distinct (concat (map leafDescendants bs)) \<and> set (concat (map leafDescendants bs)) \<subseteq> set leaves \<and>
     (\<forall>b \<in> set bs. \<forall>l \<in> set (leafDescendants b).
        let i = leaf_index idx (node_TapHash env l) in proof_leaf (ps ! i) = l \<and> proves env l (proof_bytes (ps ! i)) b)"

lemma indexesD:
  assumes "indexes env idx leaves" and "l \<in> set leaves"
  shows "leaf_index idx (node_TapHash env l) < length leaves \<and> leaves ! leaf_index idx (node_TapHash env l) = l"
  using assms by (auto simp: indexes_def in_set_conv_nth)

lemma indexes_inj: "indexes env idx leaves \<Longrightarrow> inj_on (\<lambda>l. leaf_index idx (node_TapHash env l)) (set leaves)"
  by (rule inj_onI) (metis indexesD)

lemma merge_forest:
  assumes "sha_ok env" and "indexes env idx leaves" and "forest env idx leaves (l # r # rest) ps"
  shows "forest env idx leaves (rest @ [TapBranch l r])
    (extend_all env idx (node_TapHash env l) (leafDescendants r)
       (extend_all env idx (node_TapHash env r) (leafDescendants l) ps))"
proof -
  let ?f = "\<lambda>l. leaf_index idx (node_TapHash env l)"
  let ?ps1 = "extend_all env idx (node_TapHash env r) (leafDescendants l) ps"
  let ?ps2 = "extend_all env idx (node_TapHash env l) (leafDescendants r) ?ps1"
  let ?all = "concat (map leafDescendants (l # r # rest))"
  have len: "length ps = length leaves" and dist: "distinct ?all" and sub: "set ?all \<subseteq> set leaves"
    using assms(3) by (simp_all add: forest_def)
  have inj: "inj_on ?f (set ?all)"
    using indexes_inj [OF assms(2)] sub by (rule inj_on_subset)
  have dl: "distinct (map ?f (leafDescendants l))" and dr: "distinct (map ?f (leafDescendants r))"
    using dist inj by (auto simp: distinct_map intro: inj_on_subset)
  have old: "proof_leaf (ps ! ?f x) = x \<and> proves env x (proof_bytes (ps ! ?f x)) b"
    if "b \<in> set (l # r # rest)" "x \<in> set (leafDescendants b)" for b x
    using assms(3) that unfolding forest_def Let_def by blast
  have at: "?ps2 ! ?f x = (if x \<in> set (leafDescendants r) then (?ps1 ! ?f x)\<lparr>proof_bytes := proof_bytes (?ps1 ! ?f x) @ node_TapHash env l\<rparr> else ?ps1 ! ?f x)"
      "?ps1 ! ?f x = (if x \<in> set (leafDescendants l) then (ps ! ?f x)\<lparr>proof_bytes := proof_bytes (ps ! ?f x) @ node_TapHash env r\<rparr> else ps ! ?f x)"
    if "x \<in> set ?all" for x
  proof -
    have "?f x < length ps"
      using indexesD [OF assms(2)] sub that len by auto
    moreover have "?f x \<in> ?f ` set (leafDescendants r) \<longleftrightarrow> x \<in> set (leafDescendants r)"
        "?f x \<in> ?f ` set (leafDescendants l) \<longleftrightarrow> x \<in> set (leafDescendants l)"
      using inj that by (auto simp: inj_on_def)
    ultimately show "?ps2 ! ?f x = (if x \<in> set (leafDescendants r) then (?ps1 ! ?f x)\<lparr>proof_bytes := proof_bytes (?ps1 ! ?f x) @ node_TapHash env l\<rparr> else ?ps1 ! ?f x)"
        "?ps1 ! ?f x = (if x \<in> set (leafDescendants l) then (ps ! ?f x)\<lparr>proof_bytes := proof_bytes (ps ! ?f x) @ node_TapHash env r\<rparr> else ps ! ?f x)"
      using dl dr by (simp_all add: nth_extend_all)
  qed
  have left: "proof_leaf (?ps2 ! ?f x) = x \<and> proves env x (proof_bytes (?ps2 ! ?f x)) (TapBranch l r)"
    if "x \<in> set (leafDescendants l)" for x
    using at [of x] old [of l x] that dist proves_sibling(1) [OF assms(1)] by auto
  have right: "proof_leaf (?ps2 ! ?f x) = x \<and> proves env x (proof_bytes (?ps2 ! ?f x)) (TapBranch l r)"
    if "x \<in> set (leafDescendants r)" for x
    using at [of x] old [of r x] that dist proves_sibling(2) [OF assms(1)] by auto
  have others: "proof_leaf (?ps2 ! ?f x) = x \<and> proves env x (proof_bytes (?ps2 ! ?f x)) b"
    if "b \<in> set rest" "x \<in> set (leafDescendants b)" for b x
  proof -
    have "x \<notin> set (leafDescendants l)" "x \<notin> set (leafDescendants r)" "x \<in> set ?all"
      using dist that by auto
    then show ?thesis
      using at [of x] old [of b x] that by simp
  qed
  have "distinct (concat (map leafDescendants (rest @ [TapBranch l r])))"
      "set (concat (map leafDescendants (rest @ [TapBranch l r]))) \<subseteq> set leaves" "length ?ps2 = length leaves"
    using dist sub len by auto
  then show ?thesis
    using left right others by (auto simp: forest_def Let_def)
qed

lemma merge_loop_forest:
  assumes "sha_ok env" and "indexes env idx leaves" and "forest env idx leaves bs ps" and "bs \<noteq> []"
  shows "\<exists>root ps'. merge_loop env idx bs ps = (Some root, ps') \<and> forest env idx leaves [root] ps' \<and>
    set (leafDescendants root) = set (concat (map leafDescendants bs))"
  using assms
proof (induction env idx bs ps rule: merge_loop.induct)
  case (3 env idx l r rest ps)
  then obtain root ps' where "merge_loop env idx (rest @ [TapBranch l r])
      (extend_all env idx (node_TapHash env l) (leafDescendants r)
         (extend_all env idx (node_TapHash env r) (leafDescendants l) ps)) = (Some root, ps')"
      and "forest env idx leaves [root] ps'"
      and "set (leafDescendants root) = set (concat (map leafDescendants (rest @ [TapBranch l r])))"
    using "3.IH" [OF "3.prems"(1,2) merge_forest [OF "3.prems"(1-3)]] by auto
  then show ?case
    by auto
qed auto


text \<open>
  The proofs of leaves that are not yet in a branch are empty.
\<close>

definition is_leaf :: "TapNode \<Rightarrow> bool" where
  "is_leaf t \<longleftrightarrow> leafDescendants t = [t]"

definition pairing :: "script_env \<Rightarrow> (bytes \<rightharpoonup> nat) \<Rightarrow> TapNode list \<Rightarrow> nat \<Rightarrow> TapNode list \<Rightarrow> TapscriptProof list \<Rightarrow> bool" where
  "pairing env idx leaves i bs ps \<longleftrightarrow> forest env idx leaves bs ps \<and>
     set (concat (map leafDescendants bs)) = set (take i leaves) \<and>
     (\<forall>b \<in> set bs. \<exists>l r. b = TapBranch l r \<and> is_leaf l \<and> is_leaf r) \<and>
     (\<forall>j. i \<le> j \<and> j < length leaves \<longrightarrow> proof_bytes (ps ! j) = [])"

lemma nth_notin_take: "distinct xs \<Longrightarrow> i \<le> j \<Longrightarrow> j < length xs \<Longrightarrow> xs ! j \<notin> set (take i xs)"
  by (auto simp: in_set_conv_nth nth_eq_iff_index_eq)

lemma pairing_fresh:
  assumes "indexes env idx leaves" and "pairing env idx leaves i bs ps" and "distinct leaves" and "i \<le> j" and "j < length leaves"
    and "b \<in> set bs" and "x \<in> set (leafDescendants b)"
  shows "leaf_index idx (node_TapHash env x) \<noteq> j" "leaf_index idx (node_TapHash env x) < length leaves"
proof -
  have "x \<in> set (take i leaves)"
    using assms(2,6,7) by (auto simp: pairing_def)
  then have "x \<in> set leaves" and "x \<noteq> leaves ! j"
    using nth_notin_take [OF assms(3-5)] by (auto dest: in_set_takeD)
  then show "leaf_index idx (node_TapHash env x) \<noteq> j" "leaf_index idx (node_TapHash env x) < length leaves"
    using indexesD [OF assms(1)] by auto
qed

lemma take_2_nth: "Suc i < length xs \<Longrightarrow> take (Suc (Suc i)) xs = take i xs @ [xs ! i, xs ! Suc i]"
  by (simp add: take_Suc_conv_app_nth)

lemma pair_pairing:
  assumes "sha_ok env" and "indexes env idx leaves" and "distinct leaves" and "list_all is_leaf leaves"
    and inv: "pairing env idx leaves i bs ps" and "Suc i < length leaves"
  shows "pairing env idx leaves (i + 2) (bs @ [TapBranch (leaves ! i) (leaves ! Suc i)])
    (extend (i + 1) (node_TapHash env (leaves ! i)) (set_leaf (i + 1) (leaves ! Suc i)
      (extend i (node_TapHash env (leaves ! Suc i)) (set_leaf i (leaves ! i) ps))))"
    (is "pairing _ _ _ _ (bs @ [TapBranch ?l ?r]) ?ps'")
proof -
  have len: "length ps = length leaves" and sub: "set (concat (map leafDescendants bs)) = set (take i leaves)"
      and dist: "distinct (concat (map leafDescendants bs))"
    using inv by (simp_all add: pairing_def forest_def)
  have leaf: "is_leaf ?l" "is_leaf ?r"
    using assms(4,6) by (simp_all add: list_all_length)
  have ix: "leaf_index idx (node_TapHash env ?l) = i" "leaf_index idx (node_TapHash env ?r) = Suc i"
    using assms(2,6) by (simp_all add: indexes_def)
  have fresh: "?l \<notin> set (take i leaves)" "?r \<notin> set (take i leaves)" "?l \<noteq> ?r"
    using nth_notin_take [OF assms(3)] assms(3,6) by (simp_all add: nth_eq_iff_index_eq)
  have new: "?ps' ! i = (ps ! i)\<lparr>proof_leaf := ?l, proof_bytes := node_TapHash env ?r\<rparr>"
      "?ps' ! Suc i = (ps ! Suc i)\<lparr>proof_leaf := ?r, proof_bytes := node_TapHash env ?l\<rparr>"
    using inv assms(6) len by (simp_all add: nth_extend pairing_def)
  have old: "?ps' ! j = ps ! j" if "j \<noteq> i" "j \<noteq> Suc i" "j < length leaves" for j
    using that len by (simp add: nth_extend)
  have kept: "?ps' ! leaf_index idx (node_TapHash env x) = ps ! leaf_index idx (node_TapHash env x)"
    if "b \<in> set bs" "x \<in> set (leafDescendants b)" for b x
    using pairing_fresh [OF assms(2) inv assms(3) _ _ that, of i] pairing_fresh [OF assms(2) inv assms(3) _ _ that, of "Suc i"] assms(6)
    by (intro old) auto
  have "forest env idx leaves (bs @ [TapBranch ?l ?r]) ?ps'"
  proof -
    have "distinct (concat (map leafDescendants (bs @ [TapBranch ?l ?r])))"
      using dist fresh leaf sub by (auto simp: is_leaf_def)
    moreover have "set (concat (map leafDescendants (bs @ [TapBranch ?l ?r]))) \<subseteq> set leaves"
      using sub leaf assms(6) by (auto simp: is_leaf_def dest: in_set_takeD)
    moreover have "proves env ?l (node_TapHash env ?r) (TapBranch ?l ?r)" "proves env ?r (node_TapHash env ?l) (TapBranch ?l ?r)"
      using proves_sibling [OF assms(1) proves_refl] by (metis append_Nil)+
    ultimately show ?thesis
      using inv kept leaf ix new len by (auto simp: forest_def pairing_def Let_def is_leaf_def)
  qed
  moreover have "set (concat (map leafDescendants (bs @ [TapBranch ?l ?r]))) = set (take (i + 2) leaves)"
    using sub leaf assms(6) by (simp add: is_leaf_def take_2_nth)
  ultimately show ?thesis
    using inv leaf old by (auto simp: pairing_def)
qed

lemma last_forest:
  assumes "sha_ok env" and "indexes env idx leaves" and "distinct leaves" and "list_all is_leaf leaves"
    and inv: "pairing env idx leaves i (bs @ [b]) ps" and "Suc i = length leaves"
  shows "forest env idx leaves (bs @ [TapBranch b (leaves ! i)]) (merge_last env idx i (leaves ! i) b ps) \<and>
    set (concat (map leafDescendants (bs @ [TapBranch b (leaves ! i)]))) = set leaves"
    (is "forest _ _ _ (bs @ [TapBranch b ?l]) ?ps' \<and> _")
proof -
  obtain x y where b: "b = TapBranch x y" "is_leaf x" "is_leaf y"
    using inv by (auto simp: pairing_def)
  let ?f = "\<lambda>l. leaf_index idx (node_TapHash env l)"
  have len: "length ps = length leaves" and sub: "set (concat (map leafDescendants (bs @ [b]))) = set (take i leaves)"
      and dist: "distinct (concat (map leafDescendants (bs @ [b])))"
    using inv by (simp_all add: pairing_def forest_def)
  have leaf: "is_leaf ?l" and ix: "?f ?l = i"
    using assms(2,4,6) by (simp_all add: list_all_length indexes_def)
  have all: "take i leaves @ [?l] = leaves"
    using assms(6) take_Suc_conv_app_nth [of i leaves] by simp
  have fresh: "?l \<notin> set (take i leaves)"
    using nth_notin_take [OF assms(3)] assms(6) by simp
  have mem: "x \<in> set leaves" "y \<in> set leaves" "x \<noteq> y"
    using sub b dist in_set_takeD [of _ i leaves] by (auto simp: is_leaf_def)
  then have "?f x \<noteq> ?f y"
    using inj_on_eq_iff [OF indexes_inj [OF assms(2)]] by metis
  then have xy: "?f x \<noteq> i" "?f y \<noteq> i" "?f x < length leaves" "?f y < length leaves" "?f x \<noteq> ?f y"
    using pairing_fresh [OF assms(2) inv assms(3), of i b] assms(6) b by (auto simp: is_leaf_def)
  have new: "?ps' ! i = (ps ! i)\<lparr>proof_leaf := ?l, proof_bytes := node_TapHash env b\<rparr>"
      "?ps' ! ?f x = (ps ! ?f x)\<lparr>proof_bytes := proof_bytes (ps ! ?f x) @ node_TapHash env ?l\<rparr>"
      "?ps' ! ?f y = (ps ! ?f y)\<lparr>proof_bytes := proof_bytes (ps ! ?f y) @ node_TapHash env ?l\<rparr>"
    using inv assms(6) len xy b by (simp_all add: nth_extend pairing_def merge_last_def Let_def)
  have kept: "?ps' ! ?f z = ps ! ?f z" if "c \<in> set bs" "z \<in> set (leafDescendants c)" for c z
  proof -
    have "z \<in> set leaves" "z \<noteq> x" "z \<noteq> y"
      using that sub b dist in_set_takeD [of _ i leaves] by (auto simp: is_leaf_def)
    then have "?f z \<noteq> ?f x" "?f z \<noteq> ?f y"
      using inj_on_eq_iff [OF indexes_inj [OF assms(2)]] mem by metis+
    then show ?thesis
      using pairing_fresh [OF assms(2) inv assms(3), of i c z] that assms(6) len b
      by (simp add: nth_extend merge_last_def Let_def)
  qed
  have proved: "proof_leaf (ps ! ?f z) = z \<and> proves env z (proof_bytes (ps ! ?f z)) c"
    if "c \<in> set (bs @ [b])" "z \<in> set (leafDescendants c)" for c z
    using inv that unfolding pairing_def forest_def Let_def by blast
  have "proof_leaf (?ps' ! ?f z) = z \<and> proves env z (proof_bytes (?ps' ! ?f z)) (TapBranch b ?l)"
    if "z \<in> set (leafDescendants (TapBranch b ?l))" for z
  proof -
    have "proves env ?l (node_TapHash env b) (TapBranch b ?l)"
      using proves_sibling(2) [OF assms(1) proves_refl] by (metis append_Nil)
    moreover have "z = ?l \<or> z = x \<or> z = y"
      using that b leaf by (auto simp: is_leaf_def)
    ultimately show ?thesis
      using new proved [of b z] ix b proves_sibling(1) [OF assms(1)] by (auto simp: is_leaf_def)
  qed
  moreover have "proof_leaf (?ps' ! ?f z) = z \<and> proves env z (proof_bytes (?ps' ! ?f z)) c"
    if "c \<in> set bs" "z \<in> set (leafDescendants c)" for c z
    using kept [OF that] proved [of c z] that by simp
  moreover have cover: "set (concat (map leafDescendants (bs @ [TapBranch b ?l]))) = set leaves"
    using arg_cong [OF all, of set] sub leaf by (auto simp: is_leaf_def)
  moreover have "distinct (concat (map leafDescendants (bs @ [TapBranch b ?l])))"
    using dist fresh sub leaf by (auto simp: is_leaf_def)
  moreover have "length ?ps' = length leaves"
    using len b by (simp add: merge_last_def Let_def)
  ultimately show ?thesis
    by (auto simp: forest_def Let_def)
qed

lemma drop_step: "drop i xs = y # ys \<longleftrightarrow> i < length xs \<and> xs ! i = y \<and> drop (Suc i) xs = ys"
  by (cases "i < length xs") (auto simp: Cons_nth_drop_Suc [symmetric])

lemma pair_loop_forest:
  assumes "sha_ok env" and "indexes env idx leaves" and "distinct leaves" and "list_all is_leaf leaves"
    and "pairing env idx leaves i bs ps" and "drop i leaves = todo" and "i \<le> length leaves" and "length todo = 1 \<Longrightarrow> bs \<noteq> []"
  shows "\<exists>bs' ps'. pair_loop env idx i todo bs ps = (bs', ps') \<and> forest env idx leaves bs' ps' \<and>
    set (concat (map leafDescendants bs')) = set leaves"
  using assms
proof (induction env idx i todo bs ps rule: pair_loop.induct)
  case (1 env idx i bs ps)
  then show ?case
    by (simp add: pairing_def)
next
  case (2 env idx i leaf bs ps)
  then have "Suc i = length leaves" "leaves ! i = leaf"
    by (auto simp: drop_step)
  then show ?case
    using last_forest [OF "2.prems"(1-4), of i "butlast bs" "last bs" ps] "2.prems"(5,8)
    by (intro exI conjI, unfold pair_loop.simps) (rule refl, simp_all add: ac_simps)
next
  case (3 env idx i l r rest bs ps)
  then have *: "Suc i < length leaves" "leaves ! i = l" "leaves ! Suc i = r" "drop (i + 2) leaves = rest"
    by (auto simp: drop_step)
  then show ?case
    using "3.IH" [OF "3.prems"(1-4)] pair_pairing [OF "3.prems"(1-5)] by simp
qed

lemma leaf_map_snoc: "leaf_map env (leaves @ [l]) = (leaf_map env leaves)(node_TapHash env l \<mapsto> length leaves)"
  by (simp add: leaf_map_def enumerate_append_eq)

lemma leaf_map_Some:
  "distinct (map (node_TapHash env) leaves) \<Longrightarrow> i < length leaves \<Longrightarrow>
    leaf_map env leaves (node_TapHash env (leaves ! i)) = Some i"
proof (induction leaves rule: rev_induct)
  case (snoc l leaves)
  have "node_TapHash env (leaves ! i) \<noteq> node_TapHash env l" if "i < length leaves"
    using nth_mem [OF that] snoc.prems(1) by (auto simp: image_iff)
  then show ?case
    using snoc by (auto simp: leaf_map_snoc nth_append less_Suc_eq)
qed simp

lemma leaf_map_indexes: "distinct (map (node_TapHash env) leaves) \<Longrightarrow> indexes env (leaf_map env leaves) leaves"
  by (simp add: indexes_def leaf_index_def leaf_map_Some)

lemma assemble_forest:
  assumes "sha_ok env" and "list_all is_leaf leaves" and "distinct (map (node_TapHash env) leaves)" and "1 < length leaves"
  shows "\<exists>root ps. AssembleTaprootScriptTree env leaves =
      \<lparr>RootNode = Some root, LeafMerkleProofs = map (\<lambda>p. p\<lparr>proof_root := Some root\<rparr>) ps, LeafProofIndex = leaf_map env leaves\<rparr> \<and>
    forest env (leaf_map env leaves) leaves [root] ps \<and> set (leafDescendants root) = set leaves"
proof -
  note idx = leaf_map_indexes [OF assms(3)]
  have dist: "distinct leaves"
    using assms(3) by (simp add: distinct_map)
  have "pairing env (leaf_map env leaves) leaves 0 [] (replicate (length leaves) empty_proof)"
    by (simp add: pairing_def forest_def empty_proof_def)
  from pair_loop_forest [OF assms(1) idx dist assms(2) this, of leaves] assms(4)
  obtain bs ps where 1: "pair_loop env (leaf_map env leaves) 0 leaves [] (replicate (length leaves) empty_proof) = (bs, ps)"
      "forest env (leaf_map env leaves) leaves bs ps" "set (concat (map leafDescendants bs)) = set leaves"
    by auto
  moreover have "bs \<noteq> []"
    using 1(3) assms(4) by auto
  ultimately obtain root ps' where "merge_loop env (leaf_map env leaves) bs ps = (Some root, ps')"
      "forest env (leaf_map env leaves) leaves [root] ps'" "set (leafDescendants root) = set leaves"
    using merge_loop_forest [OF assms(1) idx] by metis
  then show ?thesis
    using 1(1) assms(4) by (simp add: AssembleTaprootScriptTree_def) blast
qed


section \<open>Every proof verifies\<close>

lemma even_version:
  fixes v :: byte
  assumes "v AND 1 = 0"
  shows "(v OR (if b then 1 else 0)) AND 1 = (if b then 1 else 0)" "(v OR (if b then 1 else 0)) AND 0xfe = v"
proof -
  have fe: "(0xfe :: byte) = NOT 1"
    by simp
  have "\<not> bit v 0"
    using arg_cong [OF assms, of "\<lambda>w. bit w 0"] by (simp add: bit_simps)
  then have pos: "bit v n \<Longrightarrow> 0 < n" for n
    by (cases n) auto
  show "(v OR (if b then 1 else 0)) AND 1 = (if b then 1 else 0)"
    using pos by (intro bit_eqI) (auto simp: bit_simps)
  show "(v OR (if b then 1 else 0)) AND 0xfe = v"
    unfolding fe using pos by (intro bit_eqI) (auto simp: bit_simps)
qed

lemma ControlBlock_roundtrip:
  assumes "length (InternalKey c) = 32" and "schnorr_ParsePubKey env (InternalKey c)" and "LeafVersion c AND 1 = 0"
    and "length (InclusionProof c) mod 32 = 0" and "length (InclusionProof c) \<le> 32 * 128"
  shows "ParseControlBlock env (ControlBlock_ToBytes c) = Ok c"
  using assms even_version [OF assms(3), of "OutputKeyYIsOdd c"]
  by (simp add: ParseControlBlock_def ControlBlock_ToBytes_def index_def slice_def bind_def Let_def)

lemma assemble_proofs:
  assumes "sha_ok env" and "list_all is_leaf leaves" and "distinct (map (node_TapHash env) leaves)" and "i < length leaves"
  shows "\<exists>root p. RootNode (AssembleTaprootScriptTree env leaves) = Some root \<and>
    index (LeafMerkleProofs (AssembleTaprootScriptTree env leaves)) i = Ok p \<and> proof_root p = Some root \<and>
    LeafProofIndex (AssembleTaprootScriptTree env leaves) (node_TapHash env (leaves ! i)) = Some i \<and>
    proof_leaf p = leaves ! i \<and> proves env (leaves ! i) (proof_bytes p) root \<and> length (leafDescendants root) = length leaves"
proof (cases "length leaves = 1")
  case True
  then obtain l where "leaves = [l]"
    by (cases leaves) auto
  then show ?thesis
    using assms(2,4) proves_refl by (simp add: AssembleTaprootScriptTree_def is_leaf_def index_def)
next
  case False
  then obtain root ps where *: "AssembleTaprootScriptTree env leaves =
      \<lparr>RootNode = Some root, LeafMerkleProofs = map (\<lambda>p. p\<lparr>proof_root := Some root\<rparr>) ps, LeafProofIndex = leaf_map env leaves\<rparr>"
      and f: "forest env (leaf_map env leaves) leaves [root] ps" and set: "set (leafDescendants root) = set leaves"
    using assemble_forest [OF assms(1-3)] assms(4) by fastforce
  have mem: "leaves ! i \<in> set (leafDescendants root)"
    using set assms(4) by simp
  have ix: "leaf_index (leaf_map env leaves) (node_TapHash env (leaves ! i)) = i"
    using leaf_map_indexes [OF assms(3)] assms(4) by (simp add: indexes_def)
  have "length (leafDescendants root) = length leaves"
    using f set assms(3) distinct_card [of leaves] distinct_card [of "leafDescendants root"]
    by (simp add: forest_def distinct_map)
  moreover have "proof_leaf (ps ! i) = leaves ! i \<and> proves env (leaves ! i) (proof_bytes (ps ! i)) root" "i < length ps"
    using f mem ix assms(4) by (auto simp: forest_def Let_def)
  moreover have "leaf_map env leaves (node_TapHash env (leaves ! i)) = Some i"
    using leaf_map_Some [OF assms(3,4)] .
  ultimately show ?thesis
    using * by (simp add: index_def)
qed


definition tree_env :: script_env where
  "tree_env = \<lparr>ripemd160 = (\<lambda>_. replicate 20 7), sha1 = (\<lambda>_. replicate 20 7), sha256 = (\<lambda>b. take 32 (rev b @ replicate 32 0)),
     ParsePubKey = (\<lambda>_. True), ParseSignature = (\<lambda>_ _. True), ecdsa_Verify = (\<lambda>_ _ _ _. True),
     schnorr_ParsePubKey = (\<lambda>_. True), schnorr_ParseSignature = (\<lambda>_. True), schnorr_Verify = (\<lambda>_ _ _. True),
     tweak_key = (\<lambda>_ t. (t, True))\<rparr>"

definition tree_leaves :: "TapNode list" where
  "tree_leaves = [TapLeaf 0xc0 [1], TapLeaf 0xc0 [2], TapLeaf 0xc0 [3]]"

lemma tree_distinct: "distinct (map (node_TapHash tree_env) tree_leaves)"
  by code_simp


end
