(* ===== verification/Sighash_Commit.thy ===== *)
theory Sighash_Commit
  imports Script_Sighash
begin

text \<open>
  What the legacy signature hash of \<^verbatim>\<open>coin/OrcaNet/txscript/sighash.go\<close> commits to: the bytes that
  are hashed determine the signed parts of the transaction, because the transaction encoding can be
  read back.
\<close>

section \<open>The copy that is hashed\<close>

definition signed_input :: "bytes \<Rightarrow> u32 \<Rightarrow> MsgTx \<Rightarrow> nat \<Rightarrow> nat \<Rightarrow> TxIn" where
  "signed_input s h tx idx i = (TxIns tx ! i)\<lparr>SignatureScript := (if i = idx then removeOpcodeRaw s 171 else []),
     Sequence := (if i \<noteq> idx \<and> (h AND 0x1f = 2 \<or> h AND 0x1f = 3) then 0 else Sequence (TxIns tx ! i))\<rparr>"

definition signed_outputs :: "u32 \<Rightarrow> MsgTx \<Rightarrow> nat \<Rightarrow> TxOut list" where
  "signed_outputs h tx idx =
     (if h AND 0x1f = 2 then []
      else if h AND 0x1f = 3 then map (\<lambda>(i, to). if i < idx then blank_output else to) (enumerate 0 (take (idx + 1) (TxOuts tx)))
      else TxOuts tx)"

definition signed_inputs :: "bytes \<Rightarrow> u32 \<Rightarrow> MsgTx \<Rightarrow> nat \<Rightarrow> TxIn list" where
  "signed_inputs s h tx idx =
     (if h AND 0x80 \<noteq> 0 then [signed_input s h tx idx idx] else map (signed_input s h tx idx) [0 ..< length (TxIns tx)])"

lemma slice_single: "i < length xs \<Longrightarrow> slice xs i (i + 1) = Ok [xs ! i]"
  by (simp add: slice_def take_Suc_conv_app_nth)

lemma sighash_copy_eq:
  assumes "idx < length (TxIns tx)"
  shows "sighash_copy s h tx idx = Ok (tx\<lparr>TxIns := signed_inputs s h tx idx, TxOuts := signed_outputs h tx idx\<rparr>)"
proof -
  have "map (\<lambda>(i, ti). ti\<lparr>SignatureScript := (if i = idx then removeOpcodeRaw s 171 else []),
          Sequence := (if i \<noteq> idx \<and> (h AND 0x1f = 2 \<or> h AND 0x1f = 3) then 0 else Sequence ti)\<rparr>) (enumerate 0 (TxIns tx)) =
      map (signed_input s h tx idx) [0 ..< length (TxIns tx)]"
    by (rule nth_equalityI) (simp_all add: signed_input_def nth_enumerate_eq)
  then show ?thesis
    using assms slice_single [of idx "map (signed_input s h tx idx) [0 ..< length (TxIns tx)]"]
    by (simp add: sighash_copy_def Let_def signed_inputs_def signed_outputs_def)
qed

section \<open>The copy fits into a message\<close>

lemma sum_scripts_le:
  "length (filter (\<lambda>i. i = idx) is) \<le> 1 \<Longrightarrow> sum_list (map (\<lambda>i. length (SignatureScript (signed_input s h tx idx i))) is) \<le> length (removeOpcodeRaw s 171)"
  by (induction "is") (auto simp: signed_input_def sum_list_eq_0_iff filter_empty_conv)

lemma signed_inputs_scripts:
  "sum_list (map (\<lambda>ti. length (SignatureScript ti)) (signed_inputs s h tx idx)) \<le> length (removeOpcodeRaw s 171)"
proof -
  have "length (filter (\<lambda>i. i = idx) [0 ..< n]) \<le> 1" for n
    by (induction n) auto
  then show ?thesis
    using sum_scripts_le [of idx "[0 ..< length (TxIns tx)]" s h tx]
    by (simp add: signed_inputs_def comp_def signed_input_def)
qed

lemma blank_scripts: "sum_list (map (\<lambda>to. length (PkScript to)) (map (\<lambda>(i, to). if i < idx then blank_output else to) (enumerate k us))) \<le>
    sum_list (map (\<lambda>to. length (PkScript to)) us)"
  by (induction us arbitrary: k) (auto simp: blank_output_def intro: add_mono le_SucI add_increasing)

lemma sum_take_le: "sum_list (map f (take n xs)) \<le> sum_list (map f xs)" for f :: "'a \<Rightarrow> nat"
  using sum_list.append [of "map f (take n xs)" "map f (drop n xs)"] by (simp flip: map_append)

lemma signed_outputs_scripts:
  "sum_list (map (\<lambda>to. length (PkScript to)) (signed_outputs h tx idx)) \<le> sum_list (map (\<lambda>to. length (PkScript to)) (TxOuts tx))"
  using blank_scripts [of idx 0 "take (idx + 1) (TxOuts tx)"] sum_take_le [of "\<lambda>to. length (PkScript to)" "idx + 1" "TxOuts tx"]
  by (auto simp: signed_outputs_def)

lemma signed_inputs_witness:
  assumes "idx < length (TxIns tx)"
  shows "sum_list (map (\<lambda>ti. sum_list (map length (Witness ti))) (signed_inputs s h tx idx)) \<le>
    sum_list (map (\<lambda>ti. sum_list (map length (Witness ti))) (TxIns tx))"
proof -
  let ?f = "\<lambda>ti. sum_list (map length (Witness ti))"
  have "map (\<lambda>i. ?f (TxIns tx ! i)) [0 ..< length (TxIns tx)] = map ?f (TxIns tx)"
    by (rule nth_equalityI) simp_all
  then show ?thesis
    using member_le_sum_list [of "?f (TxIns tx ! idx)" "map ?f (TxIns tx)"] assms
    by (simp add: signed_inputs_def signed_input_def comp_def)
qed

lemma sighash_copy_ok:
  assumes "tx_ok tx" and "script_bytes tx + length (removeOpcodeRaw s 171) \<le> 4194304" and "idx < length (TxIns tx)"
  shows "tx_ok (tx\<lparr>TxIns := signed_inputs s h tx idx, TxOuts := signed_outputs h tx idx\<rparr>)" (is "tx_ok ?c")
proof -
  have "in_ok (signed_input s h tx idx i) \<and> wit_ok (Witness (signed_input s h tx idx i))" if "i < length (TxIns tx)" for i
    using assms(1,2) that by (auto simp: tx_ok_def list_all_length signed_input_def in_ok_def)
  then have "list_all (\<lambda>ti. in_ok ti \<and> wit_ok (Witness ti)) (TxIns ?c)"
    using assms(3) by (auto simp: signed_inputs_def list_all_iff)
  moreover have "list_all out_ok (TxOuts ?c)"
    using assms(1) by (auto simp: tx_ok_def list_all_iff signed_outputs_def out_ok_def blank_output_def in_set_enumerate_eq dest: in_set_takeD)
  moreover have "script_bytes ?c \<le> 4194304"
    using assms(1,2) signed_inputs_scripts [of s h tx idx] signed_outputs_scripts [of h tx idx] signed_inputs_witness [OF assms(3), of s h]
    unfolding script_bytes_def by simp
  ultimately show ?thesis
    using assms(1,3) by (auto simp: tx_ok_def signed_inputs_def signed_outputs_def)
qed

section \<open>What the hashed bytes determine\<close>

definition sighash_preimage :: "bytes \<Rightarrow> u32 \<Rightarrow> MsgTx \<Rightarrow> nat \<Rightarrow> bytes" where
  "sighash_preimage s h tx idx =
     SerializeNoWitness (tx\<lparr>TxIns := signed_inputs s h tx idx, TxOuts := signed_outputs h tx idx\<rparr>) @ uint32_bytes (uint h)"

lemma calcSignatureHash_preimage:
  assumes "idx < length (TxIns tx)" and "h AND 0x1f = 3 \<Longrightarrow> idx < length (TxOuts tx)"
  shows "calcSignatureHash sha s h tx idx = Ok (sha (sha (sighash_preimage s h tx idx)))"
  using assms by (auto simp: calcSignatureHash_def sighash_copy_eq sighash_preimage_def)

lemma uint32_bytes_word: "uint32_bytes (uint h) = uint32_bytes (uint h') \<Longrightarrow> h = h'" for h h' :: u32
proof -
  assume eq: "uint32_bytes (uint h) = uint32_bytes (uint h')"
  have "int (le_value (uint32_bytes (uint x))) = uint x" for x :: u32
    using uint_lt2p [of x] by simp
  then show ?thesis
    using eq by (metis word_uint_eqI)
qed

lemma preimage_inj:
  fixes h h' :: u32
  assumes "tx_ok c" and "tx_ok c'" and "SerializeNoWitness c @ uint32_bytes (uint h) = SerializeNoWitness c' @ uint32_bytes (uint h')"
  shows "stripped c = stripped c' \<and> h = h'"
  using btcDecode_reads [OF assms(1), of BaseEncoding "uint32_bytes (uint h)"]
    btcDecode_reads [OF assms(2), of BaseEncoding "uint32_bytes (uint h')"] assms(3)
  by (auto simp: SerializeNoWitness_def dest: uint32_bytes_word)

lemma stripped_inputs:
  assumes "map strip xs = map strip ys"
  shows "map PreviousOutPoint xs = map PreviousOutPoint ys" "map SignatureScript xs = map SignatureScript ys"
    "map Sequence xs = map Sequence ys"
proof -
  have *: "map (f \<circ> strip) xs = map (f \<circ> strip) ys" for f :: "TxIn \<Rightarrow> 'a"
    using arg_cong [OF assms, of "map f"] by simp
  have "PreviousOutPoint \<circ> strip = PreviousOutPoint" "SignatureScript \<circ> strip = SignatureScript" "Sequence \<circ> strip = Sequence"
    by (auto simp: strip_def)
  then show "map PreviousOutPoint xs = map PreviousOutPoint ys" "map SignatureScript xs = map SignatureScript ys"
      "map Sequence xs = map Sequence ys"
    using * by metis+
qed

lemma signed_inputs_map:
  "map PreviousOutPoint (signed_inputs s h tx idx) =
     (if h AND 0x80 \<noteq> 0 then [PreviousOutPoint (TxIns tx ! idx)] else map PreviousOutPoint (TxIns tx))"
  "map SignatureScript (signed_inputs s h tx idx) =
     (if h AND 0x80 \<noteq> 0 then [removeOpcodeRaw s 171]
      else map (\<lambda>i. if i = idx then removeOpcodeRaw s 171 else []) [0 ..< length (TxIns tx)])"
  "map Sequence (signed_inputs s h tx idx) =
     (if h AND 0x80 \<noteq> 0 then [Sequence (TxIns tx ! idx)]
      else map (\<lambda>i. if i \<noteq> idx \<and> (h AND 0x1f = 2 \<or> h AND 0x1f = 3) then 0 else Sequence (TxIns tx ! i)) [0 ..< length (TxIns tx)])"
  by (auto simp: signed_inputs_def signed_input_def intro!: nth_equalityI)

lemma signed_outputs_single:
  assumes "h AND 0x1f = 3" and "idx < length (TxOuts tx)"
  shows "length (signed_outputs h tx idx) = Suc idx \<and> signed_outputs h tx idx ! idx = TxOuts tx ! idx"
  using assms by (simp add: signed_outputs_def nth_enumerate_eq)


lemma sample_scripts: "removeOpcodeRaw [0x51, 0xab] 171 = [0x51]" "removeOpcodeRaw [0x51] 171 = [0x51]"
  by code_simp+

lemma sample_stripped_ok: "tx_ok (stripped sample_spend)" "script_bytes sample_spend = 3" "script_bytes (stripped sample_spend) = 2"
  by (simp_all add: tx_ok_def sample_spend_def stripped_def strip_def in_ok_def out_ok_def wit_ok_def script_bytes_def)

lemma sample_same_hash: "calcSignatureHash id [0x51, 0xab] 1 sample_spend 0 = calcSignatureHash id [0x51] 1 (stripped sample_spend) 0"
  by (simp add: calcSignatureHash_preimage sighash_preimage_def signed_inputs_def signed_input_def signed_outputs_def
      sample_scripts sample_spend_def stripped_def strip_def SerializeNoWitness_def btcEncode_def writeTxIn_def)


end
