(* ===== verification/Wire_Block.thy ===== *)
theory Wire_Block
  imports Wire_Tx
begin

text \<open>
  Block headers and blocks on the wire (\<^verbatim>\<open>coin/OrcaNet/wire/blockheader.go\<close> and
  \<^verbatim>\<open>msgblock.go\<close>).  A time is a number of nanoseconds since the epoch, as the code's
  \<^verbatim>\<open>time.Time\<close> can be finer than a second.
\<close>

section \<open>Headers\<close>

record BlockHeader =
  hdr_Version :: int
  PrevBlock :: bytes
  MerkleRoot :: bytes
  Timestamp :: int
  Bits :: u32
  Nonce :: u32

definition Unix :: "int \<Rightarrow> int" where
  "Unix t = t div 10 ^ 9"

definition from_Unix :: "int \<Rightarrow> int" where
  "from_Unix s = s * 10 ^ 9"

definition writeBlockHeader :: "BlockHeader \<Rightarrow> bytes" where
  "writeBlockHeader bh = uint32_bytes (hdr_Version bh) @ PrevBlock bh @ MerkleRoot bh @ uint32_bytes (Unix (Timestamp bh)) @
     uint32_bytes (uint (Bits bh)) @ uint32_bytes (uint (Nonce bh))"

definition readBlockHeader :: "bytes \<Rightarrow> (BlockHeader \<times> bytes) outcome" where
  "readBlockHeader r =
     bind (ReadFull 4 r) (\<lambda>(v, r1).
     bind (ReadFull 32 r1) (\<lambda>(prev, r2).
     bind (ReadFull 32 r2) (\<lambda>(root, r3).
     bind (ReadFull 4 r3) (\<lambda>(t, r4).
     bind (ReadFull 4 r4) (\<lambda>(b, r5).
     bind (ReadFull 4 r5) (\<lambda>(n, r6).
       Ok (\<lparr>hdr_Version = wrap32 (int (le_value v)), PrevBlock = prev, MerkleRoot = root,
            Timestamp = from_Unix (int (le_value t)), Bits = of_nat (le_value b), Nonce = of_nat (le_value n)\<rparr>, r6)))))))"

definition BlockHash :: "(bytes \<Rightarrow> bytes) \<Rightarrow> BlockHeader \<Rightarrow> bytes" where
  "BlockHash sha h = sha (sha (writeBlockHeader h))"

section \<open>Blocks\<close>

record MsgBlock =
  Header :: BlockHeader
  Transactions :: "MsgTx list"

abbreviation (input) maxTxPerBlock :: nat where "maxTxPerBlock \<equiv> 400001"

definition block_BtcEncode :: "MessageEncoding \<Rightarrow> MsgBlock \<Rightarrow> bytes" where
  "block_BtcEncode enc msg =
     writeBlockHeader (Header msg) @ WriteVarInt (length (Transactions msg)) @ concat (map (btcEncode enc) (Transactions msg))"

text \<open>Every transaction is read into the whole slab.\<close>

fun read_txs :: "MessageEncoding \<Rightarrow> nat \<Rightarrow> bytes \<Rightarrow> (MsgTx list \<times> bytes) outcome" where
  "read_txs enc 0 r = Ok ([], r)"
| "read_txs enc (Suc n) r =
     bind (btcDecode enc scriptSlabSize r) (\<lambda>(tx, r1). bind (read_txs enc n r1) (\<lambda>(txs, r2). Ok (tx # txs, r2)))"

definition block_BtcDecode :: "MessageEncoding \<Rightarrow> bytes \<Rightarrow> (MsgBlock \<times> bytes) outcome" where
  "block_BtcDecode enc r =
     bind (readBlockHeader r) (\<lambda>(header, r1).
     bind (ReadVarInt r1) (\<lambda>(txCount, r2).
       if txCount > maxTxPerBlock then Err ''too many transactions to fit into a block''
       else bind (read_txs enc txCount r2) (\<lambda>(txs, r3). Ok (\<lparr>Header = header, Transactions = txs\<rparr>, r3))))"

definition block_SerializeSize :: "MsgBlock \<Rightarrow> nat" where
  "block_SerializeSize msg =
     foldl (\<lambda>n tx. n + SerializeSize tx) (80 + VarIntSerializeSize (length (Transactions msg))) (Transactions msg)"

definition block_SerializeSizeStripped :: "MsgBlock \<Rightarrow> nat" where
  "block_SerializeSizeStripped msg =
     foldl (\<lambda>n tx. n + SerializeSizeStripped tx) (80 + VarIntSerializeSize (length (Transactions msg))) (Transactions msg)"

section \<open>Round trips\<close>

definition header_ok :: "BlockHeader \<Rightarrow> bool" where
  "header_ok h \<longleftrightarrow> - (2 ^ 31) \<le> hdr_Version h \<and> hdr_Version h < 2 ^ 31 \<and> length (PrevBlock h) = 32 \<and> length (MerkleRoot h) = 32 \<and>
     0 \<le> Unix (Timestamp h) \<and> Unix (Timestamp h) < 2 ^ 32 \<and> Timestamp h = from_Unix (Unix (Timestamp h))"

lemma le_value_uint32: "le_value (uint32_bytes x) = nat (x mod 2 ^ 32)"
  using uint_bytes_value(3) [of x] by linarith

lemma word_le_value: "of_nat (le_value (uint32_bytes (uint w))) = w" for w :: u32
  using uint_lt2p [of w] by (simp add: le_value_uint32)

interpretation block_header: slab_codec writeBlockHeader "\<lambda>_. readBlockHeader" "\<lambda>_. 0" header_ok
proof
  fix h :: BlockHeader and slab :: nat and r :: bytes
  assume "header_ok h"
  then show "readBlockHeader (writeBlockHeader h @ r) = Ok (h, r)"
    using wrap_mod(1) [of "hdr_Version h"]
    by (simp add: readBlockHeader_def writeBlockHeader_def header_ok_def word_le_value)
next
  fix slab :: nat and r r' :: bytes and h :: BlockHeader
  assume "readBlockHeader r = Ok (h, r')"
  then obtain v prev root t b n where r: "r = v @ prev @ root @ t @ b @ n @ r'"
      and len: "length v = 4" "length prev = 32" "length root = 32" "length t = 4" "length b = 4" "length n = 4"
      and h: "h = \<lparr>hdr_Version = wrap32 (int (le_value v)), PrevBlock = prev, MerkleRoot = root,
            Timestamp = from_Unix (int (le_value t)), Bits = of_nat (le_value b), Nonce = of_nat (le_value n)\<rparr>"
    by (auto simp: readBlockHeader_def bind_Ok_iff dest!: ReadFull_OkD)
  have small: "le_value t < 2 ^ 32" "le_value b < 2 ^ 32" "le_value n < 2 ^ 32"
    using le_value_less [of t] le_value_less [of b] le_value_less [of n] len by simp_all
  have unix: "Unix (from_Unix x) = x" for x
    by (simp add: Unix_def from_Unix_def)
  have word: "uint32_bytes (uint (of_nat (le_value x) :: u32)) = x" if "length x = 4" for x
    using that le_value_less [of x] by (intro uint_bytes_of_value) (simp_all add: uint_nat unat_of_nat)
  have time: "uint32_bytes (int (le_value t)) = t" and ver: "uint32_bytes (wrap32 (int (le_value v))) = v"
    using len wrap_mod(2) [of "int (le_value v)"] by (auto intro!: uint_bytes_of_value)
  have "- (2 ^ 31) \<le> wrap32 x \<and> wrap32 x < 2 ^ 31" for x
    unfolding wrap32_def
    using signed_take_bit_int_greater_eq_minus_exp [of 31 x] signed_take_bit_int_less_exp [of 31 x] by simp
  then have "header_ok h"
    using h len small by (simp add: header_ok_def unix)
  moreover have "r = writeBlockHeader h @ r'"
    using r h len by (simp add: writeBlockHeader_def unix word time ver)
  ultimately show "header_ok h \<and> 0 \<le> slab \<and> r = writeBlockHeader h @ r'"
    by simp
qed

lemma read_txs_reads:
  assumes "list_all (\<lambda>tx. tx_ok tx \<and> TxIns tx \<noteq> []) txs"
  shows "read_txs WitnessEncoding (length txs) (concat (map (btcEncode WitnessEncoding) txs) @ r) = Ok (txs, r)"
  using assms by (induction txs) (simp_all add: btcDecode_reads)

lemma length_header: "header_ok h \<Longrightarrow> length (writeBlockHeader h) = 80"
  by (simp add: writeBlockHeader_def header_ok_def)


definition sample_header :: BlockHeader where
  "sample_header = \<lparr>hdr_Version = 4, PrevBlock = replicate 32 1, MerkleRoot = replicate 32 2, Timestamp = from_Unix 1714000000,
     Bits = 0x1d00ffff, Nonce = 7\<rparr>"

lemma sample_header_ok: "header_ok sample_header"
  by (simp add: header_ok_def sample_header_def Unix_def from_Unix_def)


end
