(* ===== verification/Chain_Utxo.thy ===== *)
theory Chain_Utxo
  imports Script_Standard Wire_Block
begin

text \<open>
  The view of the unspent transaction outputs (\<^verbatim>\<open>coin/OrcaNet/blockchain/utxoviewpoint.go\<close>) and
  how connecting and disconnecting a block changes it.  A view maps outpoints to entries; a key may
  be present with a nil entry, which the code tells apart from a missing key only when it decides
  what to load.  The entries are reached through the view alone, so updating one in place is an
  update of the map.  A transaction has fewer than \<open>2 ^ 32\<close> outputs.  The state of a view after an
  error is not modelled: every caller drops the view then.
\<close>

section \<open>Entries\<close>

type_synonym outpoint = "bytes \<times> nat"

record UtxoEntry =
  amount :: int
  pkScript :: bytes
  blockHeight :: int
  packedFlags :: byte

abbreviation (input) tfCoinBase :: byte where "tfCoinBase \<equiv> 1"
abbreviation (input) tfSpent :: byte where "tfSpent \<equiv> 2"
abbreviation (input) tfModified :: byte where "tfModified \<equiv> 4"
abbreviation (input) tfFresh :: byte where "tfFresh \<equiv> 8"

definition isModified :: "UtxoEntry \<Rightarrow> bool" where
  "isModified e \<longleftrightarrow> packedFlags e AND tfModified = tfModified"

definition entry_IsCoinBase :: "UtxoEntry \<Rightarrow> bool" where
  "entry_IsCoinBase e \<longleftrightarrow> packedFlags e AND tfCoinBase = tfCoinBase"

definition IsSpent :: "UtxoEntry \<Rightarrow> bool" where
  "IsSpent e \<longleftrightarrow> packedFlags e AND tfSpent = tfSpent"

definition Spend :: "UtxoEntry \<Rightarrow> UtxoEntry" where
  "Spend e = (if IsSpent e then e else e\<lparr>packedFlags := packedFlags e OR (tfSpent OR tfModified)\<rparr>)"

section \<open>Views\<close>

record UtxoViewpoint =
  entries :: "outpoint \<rightharpoonup> UtxoEntry option"
  bestHash :: bytes

definition NewUtxoViewpoint :: UtxoViewpoint where
  "NewUtxoViewpoint = \<lparr>entries = Map.empty, bestHash = replicate 32 0\<rparr>"

definition SetBestHash :: "bytes \<Rightarrow> UtxoViewpoint \<Rightarrow> UtxoViewpoint" where
  "SetBestHash h view = view\<lparr>bestHash := h\<rparr>"

definition LookupEntry :: "UtxoViewpoint \<Rightarrow> outpoint \<Rightarrow> UtxoEntry option" where
  "LookupEntry view op = (case entries view op of Some e \<Rightarrow> e | None \<Rightarrow> None)"

definition FetchPrevOutput :: "UtxoViewpoint \<Rightarrow> outpoint \<Rightarrow> TxOut option" where
  "FetchPrevOutput view op = map_option (\<lambda>e. \<lparr>out_Value = amount e, PkScript = pkScript e\<rparr>) (LookupEntry view op)"

text \<open>Assigning \<^verbatim>\<open>view.entries[op]\<close>.\<close>

definition put_entry :: "outpoint \<Rightarrow> UtxoEntry option \<Rightarrow> UtxoViewpoint \<Rightarrow> UtxoViewpoint" where
  "put_entry op e view = view\<lparr>entries := (entries view)(op \<mapsto> e)\<rparr>"

definition RemoveEntry :: "outpoint \<Rightarrow> UtxoViewpoint \<Rightarrow> UtxoViewpoint" where
  "RemoveEntry op view = view\<lparr>entries := (entries view)(op := None)\<rparr>"

definition commit :: "UtxoViewpoint \<Rightarrow> UtxoViewpoint" where
  "commit view = view\<lparr>entries := (\<lambda>op. case entries view op of
       Some (Some e) \<Rightarrow> (if isModified e \<and> IsSpent e then None else Some (Some (e\<lparr>packedFlags := packedFlags e XOR tfModified\<rparr>)))
     | _ \<Rightarrow> None)\<rparr>"

text \<open>The zero hash and the largest index mark the input of a coinbase.\<close>

definition isNullOutpoint :: "outpoint \<Rightarrow> bool" where
  "isNullOutpoint op \<longleftrightarrow> snd op = 2 ^ 32 - 1 \<and> fst op = replicate 32 0"

definition IsCoinBase :: "MsgTx \<Rightarrow> bool" where
  "IsCoinBase t \<longleftrightarrow> length (TxIns t) = 1 \<and> isNullOutpoint (PreviousOutPoint (TxIns t ! 0))"

definition addTxOut :: "outpoint \<Rightarrow> TxOut \<Rightarrow> bool \<Rightarrow> int \<Rightarrow> UtxoViewpoint \<Rightarrow> UtxoViewpoint" where
  "addTxOut op txOut isCoinBase height view =
     (if IsUnspendable (PkScript txOut) then view
      else put_entry op (Some \<lparr>amount = out_Value txOut, pkScript = PkScript txOut, blockHeight = height,
             packedFlags = (tfFresh OR tfModified) OR (if isCoinBase then tfCoinBase else 0)\<rparr>) view)"

definition AddTxOut :: "(bytes \<Rightarrow> bytes) \<Rightarrow> MsgTx \<Rightarrow> nat \<Rightarrow> int \<Rightarrow> UtxoViewpoint \<Rightarrow> UtxoViewpoint" where
  "AddTxOut sha t txOutIdx height view =
     (if txOutIdx \<ge> length (TxOuts t) then view
      else addTxOut (TxHash sha t, txOutIdx) (TxOuts t ! txOutIdx) (IsCoinBase t) height view)"

definition AddTxOuts :: "(bytes \<Rightarrow> bytes) \<Rightarrow> MsgTx \<Rightarrow> int \<Rightarrow> UtxoViewpoint \<Rightarrow> UtxoViewpoint" where
  "AddTxOuts sha t height view =
     foldl (\<lambda>view (txOutIdx, txOut). addTxOut (TxHash sha t, txOutIdx) txOut (IsCoinBase t) height view) view (enumerate 0 (TxOuts t))"

section \<open>Connecting\<close>

record SpentTxOut =
  st_Amount :: int
  st_PkScript :: bytes
  st_Height :: int
  st_IsCoinBase :: bool

definition stxo_of :: "UtxoEntry \<Rightarrow> SpentTxOut" where
  "stxo_of e = \<lparr>st_Amount = amount e, st_PkScript = pkScript e, st_Height = blockHeight e, st_IsCoinBase = entry_IsCoinBase e\<rparr>"

text \<open>The spent outputs are collected when the caller asks for them.\<close>

fun spend_inputs :: "TxIn list \<Rightarrow> UtxoViewpoint \<Rightarrow> SpentTxOut list option \<Rightarrow> (UtxoViewpoint \<times> SpentTxOut list option) outcome" where
  "spend_inputs [] view stxos = Ok (view, stxos)"
| "spend_inputs (ti # tis) view stxos =
     (case LookupEntry view (PreviousOutPoint ti) of
        None \<Rightarrow> Err ''view missing input''
      | Some e \<Rightarrow> spend_inputs tis (put_entry (PreviousOutPoint ti) (Some (Spend e)) view) (map_option (\<lambda>s. s @ [stxo_of e]) stxos))"

definition connectTransaction ::
  "(bytes \<Rightarrow> bytes) \<Rightarrow> MsgTx \<Rightarrow> int \<Rightarrow> UtxoViewpoint \<Rightarrow> SpentTxOut list option \<Rightarrow> (UtxoViewpoint \<times> SpentTxOut list option) outcome" where
  "connectTransaction sha t height view stxos =
     (if IsCoinBase t then Ok (AddTxOuts sha t height view, stxos)
      else bind (spend_inputs (TxIns t) view stxos) (\<lambda>(view', stxos'). Ok (AddTxOuts sha t height view', stxos')))"

text \<open>A block with its height.\<close>

record Block =
  msgBlock :: MsgBlock
  blk_Height :: int

definition block_txs :: "Block \<Rightarrow> MsgTx list" where
  "block_txs block = Transactions (msgBlock block)"

definition block_Hash :: "(bytes \<Rightarrow> bytes) \<Rightarrow> Block \<Rightarrow> bytes" where
  "block_Hash sha block = BlockHash sha (Header (msgBlock block))"

fun connect_txs ::
  "(bytes \<Rightarrow> bytes) \<Rightarrow> int \<Rightarrow> MsgTx list \<Rightarrow> UtxoViewpoint \<Rightarrow> SpentTxOut list option \<Rightarrow> (UtxoViewpoint \<times> SpentTxOut list option) outcome" where
  "connect_txs sha height [] view stxos = Ok (view, stxos)"
| "connect_txs sha height (t # ts) view stxos =
     bind (connectTransaction sha t height view stxos) (\<lambda>(view', stxos'). connect_txs sha height ts view' stxos')"

definition connectTransactions ::
  "(bytes \<Rightarrow> bytes) \<Rightarrow> Block \<Rightarrow> UtxoViewpoint \<Rightarrow> SpentTxOut list option \<Rightarrow> (UtxoViewpoint \<times> SpentTxOut list option) outcome" where
  "connectTransactions sha block view stxos =
     bind (connect_txs sha (blk_Height block) (block_txs block) view stxos) (\<lambda>(view', stxos').
       Ok (SetBestHash (block_Hash sha block) view', stxos'))"

section \<open>Disconnecting\<close>

text \<open>\<^verbatim>\<open>block.Transactions()[1:]\<close> panics on an empty block.\<close>

definition countSpentOutputs :: "Block \<Rightarrow> nat outcome" where
  "countSpentOutputs block =
     bind (slice (block_txs block) 1 (length (block_txs block))) (\<lambda>ts. Ok (sum_list (map (\<lambda>t. length (TxIns t)) ts)))"

abbreviation (input) MaxOutputsPerBlock :: nat where "MaxOutputsPerBlock \<equiv> 111111"

text \<open>The first entry of a transaction in the view, or what the database has for it.\<close>

definition fetchEntryByHash :: "(bytes \<Rightarrow> UtxoEntry option outcome) \<Rightarrow> bytes \<Rightarrow> UtxoViewpoint \<Rightarrow> UtxoEntry option outcome" where
  "fetchEntryByHash db h view =
     (case List.find (\<lambda>idx. LookupEntry view (h, idx) \<noteq> None) [0 ..< MaxOutputsPerBlock] of
        Some idx \<Rightarrow> Ok (LookupEntry view (h, idx))
      | None \<Rightarrow> db h)"

definition mark_output :: "(bytes \<Rightarrow> bytes) \<Rightarrow> MsgTx \<Rightarrow> int \<Rightarrow> byte \<Rightarrow> UtxoViewpoint \<Rightarrow> nat \<times> TxOut \<Rightarrow> UtxoViewpoint" where
  "mark_output sha t height fl view = (\<lambda>(txOutIdx, txOut).
     if IsUnspendable (PkScript txOut) then view
     else let op = (TxHash sha t, txOutIdx);
              e = (case LookupEntry view op of
                     Some e \<Rightarrow> e
                   | None \<Rightarrow> \<lparr>amount = out_Value txOut, pkScript = PkScript txOut, blockHeight = height, packedFlags = fl\<rparr>)
          in put_entry op (Some (Spend e)) view)"

text \<open>The inputs and the spent outputs are both taken from their ends.\<close>

fun unspend_inputs ::
  "(bytes \<Rightarrow> UtxoEntry option outcome) \<Rightarrow> bytes \<Rightarrow> TxIn list \<Rightarrow> SpentTxOut list \<Rightarrow> UtxoViewpoint \<Rightarrow>
     (UtxoViewpoint \<times> SpentTxOut list) outcome" where
  "unspend_inputs db txHash [] rest view = Ok (view, rest)"
| "unspend_inputs db txHash (ti # tis) [] view = Panic ''index out of range''"
| "unspend_inputs db txHash (ti # tis) (stxo # rest) view =
     (let op = PreviousOutPoint ti
      in bind (if st_Height stxo = 0
               then bind (fetchEntryByHash db txHash (case LookupEntry view op of Some _ \<Rightarrow> view
                       | None \<Rightarrow> put_entry op (Some \<lparr>amount = 0, pkScript = [], blockHeight = 0, packedFlags = 0\<rparr>) view)) (\<lambda>utxo.
                    case utxo of
                      None \<Rightarrow> Err ''unable to resurrect legacy stxo''
                    | Some u \<Rightarrow> Ok (stxo\<lparr>st_Height := blockHeight u, st_IsCoinBase := entry_IsCoinBase u\<rparr>))
               else Ok stxo) (\<lambda>s.
         unspend_inputs db txHash tis rest
           (put_entry op (Some \<lparr>amount = st_Amount s, pkScript = st_PkScript s, blockHeight = st_Height s,
              packedFlags = tfModified OR (if st_IsCoinBase s then tfCoinBase else 0)\<rparr>) view)))"

text \<open>The loop over the transactions, last first; the lists are reversed.  The last one is at index 0.\<close>

fun disconnect_txs ::
  "(bytes \<Rightarrow> bytes) \<Rightarrow> (bytes \<Rightarrow> UtxoEntry option outcome) \<Rightarrow> int \<Rightarrow> MsgTx list \<Rightarrow> SpentTxOut list \<Rightarrow> UtxoViewpoint \<Rightarrow> UtxoViewpoint outcome" where
  "disconnect_txs sha db height [] stxos view = Ok view"
| "disconnect_txs sha db height (t # ts) stxos view =
     (let isCoinBase = (ts = []);
          view1 = foldl (mark_output sha t height (if isCoinBase then tfCoinBase else 0)) view (enumerate 0 (TxOuts t))
      in if isCoinBase then disconnect_txs sha db height ts stxos view1
         else bind (unspend_inputs db (TxHash sha t) (rev (TxIns t)) stxos view1) (\<lambda>(view2, stxos').
              disconnect_txs sha db height ts stxos' view2))"

definition disconnectTransactions ::
  "(bytes \<Rightarrow> bytes) \<Rightarrow> (bytes \<Rightarrow> UtxoEntry option outcome) \<Rightarrow> Block \<Rightarrow> SpentTxOut list \<Rightarrow> UtxoViewpoint \<Rightarrow> UtxoViewpoint outcome" where
  "disconnectTransactions sha db block stxos view =
     bind (countSpentOutputs block) (\<lambda>n.
       if length stxos \<noteq> n then Err ''disconnectTransactions called with bad spent transaction out information''
       else bind (disconnect_txs sha db (blk_Height block) (rev (block_txs block)) (rev stxos) view) (\<lambda>view'.
            Ok (SetBestHash (PrevBlock (Header (msgBlock block))) view')))"

section \<open>Loading\<close>

text \<open>The set of unspent outputs behind the view: the cache in front of the database.\<close>

type_synonym utxo_source = "outpoint \<Rightarrow> UtxoEntry option outcome"

fun fetchUtxosFromCache :: "utxo_source \<Rightarrow> outpoint list \<Rightarrow> UtxoViewpoint \<Rightarrow> UtxoViewpoint outcome" where
  "fetchUtxosFromCache cache [] view = Ok view"
| "fetchUtxosFromCache cache (op # ops) view =
     bind (cache op) (\<lambda>e. fetchUtxosFromCache cache ops (put_entry op e view))"

definition fetchUtxos :: "utxo_source \<Rightarrow> outpoint list \<Rightarrow> UtxoViewpoint \<Rightarrow> UtxoViewpoint outcome" where
  "fetchUtxos cache ops view = fetchUtxosFromCache cache (filter (\<lambda>op. entries view op = None) ops) view"

text \<open>The index of the last transaction with a hash: later ones overwrite earlier ones in the map.\<close>

definition txInFlight :: "(bytes \<Rightarrow> bytes) \<Rightarrow> MsgTx list \<Rightarrow> bytes \<rightharpoonup> nat" where
  "txInFlight sha ts = foldl (\<lambda>m (i, t). m(TxHash sha t \<mapsto> i)) Map.empty (enumerate 0 ts)"

fun find_inputs ::
  "(bytes \<Rightarrow> bytes) \<Rightarrow> MsgTx list \<Rightarrow> int \<Rightarrow> nat \<Rightarrow> TxIn list \<Rightarrow> UtxoViewpoint \<Rightarrow> outpoint list \<Rightarrow> UtxoViewpoint \<times> outpoint list" where
  "find_inputs sha txs height i [] view needed = (view, needed)"
| "find_inputs sha txs height i (ti # tis) view needed =
     (let op = PreviousOutPoint ti
      in case txInFlight sha txs (fst op) of
           Some inFlightIndex \<Rightarrow>
             if i \<ge> inFlightIndex then find_inputs sha txs height i tis (AddTxOuts sha (txs ! inFlightIndex) height view) needed
             else if entries view op \<noteq> None then find_inputs sha txs height i tis view needed
             else find_inputs sha txs height i tis view (needed @ [op])
         | None \<Rightarrow>
             if entries view op \<noteq> None then find_inputs sha txs height i tis view needed
             else find_inputs sha txs height i tis view (needed @ [op]))"

fun find_loop ::
  "(bytes \<Rightarrow> bytes) \<Rightarrow> MsgTx list \<Rightarrow> int \<Rightarrow> nat \<Rightarrow> MsgTx list \<Rightarrow> UtxoViewpoint \<Rightarrow> outpoint list \<Rightarrow> UtxoViewpoint \<times> outpoint list" where
  "find_loop sha txs height i [] view needed = (view, needed)"
| "find_loop sha txs height i (t # ts) view needed =
     (let (view', needed') = find_inputs sha txs height i (TxIns t) view needed
      in find_loop sha txs height (i + 1) ts view' needed')"

definition findInputsToFetch :: "(bytes \<Rightarrow> bytes) \<Rightarrow> Block \<Rightarrow> UtxoViewpoint \<Rightarrow> (UtxoViewpoint \<times> outpoint list) outcome" where
  "findInputsToFetch sha block view =
     bind (slice (block_txs block) 1 (length (block_txs block))) (\<lambda>ts.
       Ok (find_loop sha (block_txs block) (blk_Height block) 0 ts view []))"

definition fetchInputUtxos :: "(bytes \<Rightarrow> bytes) \<Rightarrow> utxo_source \<Rightarrow> Block \<Rightarrow> UtxoViewpoint \<Rightarrow> UtxoViewpoint outcome" where
  "fetchInputUtxos sha cache block view =
     bind (findInputsToFetch sha block view) (\<lambda>(view', needed). fetchUtxosFromCache cache needed view')"

definition FetchUtxoView :: "(bytes \<Rightarrow> bytes) \<Rightarrow> utxo_source \<Rightarrow> MsgTx \<Rightarrow> UtxoViewpoint outcome" where
  "FetchUtxoView sha cache t =
     fetchUtxosFromCache cache
       (map (\<lambda>i. (TxHash sha t, i)) [0 ..< length (TxOuts t)] @ (if IsCoinBase t then [] else map PreviousOutPoint (TxIns t)))
       NewUtxoViewpoint"

definition FetchUtxoEntry :: "utxo_source \<Rightarrow> outpoint \<Rightarrow> UtxoEntry option outcome" where
  "FetchUtxoEntry cache op = cache op"

section \<open>The set of unspent outputs\<close>

text \<open>
  What a view means, given the set of unspent outputs behind it: the coins that can still be spent.
  The operations of the view refine operations on this map.
\<close>

type_synonym utxo_set = "outpoint \<rightharpoonup> SpentTxOut"

definition live :: "UtxoEntry option \<Rightarrow> SpentTxOut option" where
  "live e = (case e of Some e \<Rightarrow> if IsSpent e then None else Some (stxo_of e) | None \<Rightarrow> None)"

definition unspent :: "utxo_set \<Rightarrow> UtxoViewpoint \<Rightarrow> utxo_set" where
  "unspent base view op = (case entries view op of None \<Rightarrow> base op | Some e \<Rightarrow> live e)"

definition inputs :: "MsgTx \<Rightarrow> outpoint list" where
  "inputs t = map PreviousOutPoint (TxIns t)"

definition outputs :: "(bytes \<Rightarrow> bytes) \<Rightarrow> MsgTx \<Rightarrow> int \<Rightarrow> utxo_set" where
  "outputs sha t height op =
     (if fst op = TxHash sha t \<and> snd op < length (TxOuts t) \<and> \<not> IsUnspendable (PkScript (TxOuts t ! snd op))
      then Some \<lparr>st_Amount = out_Value (TxOuts t ! snd op), st_PkScript = PkScript (TxOuts t ! snd op), st_Height = height,
                 st_IsCoinBase = IsCoinBase t\<rparr>
      else None)"

definition apply_tx :: "(bytes \<Rightarrow> bytes) \<Rightarrow> int \<Rightarrow> utxo_set \<Rightarrow> MsgTx \<Rightarrow> utxo_set" where
  "apply_tx sha height U t = (if IsCoinBase t then U else U |` (- set (inputs t))) ++ outputs sha t height"

lemma Spend_simps [simp]: "IsSpent (Spend e)" "stxo_of (Spend e) = stxo_of e"
proof -
  have "(f OR (2 OR 4)) AND 2 = 2" "(f OR (2 OR 4)) AND 1 = f AND 1" for f :: byte
    by (auto intro!: bit_eqI simp: bit_simps)
  then show "IsSpent (Spend e)" "stxo_of (Spend e) = stxo_of e"
    by (auto simp: Spend_def IsSpent_def stxo_of_def entry_IsCoinBase_def)
qed

lemma live_simps [simp]: "live None = None" "live (Some (Spend e)) = None"
  by (simp_all add: live_def)

lemma unspent_put [simp]: "unspent base (put_entry op e view) = (unspent base view)(op := live e)"
  by (rule ext) (simp add: unspent_def put_entry_def)

lemma live_new:
  "live (Some \<lparr>amount = a, pkScript = p, blockHeight = h, packedFlags = tfModified OR (if c then tfCoinBase else 0)\<rparr>) =
     Some \<lparr>st_Amount = a, st_PkScript = p, st_Height = h, st_IsCoinBase = c\<rparr>"
  "live (Some \<lparr>amount = a, pkScript = p, blockHeight = h, packedFlags = (tfFresh OR tfModified) OR (if c then tfCoinBase else 0)\<rparr>) =
     Some \<lparr>st_Amount = a, st_PkScript = p, st_Height = h, st_IsCoinBase = c\<rparr>"
  by (simp_all add: live_def IsSpent_def entry_IsCoinBase_def stxo_of_def)

lemma unspent_addTxOut:
  "unspent base (addTxOut op out c height view) =
     (if IsUnspendable (PkScript out) then unspent base view
      else (unspent base view)(op \<mapsto> \<lparr>st_Amount = out_Value out, st_PkScript = PkScript out, st_Height = height, st_IsCoinBase = c\<rparr>))"
  unfolding addTxOut_def unspent_put if_distrib [of "unspent base"] live_new ..

text \<open>Both loops over the outputs of a transaction change the coins from an index on.\<close>

lemma unspent_add_loop:
  "unspent base (foldl (\<lambda>view (i, out). addTxOut (h, i) out c height view) view (enumerate k us)) op =
     (if fst op = h \<and> k \<le> snd op \<and> snd op < k + length us \<and> \<not> IsUnspendable (PkScript (us ! (snd op - k)))
      then Some \<lparr>st_Amount = out_Value (us ! (snd op - k)), st_PkScript = PkScript (us ! (snd op - k)), st_Height = height,
                 st_IsCoinBase = c\<rparr>
      else unspent base view op)"
proof (induction us arbitrary: k view)
  case (Cons u us)
  then show ?case
    by (cases op) (auto simp: unspent_addTxOut nth_Cons' Suc_le_eq)
qed auto

lemma unspent_AddTxOuts: "unspent base (AddTxOuts sha t height view) = unspent base view ++ outputs sha t height"
  by (rule ext) (auto simp: AddTxOuts_def unspent_add_loop outputs_def map_add_def split: option.splits)

lemma unspent_mark_loop:
  "unspent base (foldl (mark_output sha t height fl) view (enumerate k us)) op =
     (if fst op = TxHash sha t \<and> k \<le> snd op \<and> snd op < k + length us \<and> \<not> IsUnspendable (PkScript (us ! (snd op - k)))
      then None else unspent base view op)"
proof (induction us arbitrary: k view)
  case (Cons u us)
  then show ?case
    by (cases op) (auto simp: mark_output_def nth_Cons' Suc_le_eq Let_def)
qed auto

lemma unspent_mark:
  "unspent base (foldl (mark_output sha t height fl) view (enumerate 0 (TxOuts t))) = unspent base view |` (- dom (outputs sha t height'))"
  by (rule ext) (auto simp: unspent_mark_loop outputs_def restrict_map_def dom_def)

text \<open>Spending the inputs takes their coins out of the set and records them.\<close>

lemma spend_inputs_view:
  assumes "spend_inputs tis view s = Ok (view', s')"
  shows "unspent base view' = unspent base view |` (- set (map PreviousOutPoint tis))"
  using assms
proof (induction tis arbitrary: view s)
  case (Cons ti tis)
  then obtain e where "spend_inputs tis (put_entry (PreviousOutPoint ti) (Some (Spend e)) view) (map_option (\<lambda>s. s @ [stxo_of e]) s) = Ok (view', s')"
    by (auto split: option.splits)
  from Cons.IH [OF this] show ?case
    by (auto simp: restrict_map_def)
qed (simp add: restrict_map_def)

lemma spend_inputs_stxos:
  assumes "spend_inputs tis view (Some s) = Ok (view', s')" and "distinct (map PreviousOutPoint tis)"
    and "set (map PreviousOutPoint tis) \<subseteq> dom (unspent base view)"
  shows "s' = Some (s @ map (\<lambda>ti. the (unspent base view (PreviousOutPoint ti))) tis)"
  using assms
proof (induction tis arbitrary: view s)
  case (Cons ti tis)
  then obtain e where e: "LookupEntry view (PreviousOutPoint ti) = Some e"
      and rest: "spend_inputs tis (put_entry (PreviousOutPoint ti) (Some (Spend e)) view) (Some (s @ [stxo_of e])) = Ok (view', s')"
    by (auto split: option.splits)
  have "unspent base view (PreviousOutPoint ti) = live (Some e)"
    using e by (auto simp: unspent_def LookupEntry_def split: option.splits)
  then have "unspent base view (PreviousOutPoint ti) = Some (stxo_of e)"
    using Cons.prems(3) by (auto simp: live_def split: if_splits)
  moreover have "s' = Some ((s @ [stxo_of e]) @
      map (\<lambda>x. the (unspent base (put_entry (PreviousOutPoint ti) (Some (Spend e)) view) (PreviousOutPoint x))) tis)"
  proof (rule Cons.IH [OF rest])
    show "set (map PreviousOutPoint tis) \<subseteq> dom (unspent base (put_entry (PreviousOutPoint ti) (Some (Spend e)) view))"
      unfolding unspent_put live_simps dom_fun_upd using Cons.prems(2,3) by (simp add: subset_Diff_insert)
  qed (use Cons.prems(2) in simp)
  moreover have "map (\<lambda>x. the (((unspent base view)(PreviousOutPoint ti := None)) (PreviousOutPoint x))) tis =
      map (\<lambda>x. the (unspent base view (PreviousOutPoint x))) tis"
    using Cons.prems(2) by (auto simp: image_iff)
  ultimately show ?case
    by simp
qed simp

lemma connectTransaction_view:
  "connectTransaction sha t height view s = Ok (view', s') \<Longrightarrow> unspent base view' = apply_tx sha height (unspent base view) t"
  by (auto simp: connectTransaction_def apply_tx_def inputs_def unspent_AddTxOuts bind_Ok_iff spend_inputs_view split: if_splits)

lemma connect_txs_view:
  "connect_txs sha height ts view s = Ok (view', s') \<Longrightarrow> unspent base view' = foldl (apply_tx sha height) (unspent base view) ts"
proof (induction ts arbitrary: view s)
  case (Cons t ts)
  then show ?case
    by (auto simp: bind_Ok_iff connectTransaction_view)
qed simp

section \<open>Undoing a block\<close>

text \<open>
  A transaction that spends different existing coins of known height and creates only new ones.
\<close>

definition tx_fits :: "(bytes \<Rightarrow> bytes) \<Rightarrow> int \<Rightarrow> utxo_set \<Rightarrow> MsgTx \<Rightarrow> bool" where
  "tx_fits sha height U t \<longleftrightarrow> dom (outputs sha t height) \<inter> dom U = {} \<and>
     (\<not> IsCoinBase t \<longrightarrow> distinct (inputs t) \<and> (\<forall>op \<in> set (inputs t). \<exists>c. U op = Some c \<and> st_Height c \<noteq> 0))"

fun txs_fit :: "(bytes \<Rightarrow> bytes) \<Rightarrow> int \<Rightarrow> utxo_set \<Rightarrow> MsgTx list \<Rightarrow> bool" where
  "txs_fit sha height U [] = True"
| "txs_fit sha height U (t # ts) \<longleftrightarrow> tx_fits sha height U t \<and> txs_fit sha height (apply_tx sha height U t) ts"

lemma txs_fit_snoc:
  "txs_fit sha height U (ts @ [t]) \<longleftrightarrow> txs_fit sha height U ts \<and> tx_fits sha height (foldl (apply_tx sha height) U ts) t"
  by (induction ts arbitrary: U) simp_all

lemma connect_txs_snoc:
  "connect_txs sha height (ts @ [t]) view s =
     bind (connect_txs sha height ts view s) (\<lambda>(view', s'). connectTransaction sha t height view' s')"
proof (induction ts arbitrary: view s)
  case Nil
  then show ?case
    by (cases "connectTransaction sha t height view s") (auto simp: split_def)
next
  case (Cons u ts)
  then show ?case
    by (cases "connectTransaction sha u height view s") (auto simp: split_def)
qed

lemma unspend_inputs_view:
  assumes "length stxos = length tis" and "\<forall>c \<in> set stxos. st_Height c \<noteq> 0"
  shows "\<exists>view'. unspend_inputs db h tis (stxos @ rest) view = Ok (view', rest) \<and>
    unspent base view' = unspent base view ++ map_of (rev (zip (map PreviousOutPoint tis) stxos))"
  using assms
proof (induction tis stxos arbitrary: view rule: list_induct2')
  case (4 ti tis c stxos)
  let ?view = "put_entry (PreviousOutPoint ti) (Some \<lparr>amount = st_Amount c, pkScript = st_PkScript c, blockHeight = st_Height c,
      packedFlags = tfModified OR (if st_IsCoinBase c then tfCoinBase else 0)\<rparr>) view"
  have "length stxos = length tis" "\<forall>c \<in> set stxos. st_Height c \<noteq> 0"
    using 4(2,3) by simp_all
  from "4.IH" [OF this, of ?view]
  obtain view' where "unspend_inputs db h tis (stxos @ rest) ?view = Ok (view', rest)"
      "unspent base view' = unspent base ?view ++ map_of (rev (zip (map PreviousOutPoint tis) stxos))"
    by blast
  moreover have "unspent base ?view = (unspent base view)(PreviousOutPoint ti \<mapsto> c)"
    unfolding unspent_put live_new by (cases c) simp
  ultimately show ?case
    using 4 by (auto simp: Let_def)
qed simp_all

lemma undo_tx:
  assumes "tx_fits sha height U t" and "\<not> IsCoinBase t"
  shows "(apply_tx sha height U t |` (- dom (outputs sha t height))) ++
    map_of (rev (zip (rev (inputs t)) (rev (map (\<lambda>op. the (U op)) (inputs t))))) = U"
proof -
  have zip: "rev (zip (rev (inputs t)) (rev (map (\<lambda>op. the (U op)) (inputs t)))) = map (\<lambda>op. (op, the (U op))) (inputs t)"
    by (simp add: zip_rev zip_map2 zip_same_conv_map comp_def)
  have new: "outputs sha t height op = None" if "U op = Some c" for op c
    using assms(1) that unfolding tx_fits_def by (metis disjoint_iff domI option.exhaust)
  show ?thesis
  proof (rule ext)
    fix op
    show "((apply_tx sha height U t |` (- dom (outputs sha t height))) ++
        map_of (rev (zip (rev (inputs t)) (rev (map (\<lambda>op. the (U op)) (inputs t)))))) op = U op"
      unfolding zip map_of_map_restrict using assms new [of op]
      by (cases "U op") (auto simp: tx_fits_def apply_tx_def map_add_def restrict_map_def split: option.splits)
  qed
qed

lemma undo_coinbase: "tx_fits sha height U t \<Longrightarrow> IsCoinBase t \<Longrightarrow> apply_tx sha height U t |` (- dom (outputs sha t height)) = U"
  by (rule ext) (auto simp: tx_fits_def apply_tx_def map_add_def restrict_map_def dom_def disjoint_iff split: option.splits)

lemma unspend_tx:
  assumes "tx_fits sha height U t" and "\<not> IsCoinBase t" and "unspent base view = apply_tx sha height U t |` (- dom (outputs sha t height))"
  shows "\<exists>view'. unspend_inputs db h (rev (TxIns t)) (rev (map (\<lambda>op. the (U op)) (inputs t)) @ rest) view = Ok (view', rest) \<and>
    unspent base view' = U"
proof -
  have "\<forall>c \<in> set (rev (map (\<lambda>op. the (U op)) (inputs t))). st_Height c \<noteq> 0"
    using assms(1,2) by (force simp: tx_fits_def)
  from unspend_inputs_view [OF _ this, of "rev (TxIns t)" db h rest view base]
  show ?thesis
    using undo_tx [OF assms(1,2)] assms(3) by (simp add: inputs_def rev_map [symmetric])
qed

lemma spend_inputs_option: "spend_inputs tis view s = Ok (view', s') \<Longrightarrow> s' = None \<longleftrightarrow> s = None"
  by (induction tis view s rule: spend_inputs.induct) (auto split: option.splits)

lemma connectTransaction_option: "connectTransaction sha t height view s = Ok (view', s') \<Longrightarrow> s' = None \<longleftrightarrow> s = None"
  by (auto simp: connectTransaction_def bind_Ok_iff dest: spend_inputs_option split: if_splits)

lemma connectTransaction_stxos:
  assumes "connectTransaction sha t height view (Some s) = Ok (view', Some stxos)" and "tx_fits sha height (unspent base view) t"
    and "\<not> IsCoinBase t"
  shows "stxos = s @ map (\<lambda>op. the (unspent base view op)) (inputs t)"
proof -
  obtain v where "spend_inputs (TxIns t) view (Some s) = Ok (v, Some stxos)"
    using assms(1,3) by (auto simp: connectTransaction_def bind_Ok_iff)
  moreover have "distinct (map PreviousOutPoint (TxIns t))" "set (map PreviousOutPoint (TxIns t)) \<subseteq> dom (unspent base view)"
    using assms(2,3) by (auto simp: tx_fits_def inputs_def)
  ultimately show ?thesis
    using spend_inputs_stxos [of "TxIns t" view s v "Some stxos" base] by (simp add: inputs_def comp_def)
qed

lemma undo_txs:
  assumes "connect_txs sha height (cb # ts) view (Some []) = Ok (view', Some stxos)"
    and "txs_fit sha height (unspent base view) (cb # ts)" and "IsCoinBase cb" and "list_all (\<lambda>t. \<not> IsCoinBase t) ts"
    and "unspent base2 view2 = unspent base view'"
  shows "length stxos = sum_list (map (\<lambda>t. length (TxIns t)) ts) \<and>
    (\<exists>view3. disconnect_txs sha db height (rev (cb # ts)) (rev stxos) view2 = Ok view3 \<and> unspent base2 view3 = unspent base view)"
  using assms
proof (induction ts arbitrary: view' stxos view2 rule: rev_induct)
  case Nil
  then show ?case
    using undo_coinbase [of sha height "unspent base view" cb] connectTransaction_view [of sha cb height view "Some []" view' "Some stxos" base]
    by (auto simp: connectTransaction_def unspent_mark [where height' = height] Let_def)
next
  case (snoc t ts)
  let ?U = "foldl (apply_tx sha height) (unspent base view) (cb # ts)"
  obtain v s where v: "connect_txs sha height (cb # ts) view (Some []) = Ok (v, s)"
      and t: "connectTransaction sha t height v s = Ok (view', Some stxos)"
    using snoc.prems(1) unfolding append_Cons [symmetric] connect_txs_snoc by (auto simp: bind_Ok_iff)
  obtain s' where s: "s = Some s'"
    using connectTransaction_option [OF t] by auto
  have cb: "\<not> IsCoinBase t" and old: "list_all (\<lambda>t. \<not> IsCoinBase t) ts"
    using snoc.prems(4) by simp_all
  have U: "unspent base v = ?U"
    using connect_txs_view [OF v] .
  have fit: "txs_fit sha height (unspent base view) (cb # ts)" "tx_fits sha height ?U t"
    using snoc.prems(2) unfolding append_Cons [symmetric] txs_fit_snoc by simp_all
  have stxos: "stxos = s' @ map (\<lambda>op. the (?U op)) (inputs t)"
    using connectTransaction_stxos [OF t [unfolded s], of base] fit(2) cb by (simp add: U)
  let ?view = "foldl (mark_output sha t height 0) view2 (enumerate 0 (TxOuts t))"
  have "unspent base2 ?view = apply_tx sha height ?U t |` (- dom (outputs sha t height))"
    using connectTransaction_view [OF t, of base] snoc.prems(5) by (simp add: unspent_mark [where height' = height] U)
  from unspend_tx [OF fit(2) cb this, of db "TxHash sha t" "rev s'"]
  obtain view3 where "unspend_inputs db (TxHash sha t) (rev (TxIns t)) (rev stxos) ?view = Ok (view3, rev s')"
      and "unspent base2 view3 = unspent base v"
    unfolding stxos U by auto
  with snoc.IH [OF v [unfolded s] fit(1) snoc.prems(3) old, of view3] show ?case
    using stxos by (auto simp: inputs_def Let_def)
qed

text \<open>
  Disconnecting a block undoes connecting it.  When every transaction of a block spends
  different existing coins of known height and creates only new ones, the spent outputs that
  connecting the block collects let \<^verbatim>\<open>disconnectTransactions\<close> succeed on any view of the resulting
  set of unspent outputs, whatever the database behind it answers, and the set is again the one
  before the block.
\<close>

theorem disconnect_undoes_connect:
  assumes "connectTransactions sha block view (Some []) = Ok (view', Some stxos)"
    and "block_txs block = cb # ts" and "IsCoinBase cb" and "list_all (\<lambda>t. \<not> IsCoinBase t) ts"
    and "txs_fit sha (blk_Height block) (unspent base view) (cb # ts)"
    and "unspent base2 view2 = unspent base view'"
  shows "\<exists>view3. disconnectTransactions sha db block stxos view2 = Ok view3 \<and> unspent base2 view3 = unspent base view \<and>
    bestHash view3 = PrevBlock (Header (msgBlock block))"
proof -
  obtain v where v: "connect_txs sha (blk_Height block) (cb # ts) view (Some []) = Ok (v, Some stxos)"
      and view': "view' = SetBestHash (block_Hash sha block) v"
    using assms(1,2) by (auto simp: connectTransactions_def bind_Ok_iff)
  have "unspent base2 view2 = unspent base v"
    using assms(6) unfolding view' by (simp add: unspent_def SetBestHash_def fun_eq_iff)
  from undo_txs [OF v assms(5,3,4) this, of db] show ?thesis
    by (auto simp: disconnectTransactions_def countSpentOutputs_def assms(2) slice_def SetBestHash_def unspent_def fun_eq_iff)
qed

text \<open>A block of a coinbase and one spend, on a set with one coin.\<close>

definition coin_tx :: "outpoint \<Rightarrow> int \<Rightarrow> MsgTx" where
  "coin_tx op v = \<lparr>Version = 1, TxIns = [\<lparr>PreviousOutPoint = op, SignatureScript = [0x51, 0x51], Witness = [], Sequence = 0\<rparr>],
     TxOuts = [\<lparr>out_Value = v, PkScript = [0x51]\<rparr>], LockTime = 0\<rparr>"

definition sample_base :: utxo_set where
  "sample_base = [(replicate 32 7, 0) \<mapsto> \<lparr>st_Amount = 5, st_PkScript = [0x51], st_Height = 1, st_IsCoinBase = False\<rparr>]"

definition sample_view :: UtxoViewpoint where
  "sample_view = put_entry (replicate 32 7, 0) (Some \<lparr>amount = 5, pkScript = [0x51], blockHeight = 1, packedFlags = 0\<rparr>) NewUtxoViewpoint"

definition sample_block :: Block where
  "sample_block = \<lparr>msgBlock = \<lparr>Header = sample_header, Transactions =
     [coin_tx (replicate 32 0, 2 ^ 32 - 1) 50, coin_tx (replicate 32 7, 0) 4]\<rparr>, blk_Height = 2\<rparr>"

lemma coin_tx_simps [simp]:
  "inputs (coin_tx op v) = [op]" "TxIns (coin_tx op v) = [\<lparr>PreviousOutPoint = op, SignatureScript = [0x51, 0x51], Witness = [], Sequence = 0\<rparr>]"
  "TxOuts (coin_tx op v) = [\<lparr>out_Value = v, PkScript = [0x51]\<rparr>]" "IsCoinBase (coin_tx op v) = isNullOutpoint op"
  by (simp_all add: inputs_def coin_tx_def IsCoinBase_def)

lemma spendable_true: "\<not> IsUnspendable [0x51]"
  by code_simp

lemma coin_hash: "\<exists>r. TxHash id (coin_tx op v) = [1, 0, 0, 0, 1] @ fst op @ r"
proof -
  have "uint32_bytes 1 = [1, 0, 0, 0]" "WriteVarInt (Suc 0) = [1]"
    by (simp_all add: uint32_bytes_def WriteVarInt_def le_bytes_map upt_rec)
  then show ?thesis
    by (simp add: TxHash_def SerializeNoWitness_def btcEncode_def coin_tx_def writeTxIn_def writeOutPoint_def)
qed

lemma coin_hash_hd: "hd (TxHash id (coin_tx op v)) = 1"
  using coin_hash [of op v] by auto

lemma coin_hash_other: "TxHash id (coin_tx op v) \<noteq> replicate 32 7"
proof
  assume "TxHash id (coin_tx op v) = replicate 32 7"
  then show False
    using arg_cong [of _ _ hd] coin_hash_hd [of op v] by fastforce
qed

lemma coin_hash_inj:
  assumes "length (fst op) = length (fst op')" and "fst op \<noteq> fst op'"
  shows "TxHash id (coin_tx op v) \<noteq> TxHash id (coin_tx op' v')"
  using coin_hash [of op v] coin_hash [of op' v'] assms by auto

lemma sample_hashes:
  "TxHash id (coin_tx (replicate 32 0, 4294967295) 50) \<noteq> replicate 32 7" "TxHash id (coin_tx (replicate 32 7, 0) 4) \<noteq> replicate 32 7"
  "TxHash id (coin_tx (replicate 32 7, 0) 4) \<noteq> TxHash id (coin_tx (replicate 32 0, 4294967295) 50)"
  by (rule coin_hash_other)+ (rule coin_hash_inj, simp_all)

lemma null_outpoints: "isNullOutpoint (replicate 32 0, 4294967295)" "\<not> isNullOutpoint (replicate 32 7, 0)"
  by (simp_all add: isNullOutpoint_def)

lemma sample_unspent: "unspent sample_base sample_view = sample_base"
  by (rule ext) (simp add: sample_view_def unspent_def put_entry_def NewUtxoViewpoint_def sample_base_def live_def IsSpent_def stxo_of_def
      entry_IsCoinBase_def)

lemma sample_block_fits:
  "txs_fit id 2 sample_base [coin_tx (replicate 32 0, 2 ^ 32 - 1) 50, coin_tx (replicate 32 7, 0) 4]"
  using sample_hashes spendable_true
  by (auto simp: tx_fits_def apply_tx_def null_outpoints outputs_def sample_base_def dom_def disjoint_iff map_add_def split: if_splits)

lemma sample_connects:
  "\<exists>view' stxos. connectTransactions id sample_block sample_view (Some []) = Ok (view', Some stxos)"
  using sample_hashes spendable_true
  by (simp add: connectTransactions_def sample_block_def block_txs_def connectTransaction_def null_outpoints LookupEntry_def
      sample_view_def put_entry_def NewUtxoViewpoint_def AddTxOuts_def addTxOut_def)

theorem disconnect_undoes_connect_witness:
  "\<exists>view' stxos view3. connectTransactions id sample_block sample_view (Some []) = Ok (view', Some stxos) \<and>
    disconnectTransactions id (\<lambda>_. Ok None) sample_block stxos view' = Ok view3 \<and> unspent sample_base view3 = sample_base"
proof -
  obtain view' stxos where c: "connectTransactions id sample_block sample_view (Some []) = Ok (view', Some stxos)"
    using sample_connects by blast
  then show ?thesis
    using disconnect_undoes_connect [OF c, of "coin_tx (replicate 32 0, 2 ^ 32 - 1) 50" "[coin_tx (replicate 32 7, 0) 4]" sample_base
        sample_base view' "\<lambda>_. Ok None"] sample_block_fits
    by (auto simp: sample_unspent block_txs_def sample_block_def null_outpoints)
qed

end
