(* ===== verification/Chain_Merkle.thy ===== *)
theory Chain_Merkle
  imports Chain_Utxo
begin

text \<open>
  Merkle roots (\<^verbatim>\<open>coin/OrcaNet/blockchain/merkle.go\<close> and \<^verbatim>\<open>rolling_merkle.go\<close>): the tree in a linear
  array, the rolling store that keeps one root per bit of the number of leaves, and the witness
  commitment of a block.  Both ways of computing a root are compared with the tree as it is defined,
  level by level.
\<close>

section \<open>The code\<close>

definition HashMerkleBranches :: "(bytes \<Rightarrow> bytes) \<Rightarrow> bytes \<Rightarrow> bytes \<Rightarrow> bytes" where
  "HashMerkleBranches sha left right = sha (sha (left @ right))"

subsection \<open>The tree in an array\<close>

text \<open>The logarithm is computed in floating point, which is exact far beyond the size of a block.\<close>

fun log2 :: "nat \<Rightarrow> nat" where
  "log2 n = (if n < 2 then 0 else Suc (log2 (n div 2)))"

declare log2.simps [simp del]

definition nextPowerOfTwo :: "nat \<Rightarrow> nat" where
  "nextPowerOfTwo n = (if n AND (n - 1) = 0 then n else 2 ^ (log2 n + 1))"

text \<open>The hash of the transaction at an index.\<close>

definition leaf_hash :: "(bytes \<Rightarrow> bytes) \<Rightarrow> bool \<Rightarrow> nat \<Rightarrow> MsgTx \<Rightarrow> bytes" where
  "leaf_hash sha witness i t = (if witness \<and> i = 0 then replicate 32 0 else if witness then WitnessHash sha t else TxHash sha t)"

definition parent :: "(bytes \<Rightarrow> bytes) \<Rightarrow> bytes option \<Rightarrow> bytes option \<Rightarrow> bytes option" where
  "parent sha l r = (case l of
       None \<Rightarrow> None
     | Some x \<Rightarrow> (case r of None \<Rightarrow> Some (HashMerkleBranches sha x x) | Some y \<Rightarrow> Some (HashMerkleBranches sha x y)))"

function fill_tree :: "(bytes \<Rightarrow> bytes) \<Rightarrow> nat \<Rightarrow> nat \<Rightarrow> bytes option list \<Rightarrow> bytes option list" where
  "fill_tree sha i offset merkles =
     (if i < length merkles - 1
      then fill_tree sha (i + 2) (offset + 1) (merkles[offset := parent sha (merkles ! i) (merkles ! (i + 1))])
      else merkles)"
  by auto
termination by (relation "measure (\<lambda>(sha, i, offset, merkles). length merkles - i)") auto

declare fill_tree.simps [simp del]

text \<open>Without transactions the size of the array is negative.\<close>

definition BuildMerkleTreeStore :: "(bytes \<Rightarrow> bytes) \<Rightarrow> MsgTx list \<Rightarrow> bool \<Rightarrow> bytes option list outcome" where
  "BuildMerkleTreeStore sha transactions witness =
     (let nextPoT = nextPowerOfTwo (length transactions); arraySize = nextPoT * 2 - 1
      in if transactions = [] then Panic ''makeslice: len out of range''
         else Ok (fill_tree sha 0 nextPoT
                (map (\<lambda>(i, t). Some (leaf_hash sha witness i t)) (enumerate 0 transactions) @ replicate (arraySize - length transactions) None)))"

subsection \<open>The rolling store\<close>

record rollingMerkleTreeStore =
  roots :: "bytes list"
  numLeaves :: nat

text \<open>The loop of \<^verbatim>\<open>add\<close>: \<open>n\<close> is the number of leaves shifted by the row.\<close>

function add_loop :: "(bytes \<Rightarrow> bytes) \<Rightarrow> nat \<Rightarrow> bytes list \<Rightarrow> bytes \<Rightarrow> bytes list outcome" where
  "add_loop sha n rs newRoot =
     (if n mod 2 = 1
      then if rs = [] then Panic ''index out of range''
           else add_loop sha (n div 2) (butlast rs) (HashMerkleBranches sha (last rs) newRoot)
      else Ok (rs @ [newRoot]))"
  by auto
termination by (relation "measure (\<lambda>(sha, n, rs, newRoot). n)") (auto intro!: div_less_dividend gr0I)

declare add_loop.simps [simp del]

definition roll_add :: "(bytes \<Rightarrow> bytes) \<Rightarrow> bytes \<Rightarrow> rollingMerkleTreeStore \<Rightarrow> rollingMerkleTreeStore outcome" where
  "roll_add sha h s = bind (add_loop sha (numLeaves s) (roots s) h) (\<lambda>rs. Ok \<lparr>roots = rs, numLeaves = numLeaves s + 1\<rparr>)"

fun add_leaves :: "(bytes \<Rightarrow> bytes) \<Rightarrow> bytes list \<Rightarrow> rollingMerkleTreeStore \<Rightarrow> rollingMerkleTreeStore outcome" where
  "add_leaves sha [] s = Ok s"
| "add_leaves sha (h # hs) s = bind (roll_add sha h s) (add_leaves sha hs)"

text \<open>Neither loop need end: without leaves the first one shifts zero forever.\<close>

partial_function (option) shift_rows :: "nat \<Rightarrow> nat option" where
  "shift_rows n = (if n mod 2 = 0 then shift_rows (n div 2) else Some n)"

partial_function (option) roll_up :: "(bytes \<Rightarrow> bytes) \<Rightarrow> rollingMerkleTreeStore \<Rightarrow> rollingMerkleTreeStore outcome option" where
  "roll_up sha s =
     (if length (roots s) > 1
      then Option.bind (shift_rows (numLeaves s)) (\<lambda>n.
             case roll_add sha (last (roots s)) (s\<lparr>numLeaves := n\<rparr>) of
               Ok s' \<Rightarrow> roll_up sha s'
             | Err e \<Rightarrow> Some (Err e)
             | Panic p \<Rightarrow> Some (Panic p))
      else Some (Ok s))"

definition calcMerkleRoot :: "(bytes \<Rightarrow> bytes) \<Rightarrow> MsgTx list \<Rightarrow> bool \<Rightarrow> rollingMerkleTreeStore \<Rightarrow> bytes outcome option" where
  "calcMerkleRoot sha adds witness s =
     (case add_leaves sha (map (\<lambda>(i, t). leaf_hash sha witness i t) (enumerate 0 adds)) s of
        Err e \<Rightarrow> Some (Err e) | Panic p \<Rightarrow> Some (Panic p)
      | Ok s1 \<Rightarrow>
          if numLeaves s1 = 1 then Some (index (roots s1) 0)
          else case (if adds \<noteq> [] \<and> length adds mod 2 \<noteq> 0
                     then roll_add sha (if witness then WitnessHash sha (last adds) else TxHash sha (last adds)) s1
                     else Ok s1) of
                 Err e \<Rightarrow> Some (Err e) | Panic p \<Rightarrow> Some (Panic p)
               | Ok s2 \<Rightarrow> map_option (\<lambda>r. bind r (\<lambda>s3. index (roots s3) 0)) (roll_up sha s2))"

definition CalcMerkleRoot :: "(bytes \<Rightarrow> bytes) \<Rightarrow> MsgTx list \<Rightarrow> bool \<Rightarrow> bytes outcome option" where
  "CalcMerkleRoot sha transactions witness = calcMerkleRoot sha transactions witness \<lparr>roots = [], numLeaves = 0\<rparr>"

subsection \<open>The witness commitment\<close>

definition WitnessMagicBytes :: bytes where "WitnessMagicBytes = [0x6a, 0x24, 0xaa, 0x21, 0xa9, 0xed]"

definition ExtractWitnessCommitment :: "MsgTx \<Rightarrow> bytes option" where
  "ExtractWitnessCommitment t =
     (if \<not> IsCoinBase t then None
      else case List.find (\<lambda>out. length (PkScript out) \<ge> 38 \<and> take 6 (PkScript out) = WitnessMagicBytes) (rev (TxOuts t)) of
             None \<Rightarrow> None
           | Some out \<Rightarrow> Some (take 32 (drop 6 (PkScript out))))"

definition ValidateWitnessCommitment :: "(bytes \<Rightarrow> bytes) \<Rightarrow> Block \<Rightarrow> unit outcome option" where
  "ValidateWitnessCommitment sha blk =
     (case block_txs blk of
        [] \<Rightarrow> Some (Err ''ErrNoTransactions'')
      | coinbaseTx # _ \<Rightarrow>
          if TxIns coinbaseTx = [] then Some (Err ''ErrNoTxInputs'')
          else case ExtractWitnessCommitment coinbaseTx of
            None \<Rightarrow> Some (if list_ex HasWitness (block_txs blk) then Err ''ErrUnexpectedWitness'' else Ok ())
          | Some witnessCommitment \<Rightarrow>
              (case Witness (TxIns coinbaseTx ! 0) of
                 [witnessNonce] \<Rightarrow>
                   if length witnessNonce \<noteq> 32 then Some (Err ''ErrInvalidWitnessCommitment'')
                   else map_option (\<lambda>r. bind r (\<lambda>witnessMerkleRoot.
                          if sha (sha (witnessMerkleRoot @ witnessNonce)) \<noteq> witnessCommitment
                          then Err ''ErrWitnessCommitmentMismatch'' else Ok ()))
                        (CalcMerkleRoot sha (block_txs blk) True)
               | _ \<Rightarrow> Some (Err ''ErrInvalidWitnessCommitment'')))"

section \<open>The tree, level by level\<close>

fun level :: "(bytes \<Rightarrow> bytes) \<Rightarrow> bytes list \<Rightarrow> bytes list" where
  "level sha [] = []"
| "level sha [x] = [HashMerkleBranches sha x x]"
| "level sha (x # y # xs) = HashMerkleBranches sha x y # level sha xs"

lemma length_level: "length (level sha xs) = (length xs + 1) div 2"
  by (induction sha xs rule: level.induct) auto

function merkle_root :: "(bytes \<Rightarrow> bytes) \<Rightarrow> bytes list \<Rightarrow> bytes" where
  "merkle_root sha xs = (if length xs \<le> 1 then hd xs else merkle_root sha (level sha xs))"
  by auto
termination by (relation "measure (\<lambda>(sha, xs). length xs)") (auto simp: length_level)

declare merkle_root.simps [simp del]


section \<open>The rolling store holds the tree\<close>

text \<open>The complete pairs of a row, and the roots that stand for a row: those of the pairs and the odd one.\<close>

fun pairs :: "(bytes \<Rightarrow> bytes) \<Rightarrow> bytes list \<Rightarrow> bytes list" where
  "pairs sha (x # y # xs) = HashMerkleBranches sha x y # pairs sha xs"
| "pairs sha xs = []"

lemma length_pairs [simp]: "length (pairs sha xs) = length xs div 2"
  by (induction sha xs rule: pairs.induct) auto

function row_roots :: "(bytes \<Rightarrow> bytes) \<Rightarrow> bytes list \<Rightarrow> bytes list" where
  "row_roots sha xs = (if xs = [] then [] else row_roots sha (pairs sha xs) @ (if odd (length xs) then [last xs] else []))"
  by auto
termination by (relation "measure (\<lambda>(sha, xs). length xs)") auto

declare row_roots.simps [simp del]

lemma pairs_snoc:
  "even (length xs) \<Longrightarrow> pairs sha (xs @ [x]) = pairs sha xs"
  "odd (length xs) \<Longrightarrow> pairs sha (xs @ [x]) = pairs sha xs @ [HashMerkleBranches sha (last xs) x]"
  by (induction sha xs rule: pairs.induct) auto

lemma add_loop_roots: "add_loop sha (length xs) (row_roots sha xs) x = Ok (row_roots sha (xs @ [x]))"
proof (induction "length xs" arbitrary: xs x rule: less_induct)
  case less
  show ?case
  proof (cases "odd (length xs)")
    case True
    then have "xs \<noteq> []"
      by auto
    then have rs: "row_roots sha xs = row_roots sha (pairs sha xs) @ [last xs]"
      using True by (subst row_roots.simps) simp
    have "length xs mod 2 = 1"
      using True by presburger
    then have "add_loop sha (length xs) (row_roots sha xs) x =
        add_loop sha (length (pairs sha xs)) (row_roots sha (pairs sha xs)) (HashMerkleBranches sha (last xs) x)"
      unfolding rs by (subst add_loop.simps) simp
    also have "\<dots> = Ok (row_roots sha (pairs sha xs @ [HashMerkleBranches sha (last xs) x]))"
      using \<open>xs \<noteq> []\<close> by (intro less.hyps) simp
    also have "row_roots sha (pairs sha xs @ [HashMerkleBranches sha (last xs) x]) = row_roots sha (xs @ [x])"
      using True by (subst (2) row_roots.simps) (simp add: pairs_snoc)
    finally show ?thesis .
  next
    case False
    then have "row_roots sha (xs @ [x]) = row_roots sha xs @ [x]"
      by (subst row_roots.simps) (simp add: pairs_snoc row_roots.simps [of sha xs], simp add: row_roots.simps [of sha "[]"])
    moreover have "length xs mod 2 \<noteq> 1"
      using False by presburger
    ultimately show ?thesis
      by (subst add_loop.simps) simp
  qed
qed

definition holds :: "(bytes \<Rightarrow> bytes) \<Rightarrow> bytes list \<Rightarrow> rollingMerkleTreeStore \<Rightarrow> bool" where
  "holds sha xs s \<longleftrightarrow> roots s = row_roots sha xs \<and> numLeaves s = length xs"

lemma roll_add_holds: "holds sha xs s \<Longrightarrow> \<exists>s'. roll_add sha x s = Ok s' \<and> holds sha (xs @ [x]) s'"
  by (simp add: holds_def roll_add_def add_loop_roots)

lemma add_leaves_holds: "holds sha xs s \<Longrightarrow> \<exists>s'. add_leaves sha ys s = Ok s' \<and> holds sha (xs @ ys) s'"
proof (induction ys arbitrary: xs s)
  case (Cons y ys)
  then obtain s' where "roll_add sha y s = Ok s'" "holds sha (xs @ [y]) s'"
    using roll_add_holds by blast
  then show ?case
    using Cons.IH by fastforce
qed simp

text \<open>Moving up a row of even length keeps the roots and the root of the tree.\<close>

lemma level_even: "even (length xs) \<Longrightarrow> level sha xs = pairs sha xs"
  by (induction sha xs rule: level.induct) auto

lemma level_odd: "odd (length xs) \<Longrightarrow> level sha xs = pairs sha (xs @ [last xs])"
  by (induction sha xs rule: level.induct) auto

lemma merkle_root_pairs: "even (length xs) \<Longrightarrow> xs \<noteq> [] \<Longrightarrow> merkle_root sha (pairs sha xs) = merkle_root sha xs"
  by (subst (2) merkle_root.simps) (auto simp: level_even le_Suc_eq)

lemma merkle_root_odd: "odd (length xs) \<Longrightarrow> length xs \<noteq> 1 \<Longrightarrow> merkle_root sha (xs @ [last xs]) = merkle_root sha xs"
  by (subst (1 2) merkle_root.simps) (cases xs; simp add: level_odd level_even)

lemma row_roots_pairs: "even (length xs) \<Longrightarrow> row_roots sha (pairs sha xs) = row_roots sha xs"
  by (subst (2) row_roots.simps) (simp add: row_roots.simps [of sha "[]"])

lemma shift_rows_ends:
  assumes "xs \<noteq> []"
  shows "\<exists>ys. shift_rows (length xs) = Some (length ys) \<and> odd (length ys) \<and> length ys \<le> length xs \<and>
    (even (length xs) \<longrightarrow> length ys \<le> length xs div 2) \<and>
    row_roots sha ys = row_roots sha xs \<and> merkle_root sha ys = merkle_root sha xs"
  using assms
proof (induction "length xs" arbitrary: xs rule: less_induct)
  case less
  show ?case
  proof (cases "even (length xs)")
    case True
    then have "pairs sha xs \<noteq> []" "length xs mod 2 = 0"
      using less.prems by (cases xs; cases "tl xs"; auto)+
    then obtain ys where "shift_rows (length xs div 2) = Some (length ys)" "odd (length ys)" "length ys \<le> length xs div 2"
        "row_roots sha ys = row_roots sha (pairs sha xs)" "merkle_root sha ys = merkle_root sha (pairs sha xs)"
      using less.hyps [of "pairs sha xs"] less.prems by auto
    then show ?thesis
      using True less.prems \<open>length xs mod 2 = 0\<close>
      by (intro exI [of _ ys]) (auto simp: row_roots_pairs merkle_root_pairs shift_rows.simps [of "length xs"])
  next
    case False
    then show ?thesis
      by (intro exI [of _ xs]) (auto simp: shift_rows.simps [of "length xs"])
  qed
qed


lemma pairs_nil: "pairs sha xs = [] \<longleftrightarrow> length xs \<le> 1"
  by (cases "(sha, xs)" rule: pairs.cases) auto

lemma row_roots_nil: "row_roots sha xs = [] \<longleftrightarrow> xs = []"
proof (induction "length xs" arbitrary: xs rule: less_induct)
  case less
  show ?case
  proof (cases "xs = []")
    case False
    then have "row_roots sha (pairs sha xs) = [] \<longleftrightarrow> pairs sha xs = []"
      by (intro less.hyps) simp
    then show ?thesis
      using False by (subst row_roots.simps) (auto simp: pairs_nil le_Suc_eq)
  qed (simp add: row_roots.simps)
qed

lemma row_roots_single: "length (row_roots sha xs) = 1 \<Longrightarrow> row_roots sha xs = [merkle_root sha xs]"
proof (induction "length xs" arbitrary: xs rule: less_induct)
  case less
  have ne: "xs \<noteq> []"
    using less.prems row_roots_nil [of sha xs] by auto
  show ?case
  proof (cases "even (length xs)")
    case True
    then show ?thesis
      using less.hyps [of "pairs sha xs"] less.prems ne by (simp add: row_roots_pairs merkle_root_pairs)
  next
    case False
    then have rs: "row_roots sha xs = row_roots sha (pairs sha xs) @ [last xs]"
      using ne by (subst row_roots.simps) simp
    then have "row_roots sha (pairs sha xs) = []"
      using less.prems by simp
    then have "length xs \<le> 1"
      by (simp add: row_roots_nil pairs_nil)
    then show ?thesis
      using rs \<open>row_roots sha (pairs sha xs) = []\<close> ne by (cases xs) (simp_all add: merkle_root.simps)
  qed
qed

lemma roll_up_root:
  "holds sha xs s \<Longrightarrow> xs \<noteq> [] \<Longrightarrow> \<exists>s'. roll_up sha s = Some (Ok s') \<and> roots s' = [merkle_root sha xs]"
proof (induction "if odd (length xs) then length xs + 2 else length xs" arbitrary: xs s rule: less_induct)
  case less
  show ?case
  proof (cases "length (roots s) > 1")
    case True
    obtain ys where ys: "shift_rows (length xs) = Some (length ys)" "odd (length ys)" "length ys \<le> length xs"
        "even (length xs) \<longrightarrow> length ys \<le> length xs div 2"
        "row_roots sha ys = row_roots sha xs" "merkle_root sha ys = merkle_root sha xs"
      using shift_rows_ends [OF less.prems(2)] by blast
    have rs: "row_roots sha ys = row_roots sha (pairs sha ys) @ [last ys]"
      using ys(2) by (subst row_roots.simps) auto
    have one: "length ys \<noteq> 1"
    proof
      assume "length ys = 1"
      then have "row_roots sha (pairs sha ys) = []"
        by (simp add: row_roots_nil pairs_nil)
      then have "length (row_roots sha xs) = 1"
        using rs ys(5) by (metis append_Nil length_Cons list.size(3) One_nat_def)
      then show False
        using True less.prems(1) by (simp add: holds_def)
    qed
    then have big: "length ys \<ge> 3"
      using ys(2) by presburger
    have "holds sha ys (s\<lparr>numLeaves := length ys\<rparr>)" "last (roots s) = last ys"
      using less.prems(1) ys(5) rs by (simp_all add: holds_def) (metis last_snoc)
    then obtain s' where s': "roll_add sha (last (roots s)) (s\<lparr>numLeaves := length ys\<rparr>) = Ok s'" "holds sha (ys @ [last ys]) s'"
      using roll_add_holds by metis
    have "\<exists>t. roll_up sha s' = Some (Ok t) \<and> roots t = [merkle_root sha (ys @ [last ys])]"
      by (rule less.hyps [OF _ s'(2)]) (use ys(2-4) big in auto)
    then show ?thesis
      using True ys(1) s'(1) less.prems(1) merkle_root_odd [OF ys(2) one, of sha] ys(6)
      by (subst roll_up.simps) (simp add: holds_def)
  next
    case False
    then have "length (row_roots sha xs) = 1"
      using less.prems row_roots_nil [of sha xs] by (cases "row_roots sha xs") (auto simp: holds_def)
    then show ?thesis
      using False less.prems row_roots_single [of sha xs] by (subst roll_up.simps) (auto simp: holds_def)
  qed
qed

text \<open>The leaves of a block.\<close>

definition leaves :: "(bytes \<Rightarrow> bytes) \<Rightarrow> bool \<Rightarrow> MsgTx list \<Rightarrow> bytes list" where
  "leaves sha witness ts = map (\<lambda>(i, t). leaf_hash sha witness i t) (enumerate 0 ts)"

lemma last_leaves: "length ts > 1 \<Longrightarrow> last (leaves sha witness ts) = (if witness then WitnessHash sha (last ts) else TxHash sha (last ts))"
  by (cases ts rule: rev_cases) (auto simp: leaves_def enumerate_append_eq leaf_hash_def)

lemma calc_root:
  assumes "ts \<noteq> []"
  shows "CalcMerkleRoot sha ts witness = Some (Ok (merkle_root sha (leaves sha witness ts)))"
proof -
  let ?xs = "leaves sha witness ts"
  have len: "length ?xs = length ts"
    by (simp add: leaves_def)
  have "holds sha [] \<lparr>roots = [], numLeaves = 0\<rparr>"
    by (simp add: holds_def row_roots.simps)
  then obtain s1 where s1: "add_leaves sha ?xs \<lparr>roots = [], numLeaves = 0\<rparr> = Ok s1" "holds sha ?xs s1"
    using add_leaves_holds by fastforce
  show ?thesis
  proof (cases "length ts = 1")
    case True
    then obtain x where "?xs = [x]"
      using len by (metis One_nat_def length_0_conv length_Suc_conv)
    then show ?thesis
      using s1 True unfolding CalcMerkleRoot_def calcMerkleRoot_def leaves_def
      by (simp add: holds_def row_roots.simps merkle_root.simps)
  next
    case False
    then have big: "length ts > 1"
      using assms by (cases ts) auto
    let ?ys = "if odd (length ts) then ?xs @ [last ?xs] else ?xs"
    have root: "merkle_root sha ?ys = merkle_root sha ?xs"
      using merkle_root_odd [of ?xs sha] False len by simp
    obtain s2 where s2: "(if ts \<noteq> [] \<and> length ts mod 2 \<noteq> 0
        then roll_add sha (if witness then WitnessHash sha (last ts) else TxHash sha (last ts)) s1 else Ok s1) = Ok s2" "holds sha ?ys s2"
      using roll_add_holds [OF s1(2), of "last ?xs"] s1(2) assms last_leaves [OF big, of sha witness] by (cases "odd (length ts)") (auto simp: odd_iff_mod_2_eq_one)
    have "?ys \<noteq> []"
      using assms len by auto
    then obtain s3 where "roll_up sha s2 = Some (Ok s3)" "roots s3 = [merkle_root sha ?xs]"
      using roll_up_root [OF s2(2)] unfolding root by blast
    then show ?thesis
      using s1 s2(1) False len unfolding CalcMerkleRoot_def calcMerkleRoot_def leaves_def by (simp add: holds_def)
  qed
qed


section \<open>The array holds the tree\<close>

text \<open>
  The loop over the array works as a queue: it takes two nodes from the front of the part that is
  filled and not yet used, and puts their parent at its end.
\<close>

fun queue :: "(bytes \<Rightarrow> bytes) \<Rightarrow> nat \<Rightarrow> bytes option list \<Rightarrow> bytes option list" where
  "queue sha 0 q = q"
| "queue sha (Suc n) (a # b # q) = queue sha n (q @ [parent sha a b])"
| "queue sha (Suc n) q = q"

lemma fill_tree_queue:
  assumes "length merkles = i + 2 * n + 1" and "offset = i + n + 1" and "take (n + 1) (drop i merkles) = q"
  shows "[last (fill_tree sha i offset merkles)] = queue sha n q"
  using assms
proof (induction n arbitrary: i offset merkles q)
  case 0
  then have "q = [merkles ! i]"
    using Cons_nth_drop_Suc [of i merkles] by auto
  moreover have "fill_tree sha i offset merkles = merkles"
    using 0 by (subst fill_tree.simps) simp
  ultimately show ?case
    using 0(1) by (cases merkles) (auto simp: last_conv_nth)
next
  case (Suc n)
  let ?p = "parent sha (merkles ! i) (merkles ! (i + 1))"
  let ?m = "merkles[offset := ?p]" and ?r = "take n (drop (i + 2) merkles)"
  have q: "q = merkles ! i # merkles ! (i + 1) # ?r"
    using Suc.prems(1,3) by (simp add: Cons_nth_drop_Suc [symmetric])
  have "take (n + 1) (drop (i + 2) ?m) = ?r @ [?p]"
    using Suc.prems(1,2) by (simp add: take_Suc_conv_app_nth drop_update_swap)
  then have "[last (fill_tree sha (i + 2) (offset + 1) ?m)] = queue sha n (?r @ [?p])"
    using Suc.prems(1,2) by (intro Suc.IH) auto
  then show ?case
    using Suc.prems(1) q by (subst fill_tree.simps) simp
qed

text \<open>A queue that holds a row ends with the row above.\<close>

fun up :: "(bytes \<Rightarrow> bytes) \<Rightarrow> bytes option list \<Rightarrow> bytes option list" where
  "up sha (a # b # q) = parent sha a b # up sha q"
| "up sha q = []"

lemma queue_row: "even (length q) \<Longrightarrow> queue sha (length q div 2 + n) (q @ r) = queue sha n (r @ up sha q)"
proof (induction sha q arbitrary: r rule: up.induct)
  case (1 sha a b q)
  then show ?case
    using "1.IH" [of "r @ [parent sha a b]"] by simp
qed auto

lemma up_none: "even k \<Longrightarrow> up sha (replicate k None) = replicate (k div 2) None"
proof -
  have "up sha (replicate (2 * m) None) = replicate m None" for m
    by (induction m) (simp_all add: parent_def)
  then show "even k \<Longrightarrow> up sha (replicate k None) = replicate (k div 2) None"
    by (metis dvd_mult_div_cancel)
qed

lemma up_row:
  "even (length xs + k) \<Longrightarrow> up sha (map Some xs @ replicate k None) =
     map Some (level sha xs) @ replicate ((length xs + k) div 2 - length (level sha xs)) None"
proof (induction sha xs rule: level.induct)
  case (2 sha x)
  then obtain m where k: "k = Suc m" "even m"
    by (cases k) auto
  then show ?case
    by (simp add: parent_def up_none)
qed (simp_all add: parent_def length_level up_none)

lemma queue_root:
  assumes "0 < length xs" and "length xs \<le> 2 ^ m" and "2 ^ m < 2 * length xs"
  shows "queue sha (2 ^ m - 1) (map Some xs @ replicate (2 ^ m - length xs) None) = [Some (merkle_root sha xs)]"
  using assms
proof (induction m arbitrary: xs)
  case 0
  then obtain x where "xs = [x]"
    by (cases xs) auto
  then show ?case
    by (simp add: merkle_root.simps)
next
  case (Suc m)
  let ?q = "map Some xs @ replicate (2 ^ Suc m - length xs) None"
  have big: "1 < length xs"
    using Suc.prems(3) one_le_power [of "2::nat" m] unfolding power_Suc by linarith
  have len: "length ?q = 2 * 2 ^ m"
    using Suc.prems(2) by simp
  have "queue sha (2 ^ Suc m - 1) ?q = queue sha (2 ^ m - 1) (up sha ?q)"
    using queue_row [of ?q sha "2 ^ m - 1" "[]"] len by (simp add: mult_2)
  also have "up sha ?q = map Some (level sha xs) @ replicate (2 ^ m - length (level sha xs)) None"
    using up_row [of xs "2 ^ Suc m - length xs" sha] Suc.prems(2) by simp
  also have "queue sha (2 ^ m - 1) \<dots> = [Some (merkle_root sha (level sha xs))]"
  proof (rule Suc.IH)
    show "0 < length (level sha xs)" "length (level sha xs) \<le> 2 ^ m"
      using Suc.prems(1,2) by (auto simp: length_level)
    show "2 ^ m < 2 * length (level sha xs)"
      using Suc.prems(3) unfolding length_level power_Suc by linarith
  qed
  also have "merkle_root sha (level sha xs) = merkle_root sha xs"
    using big by (subst (2) merkle_root.simps) simp
  finally show ?case .
qed


lemma log2_bounds: "0 < n \<Longrightarrow> 2 ^ log2 n \<le> n \<and> n < 2 * 2 ^ log2 n"
proof (induction n rule: log2.induct)
  case (1 n)
  show ?case
  proof (cases "n < 2")
    case False
    then show ?thesis
      using 1 by (subst (1 2) log2.simps) auto
  qed (use "1.prems" in \<open>simp add: log2.simps\<close>)
qed

lemma and_pred_power: "0 < n \<Longrightarrow> n AND (n - 1) = 0 \<Longrightarrow> \<exists>m. n = 2 ^ m" for n :: nat
proof (induction n rule: less_induct)
  case (less n)
  show ?case
  proof (cases "even n")
    case True
    then obtain k where k: "n = 2 * k" "0 < k"
      using less.prems(1) by (auto elim: evenE)
    have "n - 1 = 2 * (k - 1) + 1"
      using k by simp
    then have "n AND (n - 1) = 2 * (k AND (k - 1))"
      using k by (simp add: and_nat_rec [of "2 * k"])
    then obtain m where "k = 2 ^ m"
      using less.IH [of k] k less.prems(2) by auto
    then show ?thesis
      using k(1) by (intro exI [of _ "Suc m"]) simp
  next
    case False
    then obtain k where k: "n = 2 * k + 1"
      by (auto elim: oddE)
    then have "n AND (n - 1) = 2 * k"
      by (simp add: and_nat_rec [of "Suc (2 * k)"])
    then show ?thesis
      using k less.prems(2) by (intro exI [of _ 0]) simp
  qed
qed

lemma nextPowerOfTwo_fits: "0 < n \<Longrightarrow> \<exists>m. nextPowerOfTwo n = 2 ^ m \<and> n \<le> 2 ^ m \<and> 2 ^ m < 2 * n"
proof (cases "n AND (n - 1) = 0")
  case False
  moreover assume n: "0 < n"
  have "n \<noteq> 2 ^ m" for m
  proof
    assume m: "n = 2 ^ m"
    have "(2 ^ m :: nat) AND (2 ^ m - 1) = 2 ^ m AND mask m"
      by (simp add: mask_eq_exp_minus_1)
    then show False
      using False m by (simp add: and_exp_eq_0_iff_not_bit bit_mask_iff and.commute [of "2 ^ m"] take_bit_eq_mask [symmetric])
  qed
  ultimately show ?thesis
    using log2_bounds [OF n] by (intro exI [of _ "log2 n + 1"]) (auto simp: nextPowerOfTwo_def order.strict_iff_order [of "2 ^ log2 n"] dest: sym)
qed (use and_pred_power [of n] in \<open>auto simp: nextPowerOfTwo_def\<close>)

text \<open>
  C15: Both ways of computing a merkle root give the root of the tree.  For a block with
  transactions the rolling store ends its loops and returns the root, with or without witnesses,
  and the array that \<^verbatim>\<open>BuildMerkleTreeStore\<close> fills ends with the same hash.
\<close>

theorem merkle_roots_agree:
  assumes "ts \<noteq> []"
  shows "CalcMerkleRoot sha ts witness = Some (Ok (merkle_root sha (leaves sha witness ts))) \<and>
    (\<exists>merkles. BuildMerkleTreeStore sha ts witness = Ok merkles \<and> last merkles = Some (merkle_root sha (leaves sha witness ts)))"
proof (rule conjI)
  show "CalcMerkleRoot sha ts witness = Some (Ok (merkle_root sha (leaves sha witness ts)))"
    by (rule calc_root [OF assms])
  let ?xs = "leaves sha witness ts"
  have len: "length ?xs = length ts" "0 < length ts"
    using assms by (simp_all add: leaves_def)
  then obtain m where m: "nextPowerOfTwo (length ts) = 2 ^ m" "length ts \<le> 2 ^ m" "2 ^ m < 2 * length ts"
    using nextPowerOfTwo_fits by blast
  have p: "0 < (2 ^ m :: nat)"
    by simp
  let ?a = "map Some ?xs @ replicate (2 ^ m * 2 - 1 - length ts) None"
  have size: "2 ^ m * 2 - 1 - length ts = (2 ^ m - length ts) + (2 ^ m - 1)"
    using m(2) p by linarith
  then have a: "?a = (map Some ?xs @ replicate (2 ^ m - length ts) None) @ replicate (2 ^ m - 1) None"
    unfolding size replicate_add by simp
  have "take (2 ^ m) ?a = map Some ?xs @ replicate (2 ^ m - length ts) None"
    unfolding a using len m(2) by (simp add: take_append)
  then have "[last (fill_tree sha 0 (2 ^ m) ?a)] = queue sha (2 ^ m - 1) (map Some ?xs @ replicate (2 ^ m - length ts) None)"
  proof (intro fill_tree_queue)
    have "length ?a = length ts + (2 ^ m * 2 - 1 - length ts)"
      using len(1) by simp
    then show "length ?a = 0 + 2 * (2 ^ m - 1) + 1"
      using m(2) p by linarith
  qed (use p in simp_all)
  also have "\<dots> = [Some (merkle_root sha ?xs)]"
    using queue_root [of ?xs m sha] len m(2,3) by simp
  finally show "\<exists>merkles. BuildMerkleTreeStore sha ts witness = Ok merkles \<and> last merkles = Some (merkle_root sha ?xs)"
    using assms m(1) by (simp add: BuildMerkleTreeStore_def leaves_def comp_def split_def Let_def)
qed


theorem merkle_roots_agree_witness:
  "CalcMerkleRoot id [sample_spend, sample_spend, sample_spend] False =
    Some (Ok (merkle_root id [TxHash id sample_spend, TxHash id sample_spend, TxHash id sample_spend]))"
  using merkle_roots_agree [of "[sample_spend, sample_spend, sample_spend]" id False] by (simp add: leaves_def leaf_hash_def)

text \<open>
  What is hashed to make a row, and a whole tree.  No two different strings of a set have one hash.
\<close>

fun row_strings :: "bytes list \<Rightarrow> bytes set" where
  "row_strings [] = {}"
| "row_strings [x] = {x @ x}"
| "row_strings (x # y # xs) = insert (x @ y) (row_strings xs)"

function tree_strings :: "(bytes \<Rightarrow> bytes) \<Rightarrow> bytes list \<Rightarrow> bytes set" where
  "tree_strings sha xs = (if length xs \<le> 1 then {} else row_strings xs \<union> tree_strings sha (level sha xs))"
  by auto
termination by (relation "measure (\<lambda>(sha, xs). length xs)") (auto simp: length_level)

declare tree_strings.simps [simp del]

lemma level_inj:
  assumes "inj_on (\<lambda>x. sha (sha x)) S"
  shows "level sha xs = level sha ys \<Longrightarrow> length xs = length ys \<Longrightarrow> \<forall>x \<in> set xs \<union> set ys. length x = n \<Longrightarrow>
    row_strings xs \<union> row_strings ys \<subseteq> S \<Longrightarrow> xs = ys"
proof (induction xs arbitrary: ys rule: induct_list012)
  case (2 x)
  then obtain u where "ys = [u]"
    by (cases ys) auto
  then show ?case
    using 2 inj_onD [OF assms, of "x @ x" "u @ u"] by (simp add: HashMerkleBranches_def)
next
  case (3 x y xs)
  then obtain u v us where ys: "ys = u # v # us"
    by (cases ys; cases "tl ys") auto
  then have "x @ y = u @ v"
    using "3.prems"(1,4) inj_onD [OF assms, of "x @ y" "u @ v"] by (simp add: HashMerkleBranches_def)
  then show ?case
    using "3.IH"(1) [of us] "3.prems" ys by simp
qed simp

lemma level_lengths: "\<forall>x. length (sha x) = n \<Longrightarrow> \<forall>x \<in> set (level sha xs). length x = n"
  by (induction sha xs rule: level.induct) (auto simp: HashMerkleBranches_def)

lemma merkle_root_inj:
  assumes "\<forall>x. length (sha x) = n" and "\<forall>x \<in> set xs \<union> set ys. length x = n" and "length xs = length ys"
    and "merkle_root sha xs = merkle_root sha ys" and "inj_on (\<lambda>x. sha (sha x)) (tree_strings sha xs \<union> tree_strings sha ys)"
  shows "xs = ys"
  using assms(2-5)
proof (induction "length xs" arbitrary: xs ys rule: less_induct)
  case less
  show ?case
  proof (cases "length xs \<le> 1")
    case True
    then show ?thesis
      using less.prems(2,3) by (cases xs; cases ys) (auto simp: merkle_root.simps)
  next
    case False
    then have "merkle_root sha (level sha xs) = merkle_root sha (level sha ys)"
      using less.prems(2,3) merkle_root.simps [of sha xs] merkle_root.simps [of sha ys] by simp
    moreover have "\<forall>x \<in> set (level sha xs) \<union> set (level sha ys). length x = n"
      using level_lengths [OF assms(1)] by blast
    moreover have sub: "row_strings xs \<union> row_strings ys \<subseteq> tree_strings sha xs \<union> tree_strings sha ys"
        "tree_strings sha (level sha xs) \<union> tree_strings sha (level sha ys) \<subseteq> tree_strings sha xs \<union> tree_strings sha ys"
      using False less.prems(2) tree_strings.simps [of sha xs] tree_strings.simps [of sha ys] by auto
    ultimately have "level sha xs = level sha ys"
      using less.hyps [of "level sha xs" "level sha ys"] less.prems(2) False inj_on_subset [OF less.prems(4) sub(2)] by (simp add: length_level)
    then show ?thesis
      using level_inj [OF less.prems(4) _ less.prems(2,1) sub(1)] by simp
  qed
qed

lemma leaf_lengths: "\<forall>x. length (sha x) = 32 \<Longrightarrow> \<forall>x \<in> set (leaves sha witness ts). length x = 32"
  by (auto simp: leaves_def leaf_hash_def WitnessHash_def TxHash_def)

text \<open>
  C34: A merkle root commits to the transactions.  Two blocks with the same number of transactions,
  some of which have different hashes, have different roots, unless two different strings that are
  hashed in their trees collide.
\<close>

theorem merkle_root_commits:
  assumes "\<forall>x. length (sha x) = 32" and "ts \<noteq> []" and "length ts = length us" and "leaves sha witness ts \<noteq> leaves sha witness us"
    and "inj_on (\<lambda>x. sha (sha x)) (tree_strings sha (leaves sha witness ts) \<union> tree_strings sha (leaves sha witness us))"
  shows "CalcMerkleRoot sha ts witness \<noteq> CalcMerkleRoot sha us witness"
proof
  assume "CalcMerkleRoot sha ts witness = CalcMerkleRoot sha us witness"
  then have "merkle_root sha (leaves sha witness ts) = merkle_root sha (leaves sha witness us)"
    using assms(2,3) calc_root [of ts sha witness] calc_root [of us sha witness] by fastforce
  then show False
    using merkle_root_inj [OF assms(1) _ _ _ assms(5)] leaf_lengths [OF assms(1)] assms(3,4) by (auto simp: leaves_def)
qed

lemma tree_strings_two: "tree_strings sha [x, y] = {x @ y}"
  by (simp add: tree_strings.simps)

definition first_bytes :: "bytes \<Rightarrow> bytes" where
  "first_bytes x = take 32 (x @ replicate 32 0)"

lemma first_bytes_hash:
  "length (fst op) = 32 \<Longrightarrow> TxHash first_bytes (coin_tx op v) = [1, 0, 0, 0, 1] @ take 27 (fst op)"
proof -
  have "uint32_bytes 1 = [1, 0, 0, 0]" "WriteVarInt (Suc 0) = [1]"
    by (simp_all add: uint32_bytes_def WriteVarInt_def le_bytes_map upt_rec)
  then show "length (fst op) = 32 \<Longrightarrow> TxHash first_bytes (coin_tx op v) = [1, 0, 0, 0, 1] @ take 27 (fst op)"
    by (simp add: TxHash_def SerializeNoWitness_def btcEncode_def coin_tx_def writeTxIn_def writeOutPoint_def first_bytes_def)
qed

theorem merkle_root_commits_witness:
  "CalcMerkleRoot first_bytes [coin_tx (replicate 32 7, 0) 4, coin_tx (replicate 32 8, 0) 4] False \<noteq>
   CalcMerkleRoot first_bytes [coin_tx (replicate 32 9, 0) 4, coin_tx (replicate 32 8, 0) 4] False"
proof (rule merkle_root_commits)
  have h: "leaves first_bytes False [coin_tx (replicate 32 a, 0) 4, coin_tx (replicate 32 b, 0) 4] =
      [[1, 0, 0, 0, 1] @ replicate 27 a, [1, 0, 0, 0, 1] @ replicate 27 b]" for a b :: byte
    by (simp add: leaves_def leaf_hash_def first_bytes_hash)
  show "leaves first_bytes False [coin_tx (replicate 32 7, 0) 4, coin_tx (replicate 32 8, 0) 4] \<noteq>
      leaves first_bytes False [coin_tx (replicate 32 9, 0) 4, coin_tx (replicate 32 8, 0) 4]"
    unfolding h by simp
  show "inj_on (\<lambda>x. first_bytes (first_bytes x))
     (tree_strings first_bytes (leaves first_bytes False [coin_tx (replicate 32 7, 0) 4, coin_tx (replicate 32 8, 0) 4]) \<union>
      tree_strings first_bytes (leaves first_bytes False [coin_tx (replicate 32 9, 0) 4, coin_tx (replicate 32 8, 0) 4]))"
    unfolding h tree_strings_two by (simp add: first_bytes_def)
qed (simp_all add: first_bytes_def min_def)

end
