(* ===== verification/Chain_Rules.thy ===== *)
theory Chain_Rules
  imports Chain_Utxo "HOL-Library.Signed_Division"
begin

text \<open>
  The rules for transactions (\<^verbatim>\<open>coin/OrcaNet/blockchain/validate.go\<close> and \<^verbatim>\<open>weight.go\<close>):
  sanity, finality, relative locks, the spent amounts, signature operation costs, the coinbase
  height and the block subsidy.  A rule error is named by its code.
\<close>

section \<open>Amounts and sanity\<close>

abbreviation (input) MaxSatoshi :: int where "MaxSatoshi \<equiv> 2100000000000000"
abbreviation (input) baseSubsidy :: int where "baseSubsidy \<equiv> 5000000000"
abbreviation (input) MaxBlockBaseSize :: nat where "MaxBlockBaseSize \<equiv> 1000000"
abbreviation (input) MaxBlockSigOpsCost :: nat where "MaxBlockSigOpsCost \<equiv> 80000"

text \<open>The shift count is converted to an unsigned number.\<close>

definition CalcBlockSubsidy :: "int \<Rightarrow> int \<Rightarrow> int" where
  "CalcBlockSubsidy height interval =
     (if interval = 0 then baseSubsidy
      else let halvings = height sdiv interval
           in if halvings < 0 then 0 else drop_bit (nat halvings) baseSubsidy)"

fun check_outputs :: "TxOut list \<Rightarrow> int \<Rightarrow> unit outcome" where
  "check_outputs [] totalSatoshi = Ok ()"
| "check_outputs (out # us) totalSatoshi =
     (let satoshi = out_Value out
      in if satoshi < 0 then Err ''ErrBadTxOutValue''
         else if satoshi > MaxSatoshi then Err ''ErrBadTxOutValue''
         else let total = wrap64 (totalSatoshi + satoshi)
              in if total < 0 then Err ''ErrBadTxOutValue''
                 else if total > MaxSatoshi then Err ''ErrBadTxOutValue''
                 else check_outputs us total)"

fun check_duplicates :: "outpoint list \<Rightarrow> outpoint set \<Rightarrow> unit outcome" where
  "check_duplicates [] existing = Ok ()"
| "check_duplicates (op # ops) existing =
     (if op \<in> existing then Err ''ErrDuplicateTxInputs'' else check_duplicates ops (insert op existing))"

definition CheckTransactionSanity :: "MsgTx \<Rightarrow> unit outcome" where
  "CheckTransactionSanity t =
     (if TxIns t = [] then Err ''ErrNoTxInputs''
      else if TxOuts t = [] then Err ''ErrNoTxOutputs''
      else if SerializeSizeStripped t > MaxBlockBaseSize then Err ''ErrTxTooBig''
      else bind (check_outputs (TxOuts t) 0) (\<lambda>_.
           bind (check_duplicates (inputs t) {}) (\<lambda>_.
           if IsCoinBase t
           then let slen = length (SignatureScript (TxIns t ! 0))
                in if slen < 2 \<or> slen > 100 then Err ''ErrBadCoinbaseScriptLen'' else Ok ()
           else if list_ex isNullOutpoint (inputs t) then Err ''ErrBadTxInput''
           else Ok ())))"

section \<open>Finality\<close>

text \<open>The block time is in seconds.\<close>

definition IsFinalizedTransaction :: "MsgTx \<Rightarrow> int \<Rightarrow> int \<Rightarrow> bool" where
  "IsFinalizedTransaction t height blockTime \<longleftrightarrow>
     LockTime t = 0 \<or>
     LockTime t < (if LockTime t < 500000000 then height else blockTime) \<or>
     list_all (\<lambda>ti. Sequence ti = 2 ^ 32 - 1) (TxIns t)"

record SequenceLock =
  Seconds :: int
  lock_BlockHeight :: int

definition SequenceLockActive :: "SequenceLock \<Rightarrow> int \<Rightarrow> int \<Rightarrow> bool" where
  "SequenceLockActive lock height medianTimePast \<longleftrightarrow>
     \<not> (Seconds lock \<ge> medianTimePast \<or> lock_BlockHeight lock \<ge> height)"

text \<open>
  The lock of one input.  \<open>past_median h\<close> is the median time before the block's ancestor at height
  \<open>h\<close>; sequence numbers are taken as words.
\<close>

definition input_lock :: "(int \<Rightarrow> int) \<Rightarrow> int \<Rightarrow> TxIn \<Rightarrow> UtxoEntry \<Rightarrow> SequenceLock \<Rightarrow> SequenceLock" where
  "input_lock past_median nextHeight ti utxo lock =
     (let inputHeight = (if blockHeight utxo = 0x7fffffff then nextHeight else blockHeight utxo);
          sequenceNum = (of_int (Sequence ti) :: u32);
          relativeLock = uint (sequenceNum AND 0xffff)
      in if sequenceNum AND push_bit 31 1 = push_bit 31 1 then lock
         else if sequenceNum AND push_bit 22 1 = push_bit 22 1
         then let prevInputHeight = max 0 (wrap32 (inputHeight - 1));
                  timeLock = wrap64 (past_median prevInputHeight + (push_bit 9 relativeLock - 1))
              in if timeLock > Seconds lock then lock\<lparr>Seconds := timeLock\<rparr> else lock
         else let height = wrap32 (inputHeight + (relativeLock - 1))
              in if height > lock_BlockHeight lock then lock\<lparr>lock_BlockHeight := height\<rparr> else lock)"

fun lock_loop :: "(int \<Rightarrow> int) \<Rightarrow> int \<Rightarrow> UtxoViewpoint \<Rightarrow> TxIn list \<Rightarrow> SequenceLock \<Rightarrow> SequenceLock outcome" where
  "lock_loop past_median nextHeight view [] lock = Ok lock"
| "lock_loop past_median nextHeight view (ti # tis) lock =
     (case LookupEntry view (PreviousOutPoint ti) of
        None \<Rightarrow> Err ''ErrMissingTxOut''
      | Some utxo \<Rightarrow> lock_loop past_median nextHeight view tis (input_lock past_median nextHeight ti utxo lock))"

definition calcSequenceLock :: "bool outcome \<Rightarrow> (int \<Rightarrow> int) \<Rightarrow> int \<Rightarrow> MsgTx \<Rightarrow> UtxoViewpoint \<Rightarrow> bool \<Rightarrow> SequenceLock outcome" where
  "calcSequenceLock csv past_median nodeHeight t view mempool =
     (let lock = \<lparr>Seconds = -1, lock_BlockHeight = -1\<rparr>
      in bind (if mempool then Ok True else csv) (\<lambda>csvSoftforkActive.
         if \<not> (Version t mod 2 ^ 32 \<ge> 2 \<and> csvSoftforkActive) \<or> IsCoinBase t then Ok lock
         else lock_loop past_median (wrap32 (nodeHeight + 1)) view (TxIns t) lock))"

definition LockTimeToSequence :: "bool \<Rightarrow> u32 \<Rightarrow> u32" where
  "LockTimeToSequence isSeconds locktime = (if \<not> isSeconds then locktime else push_bit 22 1 OR drop_bit 9 locktime)"

section \<open>Spending\<close>

fun sum_inputs :: "int \<Rightarrow> int \<Rightarrow> UtxoViewpoint \<Rightarrow> TxIn list \<Rightarrow> int \<Rightarrow> int outcome" where
  "sum_inputs maturity txHeight view [] totalSatoshiIn = Ok totalSatoshiIn"
| "sum_inputs maturity txHeight view (ti # tis) totalSatoshiIn =
     (case LookupEntry view (PreviousOutPoint ti) of
        None \<Rightarrow> Err ''ErrMissingTxOut''
      | Some utxo \<Rightarrow>
          if IsSpent utxo then Err ''ErrMissingTxOut''
          else if entry_IsCoinBase utxo \<and> wrap32 (txHeight - blockHeight utxo) < maturity then Err ''ErrImmatureSpend''
          else if amount utxo < 0 then Err ''ErrBadTxOutValue''
          else if amount utxo > MaxSatoshi then Err ''ErrBadTxOutValue''
          else let total = wrap64 (totalSatoshiIn + amount utxo)
               in if total < totalSatoshiIn \<or> total > MaxSatoshi then Err ''ErrBadTxOutValue''
                  else sum_inputs maturity txHeight view tis total)"

definition total_out :: "MsgTx \<Rightarrow> int" where
  "total_out t = foldl (\<lambda>n out. wrap64 (n + out_Value out)) 0 (TxOuts t)"

definition CheckTransactionInputs :: "int \<Rightarrow> MsgTx \<Rightarrow> int \<Rightarrow> UtxoViewpoint \<Rightarrow> int outcome" where
  "CheckTransactionInputs maturity t txHeight view =
     (if IsCoinBase t then Ok 0
      else bind (sum_inputs maturity txHeight view (TxIns t) 0) (\<lambda>totalSatoshiIn.
        if totalSatoshiIn < total_out t then Err ''ErrSpendTooHigh'' else Ok (wrap64 (totalSatoshiIn - total_out t))))"

section \<open>Signature operations\<close>

definition CountSigOps :: "MsgTx \<Rightarrow> nat" where
  "CountSigOps t =
     foldl (\<lambda>n out. n + GetSigOpCount (PkScript out)) (foldl (\<lambda>n ti. n + GetSigOpCount (SignatureScript ti)) 0 (TxIns t)) (TxOuts t)"

text \<open>The counts are natural numbers: the scripts of a block are far too short for an overflow.\<close>

fun p2sh_loop :: "UtxoViewpoint \<Rightarrow> TxIn list \<Rightarrow> nat \<Rightarrow> nat outcome" where
  "p2sh_loop view [] totalSigOps = Ok totalSigOps"
| "p2sh_loop view (ti # tis) totalSigOps =
     (case LookupEntry view (PreviousOutPoint ti) of
        None \<Rightarrow> Err ''ErrMissingTxOut''
      | Some utxo \<Rightarrow>
          if IsSpent utxo then Err ''ErrMissingTxOut''
          else if \<not> isScriptHashScript (pkScript utxo) then p2sh_loop view tis totalSigOps
          else p2sh_loop view tis (totalSigOps + GetPreciseSigOpCount (SignatureScript ti) (pkScript utxo)))"

definition CountP2SHSigOps :: "MsgTx \<Rightarrow> bool \<Rightarrow> UtxoViewpoint \<Rightarrow> nat outcome" where
  "CountP2SHSigOps t isCoinBaseTx view = (if isCoinBaseTx then Ok 0 else p2sh_loop view (TxIns t) 0)"

fun witness_cost :: "UtxoViewpoint \<Rightarrow> TxIn list \<Rightarrow> nat \<Rightarrow> nat outcome" where
  "witness_cost view [] n = Ok n"
| "witness_cost view (ti # tis) n =
     (case LookupEntry view (PreviousOutPoint ti) of
        None \<Rightarrow> Err ''ErrMissingTxOut''
      | Some utxo \<Rightarrow>
          if IsSpent utxo then Err ''ErrMissingTxOut''
          else witness_cost view tis (n + GetWitnessSigOpCount (SignatureScript ti) (pkScript utxo) (Witness ti)))"

text \<open>An error of \<^verbatim>\<open>CountP2SHSigOps\<close> is dropped: the cost is then zero.\<close>

definition GetSigOpCost :: "MsgTx \<Rightarrow> bool \<Rightarrow> UtxoViewpoint \<Rightarrow> bool \<Rightarrow> bool \<Rightarrow> nat outcome" where
  "GetSigOpCost t isCoinBaseTx view enforce16 segWit =
     (let numSigOps = CountSigOps t * 4
      in case (if enforce16 then CountP2SHSigOps t isCoinBaseTx view else Ok 0) of
           Err _ \<Rightarrow> Ok 0
         | Panic p \<Rightarrow> Panic p
         | Ok numP2SHSigOps \<Rightarrow>
             let n = numSigOps + numP2SHSigOps * 4
             in if segWit \<and> \<not> isCoinBaseTx then witness_cost view (TxIns t) n else Ok n)"

definition GetTransactionWeight :: "MsgTx \<Rightarrow> nat" where
  "GetTransactionWeight t = SerializeSizeStripped t * 3 + SerializeSize t"

definition GetBlockWeight :: "MsgBlock \<Rightarrow> nat" where
  "GetBlockWeight b = block_SerializeSizeStripped b * 3 + block_SerializeSize b"

section \<open>The height in the coinbase\<close>

definition compareScript :: "int \<Rightarrow> bytes \<Rightarrow> unit outcome" where
  "compareScript height script =
     bind (bind (AddInt64 height NewScriptBuilder) builder_Script) (\<lambda>scriptHeight.
       if take (length scriptHeight) script = scriptHeight then Ok () else Err ''ErrBadCoinbaseHeight'')"

definition ExtractCoinbaseHeight :: "MsgTx \<Rightarrow> int outcome" where
  "ExtractCoinbaseHeight coinbaseTx =
     bind (index (TxIns coinbaseTx) 0) (\<lambda>ti.
       let sigScript = SignatureScript ti
       in if length sigScript < 1 then Err ''ErrMissingCoinbaseHeight''
          else
            let opcode = unat (sigScript ! 0)
            in if opcode = 0 then Ok 0
               else if opcode \<ge> 0x51 \<and> opcode \<le> 0x60 then Ok (int (opcode - 0x50))
               else if length (drop 1 sigScript) < opcode then Err ''ErrMissingCoinbaseHeight''
               else let heightBytes = take 4 (take opcode (drop 1 sigScript));
                        serializedHeight = wrap32 (int (le_value (heightBytes @ replicate (4 - length heightBytes) 0)))
                    in bind (compareScript serializedHeight sigScript) (\<lambda>_. Ok serializedHeight))"

definition CheckSerializedHeight :: "MsgTx \<Rightarrow> int \<Rightarrow> unit outcome" where
  "CheckSerializedHeight coinbaseTx wantHeight =
     bind (ExtractCoinbaseHeight coinbaseTx) (\<lambda>serializedHeight.
       if serializedHeight \<noteq> wantHeight then Err ''ErrBadCoinbaseHeight'' else Ok ())"

section \<open>What the rules promise\<close>

lemma check_outputs_ok:
  assumes "check_outputs us n = Ok ()" and "0 \<le> n" and "n \<le> MaxSatoshi"
  shows "(\<forall>out \<in> set us. 0 \<le> out_Value out) \<and> n + sum_list (map out_Value us) \<le> MaxSatoshi \<and>
    foldl (\<lambda>n out. wrap64 (n + out_Value out)) n us = n + sum_list (map out_Value us)"
  using assms
proof (induction us arbitrary: n)
  case (Cons out us)
  then have v: "0 \<le> out_Value out" "out_Value out \<le> MaxSatoshi" and rest: "check_outputs us (wrap64 (n + out_Value out)) = Ok ()"
      "0 \<le> wrap64 (n + out_Value out)" "wrap64 (n + out_Value out) \<le> MaxSatoshi"
    by (auto simp: Let_def if_Err_Ok_iff)
  moreover have "wrap64 (n + out_Value out) = n + out_Value out"
    using v Cons.prems(2,3) by simp
  ultimately show ?case
    using Cons.IH [OF rest] by simp
qed simp

lemma check_duplicates_ok: "check_duplicates ops seen = Ok () \<longleftrightarrow> distinct ops \<and> set ops \<inter> seen = {}"
  by (induction ops arbitrary: seen) auto

lemma sum_inputs_ok:
  assumes "sum_inputs maturity h view tis n = Ok all" and "0 \<le> n" and "n \<le> MaxSatoshi"
  shows "all = n + sum_list (map (\<lambda>op. st_Amount (the (unspent base view op))) (map PreviousOutPoint tis)) \<and> all \<le> MaxSatoshi \<and>
    (\<forall>ti \<in> set tis. \<exists>c. unspent base view (PreviousOutPoint ti) = Some c \<and> 0 \<le> st_Amount c \<and>
       (st_IsCoinBase c \<longrightarrow> maturity \<le> wrap32 (h - st_Height c)))"
  using assms
proof (induction tis arbitrary: n)
  case (Cons ti tis)
  obtain e where e: "LookupEntry view (PreviousOutPoint ti) = Some e" "\<not> IsSpent e"
      "\<not> (entry_IsCoinBase e \<and> wrap32 (h - blockHeight e) < maturity)" "0 \<le> amount e" "amount e \<le> MaxSatoshi"
      and rest: "sum_inputs maturity h view tis (wrap64 (n + amount e)) = Ok all" "n \<le> wrap64 (n + amount e)" "wrap64 (n + amount e) \<le> MaxSatoshi"
    using Cons.prems(1) by (auto simp: Let_def if_Err_Ok_iff split: option.splits)
  have w: "wrap64 (n + amount e) = n + amount e"
    using e(4,5) Cons.prems(2,3) by simp
  have "unspent base view (PreviousOutPoint ti) = Some (stxo_of e)"
    using e(1,2) by (auto simp: LookupEntry_def unspent_def live_def split: option.splits)
  then show ?case
    using Cons.IH [OF rest(1)] rest(2,3) e(3-5) Cons.prems(2) unfolding w by (auto simp: stxo_of_def)
qed simp

text \<open>The facts the other theories use: what a transaction that passes both checks looks like.\<close>

definition value_out :: "MsgTx \<Rightarrow> int" where
  "value_out t = sum_list (map out_Value (TxOuts t))"

lemma sane_outputs:
  assumes "CheckTransactionSanity t = Ok ()"
  shows "\<forall>out \<in> set (TxOuts t). 0 \<le> out_Value out" and "total_out t = value_out t" and "value_out t \<le> MaxSatoshi" and "0 \<le> value_out t"
    and "distinct (inputs t)"
proof -
  have c: "check_outputs (TxOuts t) 0 = Ok ()" and d: "check_duplicates (inputs t) {} = Ok ()"
    using assms by (auto simp: CheckTransactionSanity_def bind_Ok_iff if_Err_Ok_iff)
  from check_outputs_ok [OF c] show "\<forall>out \<in> set (TxOuts t). 0 \<le> out_Value out" and "total_out t = value_out t" and "value_out t \<le> MaxSatoshi"
    by (simp_all add: total_out_def value_out_def)
  then show "0 \<le> value_out t"
    unfolding value_out_def by (intro sum_list_nonneg) auto
  show "distinct (inputs t)"
    using d by (simp add: check_duplicates_ok)
qed

lemma checked_inputs:
  assumes "CheckTransactionSanity t = Ok ()" and "CheckTransactionInputs maturity t h view = Ok fee" and "\<not> IsCoinBase t"
  shows "0 \<le> fee" and "fee = sum_list (map (\<lambda>op. st_Amount (the (unspent base view op))) (inputs t)) - value_out t"
    and "fee \<le> MaxSatoshi" and "set (inputs t) \<subseteq> dom (unspent base view)"
proof -
  obtain all where all: "sum_inputs maturity h view (TxIns t) 0 = Ok all" and fee: "fee = wrap64 (all - total_out t)" "total_out t \<le> all"
    using assms(2,3) by (auto simp: CheckTransactionInputs_def bind_Ok_iff if_Err_Ok_iff)
  note out = sane_outputs [OF assms(1)] and tot = sum_inputs_ok [OF all, of base]
  have "wrap64 (all - total_out t) = all - value_out t"
    using tot out(2,3,4) fee(2) by simp
  then show "0 \<le> fee" and "fee \<le> MaxSatoshi"
      and "fee = sum_list (map (\<lambda>op. st_Amount (the (unspent base view op))) (inputs t)) - value_out t"
      and "set (inputs t) \<subseteq> dom (unspent base view)"
    using tot out(2,4) fee unfolding inputs_def by auto
qed

end
