(* ===== verification/Chain_Connect.thy ===== *)
theory Chain_Connect
  imports Chain_Rules Script_Run
begin

text \<open>
  Connecting a block: \<^verbatim>\<open>checkConnectBlock\<close> of \<^verbatim>\<open>coin/OrcaNet/blockchain/validate.go\<close> with the
  script checks of \<^verbatim>\<open>scriptval.go\<close>.  What the function reads of the chain is a record: the
  parameters of the network, the set of unspent outputs behind the view, the states of the three
  deployments for the parent block, median times and the latest checkpoint.
\<close>

section \<open>Scripts of a block\<close>

text \<open>One input, with the midstate of its transaction.  Running a script needs fuel.\<close>

type_synonym txValidateItem = "MsgTx \<times> nat \<times> TxSigHashes option"

definition validate_item :: "nat \<Rightarrow> script_env \<Rightarrow> u32 \<Rightarrow> UtxoViewpoint \<Rightarrow> txValidateItem \<Rightarrow> unit outcome option" where
  "validate_item fuel env fl view = (\<lambda>(t, i, sigHashes).
     case LookupEntry view (PreviousOutPoint (TxIns t ! i)) of
       None \<Rightarrow> Some (Err ''ErrMissingTxOut'')
     | Some utxo \<Rightarrow>
         (case NewEngine (pkScript utxo) t (int i) fl sigHashes (amount utxo) (FetchPrevOutput view) of
            Err _ \<Rightarrow> Some (Err ''ErrScriptMalformed'')
          | Panic p \<Rightarrow> Some (Panic p)
          | Ok vm \<Rightarrow>
              (case Execute fuel env vm of
                 None \<Rightarrow> None
               | Some (Ok _) \<Rightarrow> Some (Ok ())
               | Some (Err _) \<Rightarrow> Some (Err ''ErrScriptValidation'')
               | Some (Panic p) \<Rightarrow> Some (Panic p))))"

text \<open>
  The workers send their results in some order; the first error ends the validation.
\<close>

fun first_error :: "unit outcome option list \<Rightarrow> unit outcome option" where
  "first_error [] = Some (Ok ())"
| "first_error (r # rs) = (case r of Some (Ok _) \<Rightarrow> first_error rs | _ \<Rightarrow> r)"

definition cached_hashes ::
  "(bytes \<Rightarrow> bytes) \<Rightarrow> (bytes \<Rightarrow> TxSigHashes option) \<Rightarrow> bool \<Rightarrow> UtxoViewpoint \<Rightarrow> MsgTx \<Rightarrow> TxSigHashes option outcome" where
  "cached_hashes sha cache segwitActive view t =
     (if segwitActive \<and> HasWitness t
      then case cache (TxHash sha t) of
             Some m \<Rightarrow> Ok (Some m)
           | None \<Rightarrow> bind (NewTxSigHashes sha t (FetchPrevOutput view)) (\<lambda>m. Ok (Some m))
      else Ok None)"

fun script_items ::
  "(bytes \<Rightarrow> bytes) \<Rightarrow> (bytes \<Rightarrow> TxSigHashes option) \<Rightarrow> bool \<Rightarrow> UtxoViewpoint \<Rightarrow> MsgTx list \<Rightarrow> txValidateItem list outcome" where
  "script_items sha cache segwitActive view [] = Ok []"
| "script_items sha cache segwitActive view (t # ts) =
     bind (cached_hashes sha cache segwitActive view t) (\<lambda>sigHashes.
     bind (script_items sha cache segwitActive view ts) (\<lambda>items.
       Ok (map (\<lambda>i. (t, i, sigHashes)) (filter (\<lambda>i. snd (PreviousOutPoint (TxIns t ! i)) \<noteq> 2 ^ 32 - 1) [0 ..< length (TxIns t)]) @ items)))"

definition checkBlockScripts ::
  "nat \<Rightarrow> script_env \<Rightarrow> (bytes \<Rightarrow> TxSigHashes option) \<Rightarrow> (txValidateItem list \<Rightarrow> txValidateItem list) \<Rightarrow> MsgTx list \<Rightarrow> UtxoViewpoint \<Rightarrow> u32 \<Rightarrow>
     unit outcome option" where
  "checkBlockScripts fuel env cache arrival ts view scriptFlags =
     (case script_items (sha256 env) cache (scriptFlags AND ScriptVerifyWitness = ScriptVerifyWitness) view ts of
        Ok items \<Rightarrow> first_error (map (validate_item fuel env scriptFlags view) (arrival items))
      | Err e \<Rightarrow> Some (Err e)
      | Panic p \<Rightarrow> Some (Panic p))"

text \<open>The scripts of one transaction.\<close>

definition ValidateTransactionScripts ::
  "nat \<Rightarrow> script_env \<Rightarrow> (bytes \<Rightarrow> TxSigHashes option) \<Rightarrow> (txValidateItem list \<Rightarrow> txValidateItem list) \<Rightarrow> MsgTx \<Rightarrow> UtxoViewpoint \<Rightarrow> u32 \<Rightarrow>
     unit outcome option" where
  "ValidateTransactionScripts fuel env cache arrival t view fl =
     (case script_items (sha256 env) cache (fl AND ScriptVerifyWitness = ScriptVerifyWitness) view [t] of
        Ok items \<Rightarrow> first_error (map (validate_item fuel env fl view) (arrival items))
      | Err e \<Rightarrow> Some (Err e)
      | Panic p \<Rightarrow> Some (Panic p))"

section \<open>The chain\<close>

record chain_params =
  GenesisHash :: bytes
  BIP0034Height :: int
  BIP0065Height :: int
  BIP0066Height :: int
  CoinbaseMaturity :: int
  SubsidyReductionInterval :: int

record block_node =
  node_hash :: bytes
  node_height :: int
  node_timestamp :: int

record chain_ctx =
  params :: chain_params
  utxoCache :: utxo_source
  segwit_active :: "bool outcome"
  csv_active :: "bool outcome"
  taproot_active :: "bool outcome"
  parent_median :: int
  ancestor_median :: "int \<Rightarrow> int"
  latest_checkpoint :: "int option"
  sig_hash_cache :: "bytes \<Rightarrow> TxSigHashes option"
  script_arrival :: "txValidateItem list \<Rightarrow> txValidateItem list"

text \<open>A hash is written as a number whose last digits are its first byte.\<close>

definition isBIP0030Node :: "block_node \<Rightarrow> bool" where
  "isBIP0030Node node \<longleftrightarrow>
     node_height node = 91842 \<and> node_hash node = le_bytes 32 0x00000000000a4d0a398161ffc163c503763b1f4360639393e0e4c8e300e0caec \<or>
     node_height node = 91880 \<and> node_hash node = le_bytes 32 0x00000000000743f190a18c5577a3c2d2a1f610ae9601ac046a38084ccb7cd721"

definition block_outpoints :: "(bytes \<Rightarrow> bytes) \<Rightarrow> MsgTx list \<Rightarrow> outpoint list" where
  "block_outpoints sha ts = concat (map (\<lambda>t. map (\<lambda>i. (TxHash sha t, i)) [0 ..< length (TxOuts t)]) ts)"

definition checkBIP0030 :: "(bytes \<Rightarrow> bytes) \<Rightarrow> utxo_source \<Rightarrow> MsgTx list \<Rightarrow> UtxoViewpoint \<Rightarrow> UtxoViewpoint outcome" where
  "checkBIP0030 sha cache ts view =
     bind (fetchUtxos cache (block_outpoints sha ts) view) (\<lambda>view'.
       if list_ex (\<lambda>op. case LookupEntry view' op of Some utxo \<Rightarrow> \<not> IsSpent utxo | None \<Rightarrow> False) (block_outpoints sha ts)
       then Err ''ErrOverwriteTx'' else Ok view')"

fun sigop_loop :: "UtxoViewpoint \<Rightarrow> bool \<Rightarrow> bool \<Rightarrow> nat \<Rightarrow> MsgTx list \<Rightarrow> nat \<Rightarrow> unit outcome" where
  "sigop_loop view enforceBIP0016 enforceSegWit i [] totalSigOpCost = Ok ()"
| "sigop_loop view enforceBIP0016 enforceSegWit i (t # ts) totalSigOpCost =
     bind (GetSigOpCost t (i = 0) view enforceBIP0016 enforceSegWit) (\<lambda>sigOpCost.
       if totalSigOpCost + sigOpCost > MaxBlockSigOpsCost then Err ''ErrTooManySigOps''
       else sigop_loop view enforceBIP0016 enforceSegWit (i + 1) ts (totalSigOpCost + sigOpCost))"

fun connect_loop ::
  "(bytes \<Rightarrow> bytes) \<Rightarrow> int \<Rightarrow> int \<Rightarrow> MsgTx list \<Rightarrow> UtxoViewpoint \<Rightarrow> SpentTxOut list option \<Rightarrow> int \<Rightarrow>
     (UtxoViewpoint \<times> SpentTxOut list option \<times> int) outcome" where
  "connect_loop sha maturity height [] view stxos totalFees = Ok (view, stxos, totalFees)"
| "connect_loop sha maturity height (t # ts) view stxos totalFees =
     bind (CheckTransactionInputs maturity t height view) (\<lambda>txFee.
       let fees = wrap64 (totalFees + txFee)
       in if fees < totalFees then Err ''ErrBadFees''
          else bind (connectTransaction sha t height view stxos) (\<lambda>(view', stxos').
               connect_loop sha maturity height ts view' stxos' fees))"

fun lock_check :: "chain_ctx \<Rightarrow> int \<Rightarrow> UtxoViewpoint \<Rightarrow> MsgTx list \<Rightarrow> unit outcome" where
  "lock_check b height view [] = Ok ()"
| "lock_check b height view (t # ts) =
     bind (calcSequenceLock (csv_active b) (ancestor_median b) height t view False) (\<lambda>sequenceLock.
       if \<not> SequenceLockActive sequenceLock height (parent_median b) then Err ''ErrUnfinalizedTx''
       else lock_check b height view ts)"

text \<open>The flags the scripts of the block run under; the relative locks are checked on the way.\<close>

definition script_flags :: "chain_ctx \<Rightarrow> block_node \<Rightarrow> Block \<Rightarrow> bool \<Rightarrow> bool \<Rightarrow> UtxoViewpoint \<Rightarrow> u32 outcome" where
  "script_flags b node block enforceBIP0016 enforceSegWit view =
     (let version = hdr_Version (Header (msgBlock block)); height = node_height node;
          f1 = (if enforceBIP0016 then ScriptBip16 else 0) OR
               (if version \<ge> 3 \<and> height \<ge> BIP0066Height (params b) then ScriptVerifyDERSignatures else 0) OR
               (if version \<ge> 4 \<and> height \<ge> BIP0065Height (params b) then ScriptVerifyCheckLockTimeVerify else 0)
      in bind (csv_active b) (\<lambda>csv.
         bind (if csv then lock_check b height view (block_txs block) else Ok ()) (\<lambda>_.
         bind (taproot_active b) (\<lambda>taproot.
           Ok (f1 OR (if csv then ScriptVerifyCheckSequenceVerify else 0) OR
               (if enforceSegWit then ScriptVerifyWitness OR ScriptStrictMultiSig else 0) OR
               (if taproot then ScriptVerifyTaproot else 0))))))"

definition runScripts :: "chain_ctx \<Rightarrow> block_node \<Rightarrow> bool" where
  "runScripts b node = (case latest_checkpoint b of Some h \<Rightarrow> \<not> node_height node \<le> h | None \<Rightarrow> True)"

text \<open>Everything up to the scripts.\<close>

definition connect_checks ::
  "(bytes \<Rightarrow> bytes) \<Rightarrow> chain_ctx \<Rightarrow> block_node \<Rightarrow> Block \<Rightarrow> UtxoViewpoint \<Rightarrow> SpentTxOut list option \<Rightarrow>
     (UtxoViewpoint \<times> SpentTxOut list option \<times> u32) outcome" where
  "connect_checks sha b node block view stxos =
     (if node_hash node = GenesisHash (params b) then Err ''ErrMissingTxOut''
      else if bestHash view \<noteq> PrevBlock (Header (msgBlock block)) then Err ''inconsistent view when checking block connection''
      else bind (if \<not> isBIP0030Node node \<and> node_height node < BIP0034Height (params b)
                 then checkBIP0030 sha (utxoCache b) (block_txs block) view else Ok view) (\<lambda>view1.
           bind (fetchInputUtxos sha (utxoCache b) block view1) (\<lambda>view2.
           let enforceBIP0016 = (node_timestamp node \<ge> 1333238400)
           in bind (segwit_active b) (\<lambda>enforceSegWit.
              bind (sigop_loop view2 enforceBIP0016 enforceSegWit 0 (block_txs block) 0) (\<lambda>_.
              bind (connect_loop sha (CoinbaseMaturity (params b)) (node_height node) (block_txs block) view2 stxos 0) (\<lambda>(view3, stxos', totalFees).
              bind (index (block_txs block) 0) (\<lambda>coinbase.
                if total_out coinbase > wrap64 (CalcBlockSubsidy (node_height node) (SubsidyReductionInterval (params b)) + totalFees)
                then Err ''ErrBadCoinbaseValue''
                else bind (script_flags b node block enforceBIP0016 enforceSegWit view3) (\<lambda>scriptFlags.
                     Ok (view3, stxos', scriptFlags)))))))))"

definition checkConnectBlock ::
  "nat \<Rightarrow> script_env \<Rightarrow> chain_ctx \<Rightarrow> block_node \<Rightarrow> Block \<Rightarrow> UtxoViewpoint \<Rightarrow> SpentTxOut list option \<Rightarrow>
     (UtxoViewpoint \<times> SpentTxOut list option) outcome option" where
  "checkConnectBlock fuel env b node block view stxos =
     (case connect_checks (sha256 env) b node block view stxos of
        Err e \<Rightarrow> Some (Err e)
      | Panic p \<Rightarrow> Some (Panic p)
      | Ok (view', stxos', scriptFlags) \<Rightarrow>
          (case (if runScripts b node
                 then checkBlockScripts fuel env (sig_hash_cache b) (script_arrival b) (block_txs block) view' scriptFlags
                 else Some (Ok ())) of
             None \<Rightarrow> None
           | Some (Err e) \<Rightarrow> Some (Err e)
           | Some (Panic p) \<Rightarrow> Some (Panic p)
           | Some (Ok _) \<Rightarrow> Some (Ok (SetBestHash (node_hash node) view', stxos'))))"

end
