(* ===== verification/Chain_Value.thy ===== *)
theory Chain_Value
  imports Chain_Connect
begin

text \<open>
  The amount of money: a block that \<^verbatim>\<open>checkConnectBlock\<close> accepts adds at most the subsidy to the
  value of the unspent outputs, provided its transactions are in order or its coinbase names its
  height.
\<close>

section \<open>The value of a set of coins\<close>

definition coins_value :: "utxo_set \<Rightarrow> int" where
  "coins_value U = (\<Sum>op \<in> dom U. st_Amount (the (U op)))"

definition coins_ok :: "utxo_set \<Rightarrow> bool" where
  "coins_ok U \<longleftrightarrow> finite (dom U) \<and> (\<forall>op \<in> dom U. 0 \<le> st_Amount (the (U op)))"

lemma coins_ok_nonneg: "coins_ok U \<Longrightarrow> op \<in> dom U \<Longrightarrow> 0 \<le> st_Amount (the (U op))"
  unfolding coins_ok_def by blast

lemma value_restrict:
  assumes "finite (dom U)" and "distinct ops" and "set ops \<subseteq> dom U"
  shows "coins_value (U |` (- set ops)) = coins_value U - sum_list (map (\<lambda>op. st_Amount (the (U op))) ops)"
proof -
  have "coins_value (U |` (- set ops)) = (\<Sum>op \<in> dom U - set ops. st_Amount (the (U op)))"
    unfolding coins_value_def by (intro sum.cong) auto
  also have "\<dots> = coins_value U - (\<Sum>op \<in> set ops. st_Amount (the (U op)))"
    unfolding coins_value_def using assms(1,3) by (intro sum_diff) auto
  finally show ?thesis
    using assms(2) by (simp add: sum_list_distinct_conv_sum_set)
qed

lemma value_add:
  assumes "coins_ok U" and "finite (dom V)"
  shows "coins_value (U ++ V) \<le> coins_value U + coins_value V"
proof -
  have fin: "finite (dom U)"
    using assms(1) by (simp add: coins_ok_def)
  have "coins_value (U ++ V) = (\<Sum>op \<in> (dom U - dom V) \<union> dom V. st_Amount (the ((U ++ V) op)))"
    unfolding coins_value_def by (intro sum.cong) auto
  also have "\<dots> = (\<Sum>op \<in> dom U - dom V. st_Amount (the ((U ++ V) op))) + (\<Sum>op \<in> dom V. st_Amount (the ((U ++ V) op)))"
    using fin assms(2) by (intro sum.union_disjoint) auto
  also have "(\<Sum>op \<in> dom V. st_Amount (the ((U ++ V) op))) = coins_value V"
    unfolding coins_value_def by (intro sum.cong) (auto simp: map_add_dom_app_simps)
  also have "(\<Sum>op \<in> dom U - dom V. st_Amount (the ((U ++ V) op))) = (\<Sum>op \<in> dom U - dom V. st_Amount (the (U op)))"
    by (intro sum.cong) (auto simp: map_add_dom_app_simps)
  also have "\<dots> \<le> coins_value U"
    unfolding coins_value_def using fin coins_ok_nonneg [OF assms(1)] by (intro sum_mono2) auto
  finally show ?thesis
    by simp
qed

lemma dom_outputs:
  "dom (outputs sha t h) = Pair (TxHash sha t) ` {i. i < length (TxOuts t) \<and> \<not> IsUnspendable (PkScript (TxOuts t ! i))}"
  by (auto simp: outputs_def dom_def image_iff split: if_splits)

lemma value_outputs:
  assumes "\<forall>out \<in> set (TxOuts t). 0 \<le> out_Value out"
  shows "coins_value (outputs sha t h) \<le> value_out t" and "coins_ok (outputs sha t h)"
proof -
  let ?S = "{i. i < length (TxOuts t) \<and> \<not> IsUnspendable (PkScript (TxOuts t ! i))}"
  have "coins_value (outputs sha t h) = (\<Sum>i \<in> ?S. out_Value (TxOuts t ! i))"
    unfolding coins_value_def dom_outputs by (subst sum.reindex) (auto simp: inj_on_def outputs_def)
  also have "\<dots> \<le> (\<Sum>i \<in> {..< length (TxOuts t)}. out_Value (TxOuts t ! i))"
    using assms by (intro sum_mono2) auto
  also have "\<dots> = value_out t"
    by (simp add: value_out_def sum_list_sum_nth atLeast0LessThan)
  finally show "coins_value (outputs sha t h) \<le> value_out t" .
  show "coins_ok (outputs sha t h)"
    using assms unfolding coins_ok_def dom_outputs by (auto simp: outputs_def)
qed

lemma coins_ok_add: "coins_ok U \<Longrightarrow> coins_ok V \<Longrightarrow> coins_ok (U ++ V)"
  unfolding coins_ok_def dom_map_add by (metis UnE finite_Un domIff map_add_dom_app_simps(1,3))

lemma coins_ok_restrict: "coins_ok U \<Longrightarrow> coins_ok (U |` A)"
  unfolding coins_ok_def by (simp add: dom_restrict)

lemma apply_tx_ok:
  assumes "coins_ok U" and "\<forall>out \<in> set (TxOuts t). 0 \<le> out_Value out"
  shows "coins_ok (apply_tx sha h U t)"
  using assms by (auto simp: apply_tx_def intro!: coins_ok_add coins_ok_restrict value_outputs(2))

lemma apply_tx_value:
  assumes "coins_ok U" and "\<forall>out \<in> set (TxOuts t). 0 \<le> out_Value out"
    and "\<not> IsCoinBase t \<Longrightarrow> distinct (inputs t) \<and> set (inputs t) \<subseteq> dom U"
  shows "coins_value (apply_tx sha h U t) \<le> coins_value U + value_out t -
    (if IsCoinBase t then 0 else sum_list (map (\<lambda>op. st_Amount (the (U op))) (inputs t)))"
proof -
  let ?V = "if IsCoinBase t then U else U |` (- set (inputs t))"
  have "coins_value (apply_tx sha h U t) \<le> coins_value ?V + coins_value (outputs sha t h)"
    unfolding apply_tx_def using assms(1) coins_ok_restrict value_outputs(2) [OF assms(2), of sha h]
    by (intro value_add) (auto simp: coins_ok_def)
  moreover have "coins_value ?V = coins_value U - (if IsCoinBase t then 0 else sum_list (map (\<lambda>op. st_Amount (the (U op))) (inputs t)))"
    using assms(1,3) value_restrict [of U "inputs t"] by (simp add: coins_ok_def)
  ultimately show ?thesis
    using value_outputs(1) [OF assms(2), of sha h] by linarith
qed

section \<open>Connecting the transactions\<close>

text \<open>
  The coins a transaction spends; and a coin that a list of transactions creates before any of them
  spends it.
\<close>

definition spends :: "MsgTx \<Rightarrow> outpoint set" where
  "spends t = (if IsCoinBase t then {} else set (inputs t))"

fun late :: "(bytes \<Rightarrow> bytes) \<Rightarrow> int \<Rightarrow> MsgTx list \<Rightarrow> outpoint \<Rightarrow> bool" where
  "late sha h [] op = False"
| "late sha h (t # ts) op \<longleftrightarrow> op \<notin> spends t \<and> (op \<in> dom (outputs sha t h) \<or> late sha h ts op)"

lemma late_nth:
  "k < length ts \<Longrightarrow> op \<in> dom (outputs sha (ts ! k) h) \<Longrightarrow> \<forall>j \<le> k. op \<notin> spends (ts ! j) \<Longrightarrow> late sha h ts op"
proof (induction ts arbitrary: k)
  case (Cons t ts)
  have first: "op \<notin> spends t"
    using Cons.prems(3) by (metis le0 nth_Cons_0)
  show ?case
  proof (cases k)
    case (Suc k')
    then have "\<forall>j \<le> k'. op \<notin> spends (ts ! j)"
      using Cons.prems(3) by (metis Suc_le_mono nth_Cons_Suc)
    then show ?thesis
      using Cons.IH [of k'] Cons.prems(1,2) first Suc by simp
  qed (use first Cons.prems(2) in simp)
qed simp

text \<open>
  Loading the inputs of a block may put coins into the view that the block creates only later.
  Two sets of coins that agree but for those.
\<close>

definition agree :: "(bytes \<Rightarrow> bytes) \<Rightarrow> int \<Rightarrow> MsgTx list \<Rightarrow> utxo_set \<Rightarrow> utxo_set \<Rightarrow> bool" where
  "agree sha h ts V U \<longleftrightarrow> (\<forall>op. V op \<noteq> U op \<longrightarrow> late sha h ts op)"

lemma agree_step:
  assumes "agree sha h (t # ts) V U"
  shows "agree sha h ts (apply_tx sha h V t) (apply_tx sha h U t)"
  unfolding agree_def
proof (intro allI impI)
  fix op
  assume "apply_tx sha h V t op \<noteq> apply_tx sha h U t op"
  then have "op \<notin> dom (outputs sha t h)" "V op \<noteq> U op"
    by (auto simp: apply_tx_def map_add_def restrict_map_def split: option.splits if_splits)
  then show "late sha h ts op"
    using assms unfolding agree_def by fastforce
qed

lemma agree_inputs: "agree sha h (t # ts) V U \<Longrightarrow> op \<in> spends t \<Longrightarrow> V op = U op"
  unfolding agree_def by fastforce

lemma connect_loop_value:
  assumes "connect_loop sha maturity h ts view s fees = Ok (view', s', fees')"
    and "\<forall>t \<in> set ts. CheckTransactionSanity t = Ok ()"
    and "coins_ok V" and "agree sha h ts V (unspent base view)" and "0 \<le> fees" and "fees < 2 ^ 63"
  shows "coins_ok (unspent base view') \<and> 0 \<le> fees' \<and> fees' < 2 ^ 63 \<and>
    coins_value (unspent base view') + (fees' - fees) \<le> coins_value V + sum_list (map value_out (filter IsCoinBase ts))"
  using assms
proof (induction ts arbitrary: view s fees V)
  case Nil
  then have "V = unspent base view"
    by (auto simp: agree_def)
  then show ?case
    using Nil by simp
next
  case (Cons t ts)
  obtain fee v s1 where fee: "CheckTransactionInputs maturity t h view = Ok fee" and up: "fees \<le> wrap64 (fees + fee)"
      and c: "connectTransaction sha t h view s = Ok (v, s1)" and rest: "connect_loop sha maturity h ts v s1 (wrap64 (fees + fee)) = Ok (view', s', fees')"
    using Cons.prems(1) by (auto simp: bind_Ok_iff Let_def if_Err_Ok_iff)
  have sane: "CheckTransactionSanity t = Ok ()"
    using Cons.prems(2) by simp
  note out = sane_outputs [OF sane]
  have feeb: "0 \<le> fee \<and> fee \<le> MaxSatoshi"
    using checked_inputs(1,3) [OF sane fee] fee by (cases "IsCoinBase t") (auto simp: CheckTransactionInputs_def)
  have w: "wrap64 (fees + fee) = fees + fee"
  proof (rule ccontr)
    assume "wrap64 (fees + fee) \<noteq> fees + fee"
    then have "2 ^ 63 \<le> fees + fee"
      using Cons.prems(5) feeb wrap64_id [of "fees + fee"] by linarith
    then have "wrap64 (fees + fee) = fees + fee - 2 ^ 64"
      using wrap_mod(3) [of "fees + fee - 2 ^ 64"] wrap64_id [of "fees + fee - 2 ^ 64"] wrap_mod(3) [of "fees + fee"] feeb Cons.prems(6)
      by simp
    then show False
      using up feeb by simp
  qed
  have same: "V op = unspent base view op" if "op \<in> set (inputs t)" "\<not> IsCoinBase t" for op
    using agree_inputs [OF Cons.prems(4)] that by (simp add: spends_def)
  have ins: "distinct (inputs t) \<and> set (inputs t) \<subseteq> dom V" if "\<not> IsCoinBase t"
    using out(5) checked_inputs(4) [OF sane fee that, of base] same [OF _ that] by auto
  have sums: "sum_list (map (\<lambda>op. st_Amount (the (V op))) (inputs t)) = fee + value_out t" if "\<not> IsCoinBase t"
  proof -
    have "map (\<lambda>op. st_Amount (the (V op))) (inputs t) = map (\<lambda>op. st_Amount (the (unspent base view op))) (inputs t)"
      using same that by simp
    then show ?thesis
      using checked_inputs(2) [OF sane fee that, of base] by (metis diff_add_cancel)
  qed
  have val: "coins_value (apply_tx sha h V t) + fee \<le> coins_value V + (if IsCoinBase t then value_out t else 0)"
    using apply_tx_value [OF Cons.prems(3) out(1) ins, of sha h] sums fee by (auto simp: CheckTransactionInputs_def)
  have "agree sha h ts (apply_tx sha h V t) (unspent base v)"
    using agree_step [OF Cons.prems(4)] connectTransaction_view [OF c] by simp
  from Cons.IH [OF rest _ apply_tx_ok [OF Cons.prems(3) out(1)] this] show ?case
    using Cons.prems(2,5,6) val up w wrap64_range [of "fees + fee"] by (simp split: if_splits)
qed

section \<open>Loading the inputs\<close>

text \<open>What stands behind the view answers with the coins of \<open>base\<close>.\<close>

definition source_ok :: "utxo_source \<Rightarrow> utxo_set \<Rightarrow> bool" where
  "source_ok cache base \<longleftrightarrow> (\<forall>op e. cache op = Ok e \<longrightarrow> live e = base op)"

lemma fetch_unspent:
  assumes "fetchUtxosFromCache cache ops view = Ok view'" and "source_ok cache base"
  shows "unspent base view' op = (if op \<in> set ops then base op else unspent base view op)"
  using assms
proof (induction ops arbitrary: view)
  case (Cons a ops)
  then obtain e where e: "cache a = Ok e" "fetchUtxosFromCache cache ops (put_entry a e view) = Ok view'"
    by (auto simp: bind_Ok_iff)
  then have "live e = base a"
    using Cons.prems(2) unfolding source_ok_def by blast
  then show ?case
    using Cons.IH [OF e(2) Cons.prems(2)] by simp
qed simp

lemma fetchUtxos_unspent:
  assumes "fetchUtxos cache ops view = Ok view'" and "source_ok cache base"
  shows "unspent base view' = unspent base view"
proof (rule ext)
  fix op
  show "unspent base view' op = unspent base view op"
    using fetch_unspent [OF assms(1) [unfolded fetchUtxos_def] assms(2)] by (auto simp: unspent_def)
qed

lemma checkBIP0030_unspent:
  "checkBIP0030 sha cache ts view = Ok view' \<Longrightarrow> source_ok cache base \<Longrightarrow> unspent base view' = unspent base view"
  by (auto simp: checkBIP0030_def bind_Ok_iff if_Err_Ok_iff dest: fetchUtxos_unspent)

text \<open>
  The transactions in flight: the last one with a hash.
\<close>

lemma txInFlight_snoc:
  "txInFlight sha (ts @ [t]) = (txInFlight sha ts)(TxHash sha t \<mapsto> length ts)"
  by (simp add: txInFlight_def enumerate_append_eq)

lemma txInFlight_bound: "txInFlight sha ts h = Some m \<Longrightarrow> m < length ts \<and> TxHash sha (ts ! m) = h"
proof (induction ts rule: rev_induct)
  case (snoc t ts)
  then show ?case
    by (auto simp: txInFlight_snoc nth_append split: if_splits)
qed (simp add: txInFlight_def)

lemma txInFlight_last: "k < length ts \<Longrightarrow> \<exists>m. txInFlight sha ts (TxHash sha (ts ! k)) = Some m \<and> k \<le> m"
proof (induction ts rule: rev_induct)
  case (snoc t ts)
  then show ?case
    by (cases "k = length ts") (auto simp: txInFlight_snoc nth_append)
qed simp

text \<open>
  Finding the inputs only adds entries, asks only for missing ones and changes only coins that some
  transaction of the block creates.
\<close>

definition found :: "(bytes \<Rightarrow> bytes) \<Rightarrow> int \<Rightarrow> MsgTx list \<Rightarrow> UtxoViewpoint \<times> outpoint list \<Rightarrow> UtxoViewpoint \<times> outpoint list \<Rightarrow> bool" where
  "found sha h txs = (\<lambda>(view, needed) (view', needed').
     (\<forall>op. entries view' op = None \<longrightarrow> entries view op = None) \<and>
     set needed \<subseteq> set needed' \<and> (\<forall>op \<in> set needed' - set needed. entries view op = None) \<and>
     (\<forall>op. entries view' op \<noteq> entries view op \<longrightarrow> (\<exists>t \<in> set txs. op \<in> dom (outputs sha t h))))"

lemma found_refl: "found sha h txs a a"
  by (simp add: found_def split_def)

lemma found_trans: "found sha h txs a b \<Longrightarrow> found sha h txs b c \<Longrightarrow> found sha h txs a c"
  unfolding found_def split_def by (intro conjI) (blast | (clarify, metis))+

lemma entries_add_loop:
  "entries (foldl (\<lambda>view (i, out). addTxOut (hash, i) out c height view) view (enumerate k us)) op =
     (if fst op = hash \<and> k \<le> snd op \<and> snd op < k + length us \<and> \<not> IsUnspendable (PkScript (us ! (snd op - k)))
      then Some (Some \<lparr>amount = out_Value (us ! (snd op - k)), pkScript = PkScript (us ! (snd op - k)), blockHeight = height,
             packedFlags = (tfFresh OR tfModified) OR (if c then tfCoinBase else 0)\<rparr>)
      else entries view op)"
proof (induction us arbitrary: k view)
  case (Cons u us)
  then show ?case
    by (cases op) (auto simp: addTxOut_def put_entry_def nth_Cons' Suc_le_eq)
qed auto

lemma entries_AddTxOuts:
  "entries (AddTxOuts sha t h view) op = None \<Longrightarrow> entries view op = None"
  "op \<notin> dom (outputs sha t h) \<Longrightarrow> entries (AddTxOuts sha t h view) op = entries view op"
  unfolding AddTxOuts_def entries_add_loop dom_def outputs_def by (auto split: if_splits)

lemma found_AddTxOuts: "t \<in> set txs \<Longrightarrow> found sha h txs (view, needed) (AddTxOuts sha t h view, needed)"
  unfolding found_def split_def fst_conv snd_conv
  using entries_AddTxOuts(1) [of sha t h view] entries_AddTxOuts(2) [of _ sha t h view] by (intro conjI allI impI) (blast | simp)+

lemma found_inputs: "found sha h txs (view, needed) (find_inputs sha txs h i tis view needed)"
proof (induction tis arbitrary: view needed)
  case (Cons ti tis)
  let ?op = "PreviousOutPoint ti"
  have ask: "found sha h txs (view, needed) (view, needed @ [?op])" if "entries view ?op = None"
    using that unfolding found_def split_def by auto
  show ?case
  proof (cases "txInFlight sha txs (fst ?op)")
    case None
    then show ?thesis
      using Cons.IH found_trans [OF ask Cons.IH] by (auto simp: Let_def)
  next
    case (Some m)
    have "found sha h txs (view, needed) (AddTxOuts sha (txs ! m) h view, needed)"
      using txInFlight_bound [OF Some] by (intro found_AddTxOuts) simp
    from found_trans [OF this Cons.IH] show ?thesis
      using Some Cons.IH found_trans [OF ask Cons.IH] by (auto simp: Let_def)
  qed
qed (simp add: found_refl)

lemma found_loop: "found sha h txs (view, needed) (find_loop sha txs h i ts view needed)"
proof (induction ts arbitrary: i view needed)
  case (Cons t ts)
  show ?case
    using found_inputs [of sha h txs view needed i "TxIns t"] Cons.IH found_trans
    by (cases "find_inputs sha txs h i (TxIns t) view needed") auto
qed (simp add: found_refl)


text \<open>
  An outpoint that the view does not have and that no transaction before the current one creates
  stays missing, and is asked for when it is spent.
\<close>

lemma find_inputs_asks:
  assumes "entries view op = None" and "\<forall>m. txInFlight sha txs (fst op) = Some m \<longrightarrow> i < m"
  shows "entries (fst (find_inputs sha txs h i tis view needed)) op = None \<and>
    (op \<in> PreviousOutPoint ` set tis \<longrightarrow> op \<in> set (snd (find_inputs sha txs h i tis view needed)))"
  using assms(1)
proof (induction tis arbitrary: view needed)
  case (Cons ti tis)
  let ?op = "PreviousOutPoint ti"
  have keep: "set (needed @ [?op]) \<subseteq> set (snd (find_inputs sha txs h i tis view (needed @ [?op])))"
    using found_inputs [of sha h txs view "needed @ [?op]" i tis] unfolding found_def split_def by simp
  show ?case
  proof (cases "txInFlight sha txs (fst ?op)")
    case None
    then show ?thesis
      using Cons keep by (auto simp: Let_def)
  next
    case (Some m)
    have "op \<notin> dom (outputs sha (txs ! m) h)" if "m \<le> i"
      using txInFlight_bound [OF Some] Some assms(2) that by (auto simp: outputs_def dom_def split: if_splits)
    then have "entries (AddTxOuts sha (txs ! m) h view) op = None" if "m \<le> i"
      using that Cons.prems entries_AddTxOuts(2) by metis
    then show ?thesis
      using Cons Some keep assms(2) by (auto simp: Let_def)
  qed
qed simp

lemma find_loop_asks:
  assumes "entries view op = None" and "d < length ts" and "op \<in> set (inputs (ts ! d))" and "\<forall>m. txInFlight sha txs (fst op) = Some m \<longrightarrow> i + d < m"
  shows "op \<in> set (snd (find_loop sha txs h i ts view needed))"
  using assms
proof (induction ts arbitrary: i d view needed)
  case (Cons t ts)
  obtain view' needed' where f: "find_inputs sha txs h i (TxIns t) view needed = (view', needed')"
    by fastforce
  have ask: "entries view' op = None" "op \<in> set (inputs t) \<longrightarrow> op \<in> set needed'"
    using find_inputs_asks [OF Cons.prems(1), of sha txs i h "TxIns t" needed] Cons.prems(4) unfolding f
    by (auto simp: inputs_def intro: le_less_trans [OF le_add1])
  show ?case
  proof (cases d)
    case 0
    then show ?thesis
      using ask(2) Cons.prems(3) f found_loop [of sha h txs view' needed' "i + 1" ts] unfolding found_def split_def by auto
  next
    case (Suc d')
    then show ?thesis
      using Cons.IH [OF ask(1), of d' "i + 1" needed'] Cons.prems(2,3,4) f by simp
  qed
qed simp


lemma fetchInputUtxos_changes:
  assumes "fetchInputUtxos sha cache block view = Ok view'" and "source_ok cache base" and "block_txs block = cb # ts"
    and "unspent base view op \<noteq> unspent base view' op"
  shows "\<exists>t \<in> set (cb # ts). op \<in> dom (outputs sha t h)"
    and "entries view op = None \<Longrightarrow> d < length ts \<Longrightarrow> op \<in> set (inputs (ts ! d)) \<Longrightarrow>
      \<exists>m \<le> d. txInFlight sha (cb # ts) (fst op) = Some m"
proof -
  obtain v needed where f: "find_loop sha (cb # ts) (blk_Height block) 0 ts view [] = (v, needed)" and c: "fetchUtxosFromCache cache needed v = Ok view'"
    using assms(1,3) by (auto simp: fetchInputUtxos_def findInputsToFetch_def slice_def bind_Ok_iff split: prod.splits)
  note g = found_loop [of sha "blk_Height block" "cb # ts" view "[]" 0 ts, unfolded f found_def split_def fst_conv snd_conv]
  have u: "unspent base view' op = (if op \<in> set needed then base op else unspent base v op)"
    by (rule fetch_unspent [OF c assms(2)])
  have n: "op \<notin> set needed"
  proof
    assume "op \<in> set needed"
    then have "entries view op = None"
      using g by simp
    then show False
      using assms(4) u \<open>op \<in> set needed\<close> by (simp add: unspent_def)
  qed
  then have "entries v op \<noteq> entries view op"
    using assms(4) u by (auto simp: unspent_def)
  then show "\<exists>t \<in> set (cb # ts). op \<in> dom (outputs sha t h)"
    using g unfolding dom_outputs by blast
  show "\<exists>m \<le> d. txInFlight sha (cb # ts) (fst op) = Some m"
    if "entries view op = None" "d < length ts" "op \<in> set (inputs (ts ! d))"
    using find_loop_asks [OF that, of sha "cb # ts" 0 "blk_Height block" "[]"] n f by fastforce
qed

text \<open>
  A block in order: no transaction spends an output of itself or of a later one.
\<close>

fun in_order :: "(bytes \<Rightarrow> bytes) \<Rightarrow> MsgTx list \<Rightarrow> bool" where
  "in_order sha [] = True"
| "in_order sha (t # ts) \<longleftrightarrow> (\<forall>op \<in> spends t. \<forall>u \<in> set (t # ts). fst op \<noteq> TxHash sha u) \<and> in_order sha ts"

lemma in_order_late: "in_order sha ts \<Longrightarrow> t \<in> set ts \<Longrightarrow> op \<in> dom (outputs sha t h) \<Longrightarrow> late sha h ts op"
proof (induction ts)
  case (Cons u us)
  have "fst op = TxHash sha t"
    using Cons.prems(3) by (simp add: outputs_def dom_def split: if_splits)
  then have "op \<notin> spends u"
    using Cons.prems(1,2) by (metis in_order.simps(2))
  then show ?case
    using Cons by auto
qed simp

lemma agree_in_order:
  assumes "fetchInputUtxos sha cache block view = Ok view'" and "source_ok cache base" and "block_txs block = cb # ts"
    and "in_order sha (cb # ts)"
  shows "agree sha h (cb # ts) (unspent base view) (unspent base view')"
  unfolding agree_def using fetchInputUtxos_changes(1) [OF assms(1-3)] in_order_late [OF assms(4)] by blast

lemma agree_fresh:
  assumes "fetchInputUtxos sha cache block view = Ok view'" and "source_ok cache base" and "block_txs block = cb # ts"
    and "entries view = Map.empty" and "IsCoinBase cb"
  shows "agree sha h (cb # ts) (unspent base view) (unspent base view')"
  unfolding agree_def
proof (intro allI impI)
  fix op
  assume ne: "unspent base view op \<noteq> unspent base view' op"
  then obtain t where "t \<in> set (cb # ts)" "op \<in> dom (outputs sha t h)"
    using fetchInputUtxos_changes(1) [OF assms(1-3)] by blast
  then obtain k where k: "k < length (cb # ts)" "op \<in> dom (outputs sha ((cb # ts) ! k) h)"
    by (metis in_set_conv_nth)
  have hash: "fst op = TxHash sha ((cb # ts) ! k)"
    using k(2) by (simp add: outputs_def dom_def split: if_splits)
  show "late sha h (cb # ts) op"
  proof (rule late_nth [OF k], intro allI impI notI)
    fix j
    assume j: "j \<le> k" "op \<in> spends ((cb # ts) ! j)"
    then obtain d where d: "j = Suc d"
      using assms(5) by (cases j) (auto simp: spends_def)
    then obtain m where "m \<le> d" "txInFlight sha (cb # ts) (fst op) = Some m"
      using fetchInputUtxos_changes(2) [OF assms(1-3) ne, of d] assms(4) j k(1) by (auto simp: spends_def split: if_splits)
    moreover obtain m' where "txInFlight sha (cb # ts) (fst op) = Some m'" "k \<le> m'"
      using txInFlight_last [OF k(1), of sha] unfolding hash by blast
    ultimately show False
      using j(1) d by simp
  qed
qed


section \<open>No inflation\<close>

lemma CalcBlockSubsidy_bounds: "0 \<le> CalcBlockSubsidy h i \<and> CalcBlockSubsidy h i \<le> baseSubsidy"
proof -
  have "0 \<le> drop_bit n baseSubsidy \<and> drop_bit n baseSubsidy \<le> baseSubsidy" for n
    using zdiv_mono2 [of baseSubsidy 1 "2 ^ n"] by (simp add: drop_bit_eq_div pos_imp_zdiv_nonneg_iff)
  then show ?thesis
    unfolding CalcBlockSubsidy_def Let_def by simp
qed

text \<open>The outputs of the coinbase are at most the subsidy and the fees; a sum that wraps around is negative.\<close>

lemma coinbase_bound:
  assumes "value_out cb \<le> wrap64 (CalcBlockSubsidy h i + fees)" and "0 \<le> value_out cb" and "0 \<le> fees" and "fees < 2 ^ 63"
  shows "value_out cb \<le> CalcBlockSubsidy h i + fees"
proof (cases "CalcBlockSubsidy h i + fees < 2 ^ 63")
  case True
  then show ?thesis
    using assms CalcBlockSubsidy_bounds [of h i] wrap64_id [of "CalcBlockSubsidy h i + fees"] by linarith
next
  case False
  then show ?thesis
    using wrap64_range [of "CalcBlockSubsidy h i + fees"] assms(1) by linarith
qed

lemma accepted_steps:
  assumes "checkConnectBlock fuel env b node block view stxos = Some (Ok (view', stxos'))" and "block_txs block = cb # ts"
  obtains view1 view2 view3 fees where
    "(if \<not> isBIP0030Node node \<and> node_height node < BIP0034Height (params b)
      then checkBIP0030 (sha256 env) (utxoCache b) (cb # ts) view else Ok view) = Ok view1"
    "fetchInputUtxos (sha256 env) (utxoCache b) block view1 = Ok view2"
    "connect_loop (sha256 env) (CoinbaseMaturity (params b)) (node_height node) (cb # ts) view2 stxos 0 = Ok (view3, stxos', fees)"
    "total_out cb \<le> wrap64 (CalcBlockSubsidy (node_height node) (SubsidyReductionInterval (params b)) + fees)"
    "view' = SetBestHash (node_hash node) view3"
proof -
  obtain view3 fl where c: "connect_checks (sha256 env) b node block view stxos = Ok (view3, stxos', fl)" and v: "view' = SetBestHash (node_hash node) view3"
  proof (cases "connect_checks (sha256 env) b node block view stxos")
    case (Ok r)
    then show ?thesis
      using assms(1) that unfolding checkConnectBlock_def
      by (cases r) (simp split: option.splits outcome.splits if_splits)
  qed (use assms(1) in \<open>simp_all add: checkConnectBlock_def\<close>)
  have i: "index (cb # ts) 0 = Ok cb"
    by simp
  show ?thesis
    using c v that unfolding connect_checks_def assms(2) Let_def if_Err_Ok_iff bind_Ok_iff i case_prod_beta
    by (metis outcome.inject(1) linorder_not_less prod.collapse prod.inject)
qed


text \<open>What both theorems rest on: how the coins of the view before and after loading compare.\<close>

lemma accepted_value:
  assumes "checkConnectBlock fuel env b node block view stxos = Some (Ok (view', stxos'))" and "block_txs block = cb # ts"
    and "IsCoinBase cb" and "\<forall>t \<in> set ts. \<not> IsCoinBase t" and "\<forall>t \<in> set (cb # ts). CheckTransactionSanity t = Ok ()"
    and "source_ok (utxoCache b) base" and "coins_ok (unspent base view)"
    and agree: "\<And>view1 view2. fetchInputUtxos (sha256 env) (utxoCache b) block view1 = Ok view2 \<Longrightarrow>
      view1 = view \<or> node_height node < BIP0034Height (params b) \<Longrightarrow>
      agree (sha256 env) (node_height node) (cb # ts) (unspent base view1) (unspent base view2)"
  shows "coins_ok (unspent base view') \<and> coins_value (unspent base view') \<le>
    coins_value (unspent base view) + CalcBlockSubsidy (node_height node) (SubsidyReductionInterval (params b))"
proof -
  from assms(1,2) obtain view1 view2 view3 fees where v1: "(if \<not> isBIP0030Node node \<and> node_height node < BIP0034Height (params b)
      then checkBIP0030 (sha256 env) (utxoCache b) (cb # ts) view else Ok view) = Ok view1"
    and v2: "fetchInputUtxos (sha256 env) (utxoCache b) block view1 = Ok view2"
    and v3: "connect_loop (sha256 env) (CoinbaseMaturity (params b)) (node_height node) (cb # ts) view2 stxos 0 = Ok (view3, stxos', fees)"
    and pay: "total_out cb \<le> wrap64 (CalcBlockSubsidy (node_height node) (SubsidyReductionInterval (params b)) + fees)"
    and v': "view' = SetBestHash (node_hash node) view3"
    by (rule accepted_steps)
  have u1: "unspent base view1 = unspent base view"
    using v1 checkBIP0030_unspent [OF _ assms(6)] by (auto split: if_splits)
  have "agree (sha256 env) (node_height node) (cb # ts) (unspent base view) (unspent base view2)"
    using agree [OF v2] v1 u1 by (auto split: if_splits)
  from connect_loop_value [OF v3 assms(5,7) this] have
    "coins_ok (unspent base view3) \<and> 0 \<le> fees \<and> fees < 2 ^ 63 \<and>
      coins_value (unspent base view3) + fees \<le> coins_value (unspent base view) + value_out cb"
    using assms(3,4) by simp
  moreover have "unspent base view' = unspent base view3"
    unfolding v' by (simp add: unspent_def SetBestHash_def fun_eq_iff)
  ultimately show ?thesis
    using coinbase_bound [of cb] sane_outputs(2,4) [of cb] assms(5) pay by fastforce
qed

text \<open>
  When \<^verbatim>\<open>checkConnectBlock\<close> accepts a block of sane transactions, a coinbase first
  and then no other, none of which spends an output of itself or of a later one, then the total
  value of the unspent outputs grows by at most the block subsidy, and no amount becomes negative.
\<close>

lemma no_inflation:
  assumes "checkConnectBlock fuel env b node block view stxos = Some (Ok (view', stxos'))" and "block_txs block = cb # ts"
    and "IsCoinBase cb" and "\<forall>t \<in> set ts. \<not> IsCoinBase t" and "\<forall>t \<in> set (cb # ts). CheckTransactionSanity t = Ok ()"
    and "source_ok (utxoCache b) base" and "coins_ok (unspent base view)"
    and "in_order (sha256 env) (cb # ts)"
  shows "coins_ok (unspent base view') \<and> coins_value (unspent base view') \<le>
    coins_value (unspent base view) + CalcBlockSubsidy (node_height node) (SubsidyReductionInterval (params b))"
  by (rule accepted_value [OF assms(1-7)]) (erule agree_in_order [OF _ assms(6,2,8)])

text \<open>
  From the height on at which coinbases name their height, the order of the transactions does
  not matter when the view starts out empty, as it does when a block extends the main chain.
\<close>

lemma no_inflation_any_order:
  assumes "checkConnectBlock fuel env b node block view stxos = Some (Ok (view', stxos'))" and "block_txs block = cb # ts"
    and "IsCoinBase cb" and "\<forall>t \<in> set ts. \<not> IsCoinBase t" and "\<forall>t \<in> set (cb # ts). CheckTransactionSanity t = Ok ()"
    and "source_ok (utxoCache b) base" and "coins_ok (unspent base view)"
    and "entries view = Map.empty" and "BIP0034Height (params b) \<le> node_height node"
  shows "coins_ok (unspent base view') \<and> coins_value (unspent base view') \<le>
    coins_value (unspent base view) + CalcBlockSubsidy (node_height node) (SubsidyReductionInterval (params b))"
  by (rule accepted_value [OF assms(1-7)]) (use agree_fresh [OF _ assms(6,2) _ assms(3)] assms(8,9) in auto)

end
