(* ===== verification/Chain_Difficulty.thy ===== *)
theory Chain_Difficulty
  imports Wire_Block
begin

text \<open>
  Proof-of-work targets and their compact form (\<^verbatim>\<open>coin/OrcaNet/blockchain/difficulty.go\<close>).  The big
  integers of the code are integers.  A chain of headers is the list of the blocks from the genesis
  block on, so a node is a prefix of it and its height is the length minus one; durations are in
  whole seconds.
\<close>

section \<open>Compact numbers\<close>

definition HashToBig :: "bytes \<Rightarrow> int" where
  "HashToBig hash = int (le_value hash)"

definition CompactToBig :: "u32 \<Rightarrow> int" where
  "CompactToBig compact =
     (let mantissa = compact AND 0x007fffff; isNegative = (compact AND 0x00800000 \<noteq> 0);
          exponent = unat (drop_bit 24 compact);
          bn = (if exponent \<le> 3 then uint (drop_bit (8 * (3 - exponent)) mantissa)
                else push_bit (8 * (exponent - 3)) (uint mantissa))
      in if isNegative then - bn else bn)"

text \<open>The number of bytes of a number without leading zeros.\<close>

fun byte_len :: "nat \<Rightarrow> nat" where
  "byte_len n = (if n = 0 then 0 else Suc (byte_len (n div 256)))"

declare byte_len.simps [simp del]

text \<open>The lowest word of the absolute value is cut to 32 bits; a shift to the right rounds down.\<close>

definition BigToCompact :: "int \<Rightarrow> u32" where
  "BigToCompact n =
     (if n = 0 then 0
      else
        let exponent = byte_len (nat \<bar>n\<bar>);
            mantissa = (if exponent \<le> 3 then push_bit (8 * (3 - exponent)) (of_int \<bar>n\<bar> :: u32)
                        else of_int \<bar>drop_bit (8 * (exponent - 3)) n\<bar>);
            (mantissa', exponent') = (if mantissa AND 0x00800000 \<noteq> 0 then (drop_bit 8 mantissa, exponent + 1) else (mantissa, exponent));
            compact = push_bit 24 (of_nat exponent') OR mantissa'
        in if n < 0 then compact OR 0x00800000 else compact)"

definition CalcWork :: "u32 \<Rightarrow> int" where
  "CalcWork bits =
     (let difficultyNum = CompactToBig bits
      in if difficultyNum \<le> 0 then 0 else 2 ^ 256 div (difficultyNum + 1))"

section \<open>The required difficulty\<close>

record diff_params =
  PoWNoRetargeting :: bool
  PowLimit :: int
  PowLimitBits :: u32
  ReduceMinDifficulty :: bool
  MinDiffReductionTime :: int
  TargetTimespan :: int
  RetargetAdjustmentFactor :: int
  blocksPerRetarget :: nat
  minRetargetTimespan :: int
  maxRetargetTimespan :: int

record header_ctx =
  ctx_Bits :: u32
  ctx_Timestamp :: int

text \<open>The nodes from the given one back to the genesis block; the height is the length of the rest.\<close>

fun find_prev :: "diff_params \<Rightarrow> header_ctx list \<Rightarrow> u32" where
  "find_prev c [] = PowLimitBits c"
| "find_prev c (node # nodes) =
     (if length nodes mod blocksPerRetarget c \<noteq> 0 \<and> ctx_Bits node = PowLimitBits c then find_prev c nodes else ctx_Bits node)"

definition findPrevTestNetDifficulty :: "diff_params \<Rightarrow> header_ctx list \<Rightarrow> u32" where
  "findPrevTestNetDifficulty c chain = find_prev c (rev chain)"

definition retarget :: "diff_params \<Rightarrow> header_ctx \<Rightarrow> header_ctx \<Rightarrow> u32" where
  "retarget c firstNode lastNode =
     (let actualTimespan = wrap64 (ctx_Timestamp lastNode - ctx_Timestamp firstNode);
          adjustedTimespan = (if actualTimespan < minRetargetTimespan c then minRetargetTimespan c
                              else if actualTimespan > maxRetargetTimespan c then maxRetargetTimespan c
                              else actualTimespan);
          newTarget = CompactToBig (ctx_Bits lastNode) * adjustedTimespan div TargetTimespan c
      in BigToCompact (if newTarget > PowLimit c then PowLimit c else newTarget))"

definition calcNextRequiredDifficulty :: "header_ctx list \<Rightarrow> int \<Rightarrow> diff_params \<Rightarrow> u32 outcome" where
  "calcNextRequiredDifficulty chain newBlockTime c =
     (if PoWNoRetargeting c then Ok (PowLimitBits c)
      else if chain = [] then Ok (PowLimitBits c)
      else if blocksPerRetarget c = 0 then Panic ''integer divide by zero''
      else if length chain mod blocksPerRetarget c \<noteq> 0 then
        (if ReduceMinDifficulty c
         then if newBlockTime > wrap64 (ctx_Timestamp (last chain) + MinDiffReductionTime c) then Ok (PowLimitBits c)
              else Ok (findPrevTestNetDifficulty c chain)
         else Ok (ctx_Bits (last chain)))
      else if length chain < blocksPerRetarget c then Err ''unable to obtain previous retarget block''
      else if TargetTimespan c = 0 then Panic ''division by zero''
      else Ok (retarget c (chain ! (length chain - blocksPerRetarget c)) (last chain)))"

text \<open>The loop need not end when the timespan is not positive.\<close>

partial_function (option) ease :: "diff_params \<Rightarrow> int \<Rightarrow> int \<Rightarrow> int option" where
  "ease c durationVal newTarget =
     (if durationVal > 0 \<and> newTarget < PowLimit c
      then ease c (wrap64 (durationVal - maxRetargetTimespan c)) (newTarget * RetargetAdjustmentFactor c)
      else Some newTarget)"

definition calcEasiestDifficulty :: "diff_params \<Rightarrow> u32 \<Rightarrow> int \<Rightarrow> u32 option" where
  "calcEasiestDifficulty c bits durationVal =
     (if ReduceMinDifficulty c \<and> durationVal > MinDiffReductionTime c then Some (PowLimitBits c)
      else map_option (\<lambda>newTarget. BigToCompact (if newTarget > PowLimit c then PowLimit c else newTarget))
             (ease c durationVal (CompactToBig bits)))"

section \<open>Precision of compact numbers\<close>

lemma byte_len_bounds: "0 < n \<Longrightarrow> 256 ^ (byte_len n - 1) \<le> n \<and> n < 256 ^ byte_len n \<and> 0 < byte_len n"
proof (induction n rule: byte_len.induct)
  case (1 n)
  show ?case
  proof (cases "n div 256 = 0")
    case True
    then show ?thesis
      using "1.prems" by (simp add: byte_len.simps [of n] byte_len.simps [of 0] div_eq_0_iff)
  next
    case False
    then have IH: "256 ^ (byte_len (n div 256) - 1) \<le> n div 256" "n div 256 < 256 ^ byte_len (n div 256)" "0 < byte_len (n div 256)"
      using 1 by auto
    have "(256::nat) ^ byte_len (n div 256) = 256 * 256 ^ (byte_len (n div 256) - 1)"
      using IH(3) by (cases "byte_len (n div 256)") auto
    then have "256 ^ byte_len (n div 256) \<le> n" "n < 256 * 256 ^ byte_len (n div 256)"
      using IH(1,2) by linarith+
    then show ?thesis
      using "1.prems" by (simp add: byte_len.simps [of n])
  qed
qed

text \<open>A packed exponent and mantissa can be taken apart again.\<close>

lemma unpack:
  assumes "M = take_bit 23 M" and "e < 256"
  shows "(push_bit 24 (of_nat e) OR M) AND 0x007fffff = (M :: u32)" "(push_bit 24 (of_nat e) OR M) AND 0x00800000 = (0 :: u32)"
    "unat (drop_bit 24 (push_bit 24 (of_nat e) OR M)) = e"
proof -
  have m: "(0x007fffff :: u32) = mask 23" "(0x00800000 :: u32) = 2 ^ 23"
    by (simp_all add: mask_eq_exp_minus_1)
  have M: "\<not> bit M i" if "23 \<le> i" for i
    using assms(1) that by (metis bit_take_bit_iff not_less)
  show "(push_bit 24 (of_nat e) OR M) AND 0x007fffff = (M :: u32)"
    unfolding m by (rule bit_eqI) (use M in \<open>auto simp: bit_simps, metis not_less\<close>)
  show "(push_bit 24 (of_nat e) OR M) AND 0x00800000 = (0 :: u32)"
    using M [of 23] unfolding m(2) and_exp_eq_0_iff_not_bit by (simp add: bit_simps)
  have "drop_bit 24 (push_bit 24 (of_nat e) OR M) = (of_nat e :: u32)"
  proof (rule bit_eqI)
    fix i
    have "i < 8" if "bit e i"
    proof (rule ccontr)
      assume "\<not> i < 8"
      then have "e < 2 ^ i"
        using assms(2) power_increasing [of 8 i "2::nat"] by simp
      then show False
        using that by (simp add: bit_iff_odd)
    qed
    then show "bit (drop_bit 24 (push_bit 24 (of_nat e) OR M)) i = bit (of_nat e :: u32) i"
      using M [of "24 + i"] by (auto simp: bit_simps not_less add.commute) 
  qed
  then show "unat (drop_bit 24 (push_bit 24 (of_nat e) OR M)) = e"
    using assms(2) by (simp add: unat_of_nat)
qed


lemma uint_drop: "uint (drop_bit k w) = drop_bit k (uint w)"
  by (rule bit_eqI) (auto simp: bit_simps dest: bit_imp_le_length)

lemma int_div_less: "n < k * d \<Longrightarrow> 0 < d \<Longrightarrow> n div d < k" for n :: int
  by (smt (verit) div_mult_mod_eq mult_less_cancel_right pos_mod_sign)

lemma CompactToBig_parts:
  assumes "0 \<le> m" and "m < 2 ^ 23" and "e < 256"
  shows "CompactToBig (push_bit 24 (of_nat e) OR of_int m) = (if e \<le> 3 then m div 256 ^ (3 - e) else m * 256 ^ (e - 3))"
proof -
  have M: "(of_int m :: u32) = take_bit 23 (of_int m)"
    using assms(1,2) by (simp add: take_bit_of_int take_bit_int_eq_self)
  have u: "uint (of_int m :: u32) = m"
    using assms(1,2) by (simp add: uint_word_of_int_eq take_bit_int_eq_self)
  have p: "(2::int) ^ (8 * k) = 256 ^ k" for k
    by (simp add: power_mult)
  show ?thesis
    unfolding CompactToBig_def unpack [OF M assms(3)] Let_def uint_drop u
    by (simp add: drop_bit_eq_div push_bit_eq_mult p)
qed

text \<open>Where the top bytes of a number stand.\<close>

definition top_bytes :: "int \<Rightarrow> nat \<Rightarrow> int" where
  "top_bytes n e = (if e \<le> 3 then n * 256 ^ (3 - e) else n div 256 ^ (e - 3))"

lemma top_bytes_bounds:
  assumes "0 < n" and "e = byte_len (nat n)"
  shows "2 ^ 16 \<le> top_bytes n e \<and> top_bytes n e < 2 ^ 24 \<and> 0 < e"
proof -
  have b: "256 ^ (e - 1) \<le> n" "n < 256 ^ e" "0 < e"
    using byte_len_bounds [of "nat n"] assms by (simp_all add: le_nat_iff nat_less_iff)
  show ?thesis
  proof (cases "e \<le> 3")
    case True
    then have "(256::int) ^ (e - 1) * 256 ^ (3 - e) = 2 ^ 16" "(256::int) ^ e * 256 ^ (3 - e) = 2 ^ 24"
      using b(3) by (simp_all add: power_add [symmetric])
    then show ?thesis
      using True b mult_right_mono [OF b(1), of "256 ^ (3 - e)"] mult_strict_right_mono [OF b(2), of "256 ^ (3 - e)"]
      by (simp add: top_bytes_def)
  next
    case False
    then obtain k where k: "e = Suc (Suc (Suc k))"
      by (intro that [of "e - 3"]) simp
    have p: "(256::int) ^ (e - 1) = 2 ^ 16 * 256 ^ (e - 3)" "(256::int) ^ e = 2 ^ 24 * 256 ^ (e - 3)"
      unfolding k by simp_all
    have "2 ^ 16 \<le> n div 256 ^ (e - 3)"
      using zdiv_mono1 [OF b(1), of "256 ^ (e - 3)"] unfolding p by simp
    moreover have "n div 256 ^ (e - 3) < 2 ^ 24"
      using b(2) unfolding p by (rule int_div_less) simp
    ultimately show ?thesis
      using False b(3) by (simp add: top_bytes_def)
  qed
qed

lemma bit23: "0 \<le> m \<Longrightarrow> m < 2 ^ 24 \<Longrightarrow> (of_int m :: u32) AND 0x00800000 \<noteq> 0 \<longleftrightarrow> 2 ^ 23 \<le> m"
proof -
  assume m: "0 \<le> m" "m < 2 ^ 24"
  have "(0x00800000 :: u32) = 2 ^ 23"
    by simp
  then have "(of_int m :: u32) AND 0x00800000 \<noteq> 0 \<longleftrightarrow> bit (of_int m :: u32) 23"
    by (metis and_exp_eq_0_iff_not_bit)
  also have "\<dots> \<longleftrightarrow> bit m 23"
    by (simp add: bit_simps)
  also have "\<dots> \<longleftrightarrow> odd (m div 2 ^ 23)"
    by (simp add: bit_iff_odd)
  also have "\<dots> \<longleftrightarrow> 2 ^ 23 \<le> m"
  proof -
    have "m div 2 ^ 23 = 0 \<or> m div 2 ^ 23 = 1"
      using m by auto
    then show ?thesis
      using m by auto
  qed
  finally show ?thesis .
qed

lemma BigToCompact_parts:
  assumes "0 < n"
  defines "e \<equiv> byte_len (nat n)"
  defines "m \<equiv> top_bytes n e"
  shows "BigToCompact n = (if 2 ^ 23 \<le> m then push_bit 24 (of_nat (e + 1)) OR of_int (m div 256) else push_bit 24 (of_nat e) OR of_int m)"
proof -
  have mb: "2 ^ 16 \<le> m" "m < 2 ^ 24" "0 < e"
    using top_bytes_bounds [OF assms(1), of e] by (simp_all add: e_def m_def)
  have p: "(2::int) ^ (8 * k) = 256 ^ k" for k
    by (simp add: power_mult)
  have mant: "(if e \<le> 3 then push_bit (8 * (3 - e)) (of_int n :: u32) else of_int \<bar>drop_bit (8 * (e - 3)) n\<bar>) = of_int m"
    using assms(1) by (simp add: m_def top_bytes_def push_bit_eq_mult drop_bit_eq_div p [symmetric] pos_imp_zdiv_nonneg_iff abs_of_nonneg)
  have sh: "drop_bit 8 (of_int m :: u32) = of_int (m div 256)"
  proof (rule word_uint_eqI)
    show "uint (drop_bit 8 (of_int m :: u32)) = uint (of_int (m div 256) :: u32)"
      unfolding uint_drop using mb by (simp add: uint_word_of_int_eq take_bit_int_eq_self drop_bit_eq_div)
  qed
  have e: "\<bar>n\<bar> = n" "byte_len (nat n) = e"
    using assms(1) by (simp_all add: e_def)
  show ?thesis
    using assms(1) bit23 [of m] mb sh unfolding BigToCompact_def e Let_def mant by simp
qed


lemma compact_rounds:
  assumes "0 < n" and "n < 256 ^ 254"
  shows "\<exists>k. CompactToBig (BigToCompact n) = n div 256 ^ k * 256 ^ k \<and> (0 < k \<longrightarrow> 2 ^ 15 \<le> n div 256 ^ k)"
proof -
  define e where "e = byte_len (nat n)"
  define m where "m = top_bytes n e"
  have mb: "2 ^ 16 \<le> m" "m < 2 ^ 24" "0 < e"
    using top_bytes_bounds [OF assms(1) e_def] by (simp_all add: m_def)
  have "256 ^ (e - 1) \<le> nat n"
    using byte_len_bounds [of "nat n"] assms(1) by (simp add: e_def)
  then have "(256::nat) ^ (e - 1) < 256 ^ 254"
    using assms by (simp add: nat_less_iff order.strict_trans1 [where b = "nat n"])
  then have e: "e \<le> 254"
    using power_less_imp_less_exp [of "256::nat" "e - 1" 254] by simp
  note c = BigToCompact_parts [OF assms(1), folded e_def, folded m_def]
  show ?thesis
  proof (cases "2 ^ 23 \<le> m")
    case True
    have v: "CompactToBig (BigToCompact n) = (if e + 1 \<le> 3 then m div 256 div 256 ^ (3 - (e + 1)) else m div 256 * 256 ^ (e + 1 - 3))"
    proof -
      have "0 \<le> m div 256" "m div 256 < 2 ^ 23" "e + 1 < 256"
        using mb e by simp_all
      from CompactToBig_parts [OF this] show ?thesis
        unfolding c using True by simp
    qed
    show ?thesis
    proof (cases "e \<le> 2")
      case True
      then have "256 ^ (3 - e) = 256 * (256 :: int) ^ (3 - (e + 1))"
        by (metis (no_types, lifting) Suc_diff_le Suc_eq_plus1 add_leD1 diff_Suc_Suc numeral_2_eq_2 numeral_3_eq_3 power_Suc Suc_le_mono)
      then have "m div 256 div 256 ^ (3 - (e + 1)) = n"
        using True by (simp add: m_def top_bytes_def zdiv_zmult2_eq [symmetric] ac_simps)
      then show ?thesis
        using True v by (intro exI [of _ 0]) simp
    next
      case False
      have "m div 256 = n div 256 ^ (e - 2)"
      proof (cases "e = 3")
        case False
        then have "e - 2 = Suc (e - 3)"
          using \<open>\<not> e \<le> 2\<close> by simp
        then show ?thesis
          using False \<open>\<not> e \<le> 2\<close> by (simp add: m_def top_bytes_def zdiv_zmult2_eq power_Suc2 del: power_Suc)
      qed (simp add: m_def top_bytes_def)
      then show ?thesis
        using False v \<open>2 ^ 23 \<le> m\<close> by (intro exI [of _ "e - 2"]) auto
    qed
  next
    case False
    then have v: "CompactToBig (BigToCompact n) = (if e \<le> 3 then m div 256 ^ (3 - e) else m * 256 ^ (e - 3))"
      unfolding c using mb e CompactToBig_parts [of m e] by simp
    then show ?thesis
      using mb(1) by (intro exI [of _ "e - 3"]) (auto simp: m_def top_bytes_def)
  qed
qed


text \<open>
  A compact number keeps the top bytes.  For a positive number of at most 254 bytes, converting
  to the compact form and back rounds down to a multiple of some power of 256 that leaves at least
  15 bits of the number, so the error is less than one part in 32768.
\<close>

theorem compact_precision:
  assumes "0 < n" and "n < 256 ^ 254"
  shows "\<exists>k. CompactToBig (BigToCompact n) = n div 256 ^ k * 256 ^ k \<and> (0 < k \<longrightarrow> 2 ^ 15 \<le> n div 256 ^ k)"
  by (rule compact_rounds [OF assms])

theorem compact_precision_witness: "\<exists>k. CompactToBig (BigToCompact 0x123456789) = 0x123456789 div 256 ^ k * 256 ^ k \<and> (0 < k \<longrightarrow> 2 ^ 15 \<le> (0x123456789 :: int) div 256 ^ k)"
  by (rule compact_precision) simp_all

section \<open>The limits of a retarget\<close>

lemma compact_down: "0 \<le> n \<Longrightarrow> n < 256 ^ 254 \<Longrightarrow> 0 \<le> CompactToBig (BigToCompact n) \<and> CompactToBig (BigToCompact n) \<le> n"
proof (cases "n = 0")
  case False
  assume "0 \<le> n" "n < 256 ^ 254"
  then obtain k where k: "CompactToBig (BigToCompact n) = n div 256 ^ k * 256 ^ k"
    using compact_rounds [of n] False by auto
  have "0 \<le> n mod 256 ^ k"
    by simp
  then have "n div 256 ^ k * 256 ^ k \<le> n"
    using div_mult_mod_eq [of n "256 ^ k"] by linarith
  then show ?thesis
    unfolding k using \<open>0 \<le> n\<close> by (simp add: pos_imp_zdiv_nonneg_iff)
qed (simp add: BigToCompact_def CompactToBig_def)

text \<open>
  C36: The limits of a retarget.  At a retarget height the required target is at most the limit of
  the network and at most the adjustment factor times the last target, whatever the timestamps of
  the blocks are.
\<close>

theorem retarget_limits:
  assumes "calcNextRequiredDifficulty chain newBlockTime c = Ok r" and "\<not> PoWNoRetargeting c" and "chain \<noteq> []"
    and "length chain mod blocksPerRetarget c = 0"
    and "0 < TargetTimespan c" and "0 \<le> minRetargetTimespan c" and "minRetargetTimespan c \<le> maxRetargetTimespan c"
    and "maxRetargetTimespan c = RetargetAdjustmentFactor c * TargetTimespan c"
    and "0 \<le> PowLimit c" and "PowLimit c < 256 ^ 254" and "0 \<le> CompactToBig (ctx_Bits (last chain))"
  shows "0 \<le> CompactToBig r \<and> CompactToBig r \<le> PowLimit c \<and>
    CompactToBig r \<le> RetargetAdjustmentFactor c * CompactToBig (ctx_Bits (last chain))"
proof -
  let ?old = "CompactToBig (ctx_Bits (last chain))" and ?T = "TargetTimespan c"
  obtain f where r: "r = retarget c f (last chain)"
    using assms(1-5) by (auto simp: calcNextRequiredDifficulty_def split: if_splits)
  define a where "a = (let t = wrap64 (ctx_Timestamp (last chain) - ctx_Timestamp f)
    in if t < minRetargetTimespan c then minRetargetTimespan c else if t > maxRetargetTimespan c then maxRetargetTimespan c else t)"
  have a: "0 \<le> a" "a \<le> RetargetAdjustmentFactor c * ?T"
    using assms(6-8) by (auto simp: a_def Let_def)
  have r: "r = BigToCompact (if ?old * a div ?T > PowLimit c then PowLimit c else ?old * a div ?T)"
    unfolding r retarget_def a_def Let_def ..
  have "?old * a \<le> RetargetAdjustmentFactor c * ?old * ?T"
    using mult_left_mono [OF a(2) assms(11)] by (simp add: ac_simps)
  then have up: "?old * a div ?T \<le> RetargetAdjustmentFactor c * ?old"
    using zdiv_mono1 [of "?old * a" "RetargetAdjustmentFactor c * ?old * ?T" ?T] assms(5) by simp
  have low: "0 \<le> ?old * a div ?T"
    using a(1) assms(5,11) by (simp add: pos_imp_zdiv_nonneg_iff)
  show ?thesis
    using compact_down [of "PowLimit c"] compact_down [of "?old * a div ?T"] up low assms(9,10) unfolding r by (auto split: if_splits)
qed

text \<open>
  The parameters of \<^verbatim>\<open>freshnet\<close>: the target may fall to the limit as soon as a block is later than
  its parent.
\<close>

definition freshnet_diff :: diff_params where
  "freshnet_diff = \<lparr>PoWNoRetargeting = False, PowLimit = 2 ^ 224 - 1, PowLimitBits = 0x1d00ffff, ReduceMinDifficulty = True,
     MinDiffReductionTime = 0, TargetTimespan = 1209600, RetargetAdjustmentFactor = 4, blocksPerRetarget = 2016,
     minRetargetTimespan = 302400, maxRetargetTimespan = 4838400\<rparr>"

lemma freshnet_min_difficulty:
  assumes "length chain mod 2016 \<noteq> 0" and "0 \<le> ctx_Timestamp (last chain)" and "ctx_Timestamp (last chain) < 2 ^ 63"
    and "ctx_Timestamp (last chain) < newBlockTime"
  shows "calcNextRequiredDifficulty chain newBlockTime freshnet_diff = Ok 0x1d00ffff"
  using assms by (auto simp: calcNextRequiredDifficulty_def freshnet_diff_def)

lemma freshnet_limit: "CompactToBig 0x1d00ffff = 0xffff * 256 ^ 26"
  by (simp add: CompactToBig_def Let_def drop_bit_eq_div unat_drop_bit_eq push_bit_eq_mult)

theorem retarget_limits_witness:
  "CompactToBig (retarget freshnet_diff \<lparr>ctx_Bits = 0x1d00ffff, ctx_Timestamp = 0\<rparr> \<lparr>ctx_Bits = 0x1d00ffff, ctx_Timestamp = 0\<rparr>) \<le> 2 ^ 224 - 1"
proof -
  let ?chain = "replicate 2016 \<lparr>ctx_Bits = 0x1d00ffff, ctx_Timestamp = 0\<rparr>"
  have "calcNextRequiredDifficulty ?chain 5 freshnet_diff =
      Ok (retarget freshnet_diff \<lparr>ctx_Bits = 0x1d00ffff, ctx_Timestamp = 0\<rparr> \<lparr>ctx_Bits = 0x1d00ffff, ctx_Timestamp = 0\<rparr>)"
    by (simp add: calcNextRequiredDifficulty_def freshnet_diff_def last_replicate nth_replicate)
  from retarget_limits [OF this] show ?thesis
    by (simp add: freshnet_diff_def freshnet_limit last_replicate)
qed

end
