(* ===== verification/Chain_Block.thy ===== *)
theory Chain_Block
  imports Chain_Merkle Chain_Value Chain_Difficulty
begin

text \<open>
  The rules for headers and blocks that do not need the unspent outputs
  (\<^verbatim>\<open>coin/OrcaNet/blockchain/validate.go\<close>), the median time of the last blocks
  (\<^verbatim>\<open>blockindex.go\<close>) and of the peers (\<^verbatim>\<open>mediantime.go\<close>).
\<close>

section \<open>Sanity\<close>

abbreviation (input) BFFastAdd :: u32 where "BFFastAdd \<equiv> 1"
abbreviation (input) BFNoPoWCheck :: u32 where "BFNoPoWCheck \<equiv> 2"

definition checkProofOfWork :: "(bytes \<Rightarrow> bytes) \<Rightarrow> BlockHeader \<Rightarrow> int \<Rightarrow> u32 \<Rightarrow> unit outcome" where
  "checkProofOfWork sha header powLimit fl =
     (let target = CompactToBig (Bits header)
      in if target \<le> 0 then Err ''ErrUnexpectedDifficulty''
         else if target > powLimit then Err ''ErrUnexpectedDifficulty''
         else if fl AND BFNoPoWCheck \<noteq> BFNoPoWCheck \<and> HashToBig (BlockHash sha header) > target then Err ''ErrHighHash''
         else Ok ())"

text \<open>Times are in nanoseconds; the adjusted time of the node is an argument.\<close>

definition CheckBlockHeaderSanity :: "(bytes \<Rightarrow> bytes) \<Rightarrow> BlockHeader \<Rightarrow> int \<Rightarrow> int \<Rightarrow> u32 \<Rightarrow> unit outcome" where
  "CheckBlockHeaderSanity sha header powLimit adjustedTime fl =
     bind (checkProofOfWork sha header powLimit fl) (\<lambda>_.
       if Timestamp header \<noteq> from_Unix (Unix (Timestamp header)) then Err ''ErrInvalidTime''
       else if Timestamp header > adjustedTime + from_Unix 7200 then Err ''ErrTimeTooNew''
       else Ok ())"

fun check_txs :: "MsgTx list \<Rightarrow> unit outcome" where
  "check_txs [] = Ok ()"
| "check_txs (t # ts) = bind (CheckTransactionSanity t) (\<lambda>_. check_txs ts)"

fun check_hashes :: "bytes list \<Rightarrow> bytes set \<Rightarrow> unit outcome" where
  "check_hashes [] existingTxHashes = Ok ()"
| "check_hashes (h # hs) existingTxHashes =
     (if h \<in> existingTxHashes then Err ''ErrDuplicateTx'' else check_hashes hs (insert h existingTxHashes))"

fun count_loop :: "MsgTx list \<Rightarrow> nat \<Rightarrow> unit outcome" where
  "count_loop [] totalSigOps = Ok ()"
| "count_loop (t # ts) totalSigOps =
     (let n = totalSigOps + CountSigOps t * 4
      in if n > MaxBlockSigOpsCost then Err ''ErrTooManySigOps'' else count_loop ts n)"

text \<open>The merkle root is computed by loops that could run forever, so the whole check may.\<close>

definition checkBlockSanity :: "(bytes \<Rightarrow> bytes) \<Rightarrow> Block \<Rightarrow> int \<Rightarrow> int \<Rightarrow> u32 \<Rightarrow> unit outcome option" where
  "checkBlockSanity sha block powLimit adjustedTime fl =
     (let header = Header (msgBlock block); transactions = block_txs block
      in case CheckBlockHeaderSanity sha header powLimit adjustedTime fl of
           Err e \<Rightarrow> Some (Err e)
         | Panic p \<Rightarrow> Some (Panic p)
         | Ok _ \<Rightarrow>
             if transactions = [] then Some (Err ''ErrNoTransactions'')
             else if length transactions > MaxBlockBaseSize then Some (Err ''ErrBlockTooBig'')
             else if block_SerializeSizeStripped (msgBlock block) > MaxBlockBaseSize then Some (Err ''ErrBlockTooBig'')
             else if \<not> IsCoinBase (hd transactions) then Some (Err ''ErrFirstTxNotCoinbase'')
             else if list_ex IsCoinBase (tl transactions) then Some (Err ''ErrMultipleCoinbases'')
             else case check_txs transactions of
               Err e \<Rightarrow> Some (Err e)
             | Panic p \<Rightarrow> Some (Panic p)
             | Ok _ \<Rightarrow>
                 map_option (\<lambda>r. bind r (\<lambda>root.
                   if MerkleRoot header \<noteq> root then Err ''ErrBadMerkleRoot''
                   else bind (check_hashes (map (TxHash sha) transactions) {}) (\<lambda>_. count_loop transactions 0)))
                   (CalcMerkleRoot sha transactions False))"

section \<open>Context\<close>

definition CalcPastMedianTime :: "header_ctx list \<Rightarrow> int outcome" where
  "CalcPastMedianTime chain =
     (let timestamps = map ctx_Timestamp (take 11 (rev chain))
      in index (sort timestamps) (length timestamps div 2))"

text \<open>What the checks read of the chain besides its headers.\<close>

record block_ctx =
  ctx_params :: chain_params
  ctx_diff :: diff_params
  verify_checkpoint :: "int \<Rightarrow> bytes \<Rightarrow> bool"
  previous_checkpoint :: "int option outcome"
  ctx_csv :: "bool outcome"
  ctx_segwit :: "bool outcome"

definition CheckBlockHeaderContext ::
  "(bytes \<Rightarrow> bytes) \<Rightarrow> BlockHeader \<Rightarrow> header_ctx list \<Rightarrow> u32 \<Rightarrow> block_ctx \<Rightarrow> bool \<Rightarrow> unit outcome" where
  "CheckBlockHeaderContext sha header chain fl c skipCheckpoint =
     bind (if fl AND BFFastAdd = BFFastAdd then Ok ()
           else bind (calcNextRequiredDifficulty chain (Unix (Timestamp header)) (ctx_diff c)) (\<lambda>expectedDifficulty.
                if Bits header \<noteq> expectedDifficulty then Err ''ErrUnexpectedDifficulty''
                else bind (CalcPastMedianTime chain) (\<lambda>medianTime.
                     if \<not> Timestamp header > from_Unix medianTime then Err ''ErrTimeTooOld'' else Ok ()))) (\<lambda>_.
       if chain = [] then Panic ''nil pointer dereference''
       else
         let blockHeight = int (length chain)
         in if hdr_Version header < 2 \<and> blockHeight \<ge> BIP0034Height (ctx_params c) \<or>
               hdr_Version header < 3 \<and> blockHeight \<ge> BIP0066Height (ctx_params c) \<or>
               hdr_Version header < 4 \<and> blockHeight \<ge> BIP0065Height (ctx_params c) then Err ''ErrBlockVersionTooOld''
            else if skipCheckpoint then Ok ()
            else if \<not> verify_checkpoint c blockHeight (BlockHash sha header) then Err ''ErrBadCheckpoint''
            else bind (previous_checkpoint c) (\<lambda>checkpointNode.
                 case checkpointNode of
                   Some h \<Rightarrow> if blockHeight < h then Err ''ErrForkTooOld'' else Ok ()
                 | None \<Rightarrow> Ok ()))"

definition ShouldHaveSerializedBlockHeight :: "BlockHeader \<Rightarrow> bool" where
  "ShouldHaveSerializedBlockHeight header \<longleftrightarrow> hdr_Version header \<ge> 2"

text \<open>The rules on the transactions, without the ones that segregated witnesses add.\<close>

definition check_finality :: "Block \<Rightarrow> header_ctx list \<Rightarrow> block_ctx \<Rightarrow> unit outcome" where
  "check_finality block chain c =
     (let header = Header (msgBlock block); blockHeight = int (length chain)
      in bind (ctx_csv c) (\<lambda>csv.
         bind (if csv then CalcPastMedianTime chain else Ok (Unix (Timestamp header))) (\<lambda>blockTime.
           if \<not> list_all (\<lambda>t. IsFinalizedTransaction t blockHeight blockTime) (block_txs block) then Err ''ErrUnfinalizedTx''
           else if ShouldHaveSerializedBlockHeight header \<and> blockHeight \<ge> BIP0034Height (ctx_params c)
           then bind (index (block_txs block) 0) (\<lambda>coinbaseTx. CheckSerializedHeight coinbaseTx blockHeight)
           else Ok ())))"

definition checkBlockContext :: "(bytes \<Rightarrow> bytes) \<Rightarrow> Block \<Rightarrow> header_ctx list \<Rightarrow> u32 \<Rightarrow> block_ctx \<Rightarrow> unit outcome option" where
  "checkBlockContext sha block chain fl c =
     (case CheckBlockHeaderContext sha (Header (msgBlock block)) chain fl c False of
        Err e \<Rightarrow> Some (Err e)
      | Panic p \<Rightarrow> Some (Panic p)
      | Ok _ \<Rightarrow>
          if fl AND BFFastAdd = BFFastAdd then Some (Ok ())
          else case bind (check_finality block chain c) (\<lambda>_. ctx_segwit c) of
            Err e \<Rightarrow> Some (Err e)
          | Panic p \<Rightarrow> Some (Panic p)
          | Ok False \<Rightarrow> Some (Ok ())
          | Ok True \<Rightarrow>
              map_option (\<lambda>r. bind r (\<lambda>_. if GetBlockWeight (msgBlock block) > 4000000 then Err ''ErrBlockWeightTooHigh'' else Ok ()))
                (ValidateWitnessCommitment sha block))"


section \<open>The clock of the peers\<close>

record medianTime =
  knownIDs :: "string set"
  offsets :: "int list"
  mt_offsetSecs :: int

definition NewMedianTime :: medianTime where
  "NewMedianTime = \<lparr>knownIDs = {}, offsets = [], mt_offsetSecs = 0\<rparr>"

text \<open>The time of the sample and the current time, both in whole seconds.  A flag that only steers a log message is left out.\<close>

definition AddTimeSample :: "string \<Rightarrow> int \<Rightarrow> int \<Rightarrow> medianTime \<Rightarrow> medianTime" where
  "AddTimeSample sourceID timeVal now m =
     (if sourceID \<in> knownIDs m then m
      else
        let offsetSecs = timeVal - now;
            offs = (if length (offsets m) = 200 then drop 1 (offsets m) else offsets m) @ [offsetSecs];
            numOffsets = length offs;
            m1 = m\<lparr>knownIDs := insert sourceID (knownIDs m), offsets := offs\<rparr>
        in if numOffsets < 5 \<or> numOffsets mod 2 \<noteq> 1 then m1
           else
             let median = sort offs ! (numOffsets div 2)
             in m1\<lparr>mt_offsetSecs := (if \<bar>median\<bar> < 4200 then median else 0)\<rparr>)"

definition AdjustedTime :: "int \<Rightarrow> medianTime \<Rightarrow> int" where
  "AdjustedTime now m = now + mt_offsetSecs m"

section \<open>Sane blocks keep the amount of money\<close>

lemma check_txs_ok: "check_txs ts = Ok () \<longleftrightarrow> (\<forall>t \<in> set ts. CheckTransactionSanity t = Ok ())"
  by (induction ts) (auto simp: bind_Ok_iff)

lemma check_hashes_ok: "check_hashes hs seen = Ok () \<longleftrightarrow> distinct hs \<and> set hs \<inter> seen = {}"
  by (induction hs arbitrary: seen) auto

lemma sane_block:
  assumes "checkBlockSanity sha block powLimit adjusted fl = Some (Ok ())"
  obtains cb ts where "block_txs block = cb # ts" "IsCoinBase cb" "\<forall>t \<in> set ts. \<not> IsCoinBase t"
    "\<forall>t \<in> set (cb # ts). CheckTransactionSanity t = Ok ()" "distinct (map (TxHash sha) (cb # ts))"
    "MerkleRoot (Header (msgBlock block)) = merkle_root sha (leaves sha False (cb # ts))"
proof -
  obtain cb ts where txs: "block_txs block = cb # ts"
    using assms by (cases "block_txs block") (auto simp: checkBlockSanity_def Let_def split: outcome.splits if_splits)
  have root: "CalcMerkleRoot sha (cb # ts) False = Some (Ok (merkle_root sha (leaves sha False (cb # ts))))"
    by (rule calc_root) simp
  have "IsCoinBase cb \<and> \<not> list_ex IsCoinBase ts \<and> check_txs (cb # ts) = Ok () \<and>
      MerkleRoot (Header (msgBlock block)) = merkle_root sha (leaves sha False (cb # ts)) \<and>
      check_hashes (map (TxHash sha) (cb # ts)) {} = Ok ()"
    using assms unfolding checkBlockSanity_def txs root Let_def
    by (auto simp: bind_Ok_iff if_Err_Ok_iff simp del: check_txs.simps check_hashes.simps split: outcome.splits if_splits)
  then show ?thesis
    using that [OF txs] by (auto simp: check_txs_ok check_hashes_ok list_ex_iff simp del: check_txs.simps check_hashes.simps)
qed



section \<open>The median time never decreases\<close>

lemma sorted_nth_ge:
  assumes "sorted ys" and "k < length ys"
  shows "x \<le> ys ! k \<longleftrightarrow> length (filter (\<lambda>y. y < x) ys) \<le> k"
proof -
  have split: "filter (\<lambda>y. y < x) ys = filter (\<lambda>y. y < x) (take k ys) @ filter (\<lambda>y. y < x) (drop k ys)"
    by (metis append_take_drop_id filter_append)
  show ?thesis
  proof
    assume ge: "x \<le> ys ! k"
    have "x \<le> ys ! (k + i)" if "k + i < length ys" for i
      using ge sorted_nth_mono [OF assms(1) _ that, of k] by simp
    then have "filter (\<lambda>y. y < x) (drop k ys) = []"
      by (fastforce simp: filter_empty_conv in_set_conv_nth not_less)
    then show "length (filter (\<lambda>y. y < x) ys) \<le> k"
      unfolding split using length_filter_le [of "\<lambda>y. y < x" "take k ys"] by simp
  next
    assume le: "length (filter (\<lambda>y. y < x) ys) \<le> k"
    show "x \<le> ys ! k"
    proof (rule ccontr)
      assume "\<not> x \<le> ys ! k"
      then have "ys ! i < x" if "i \<le> k" for i
        using sorted_nth_mono [OF assms(1) that assms(2)] by simp
      then have "\<forall>y \<in> set (take (Suc k) ys). y < x"
        by (auto simp: in_set_conv_nth)
      then have "length (filter (\<lambda>y. y < x) (take (Suc k) ys)) = Suc k"
        using assms(2) by simp
      moreover have "length (filter (\<lambda>y. y < x) (take (Suc k) ys)) \<le> length (filter (\<lambda>y. y < x) ys)"
        by (metis append_take_drop_id filter_append le_add1 length_append)
      ultimately show False
        using le by simp
    qed
  qed
qed

lemma sort_nth_ge: "k < length xs \<Longrightarrow> x \<le> sort xs ! k \<longleftrightarrow> length (filter (\<lambda>y. y < x) xs) \<le> k"
  using sorted_nth_ge [of "sort xs" k x] by (simp add: filter_sort)


end
