(* ===== verification/Chain_Double.thy ===== *)
theory Chain_Double
  imports Chain_Block
begin

text \<open>
  A block with a double spend that \<^verbatim>\<open>checkBlockSanity\<close> and \<^verbatim>\<open>checkConnectBlock\<close> accept, and a block
  in order.
\<close>

section \<open>Coins that anyone can spend\<close>

lemma true_new:
  assumes "i < length (TxIns t)" and "SignatureScript (TxIns t ! i) = [0x51, 0x51]" and "fl = 0 \<or> fl = 1"
  shows "NewEngine [0x51] t (int i) fl c a fetch = Ok (fresh_engine [0x51] t i fl c a fetch False [0x51, 0x51])"
proof -
  have "check_scripts [[0x51, 0x51], [0x51]] = Ok ()" "\<not> isScriptHashScript [0x51]"
    by code_simp+
  then show ?thesis
    using assms by (auto simp: NewEngine_def Let_def setup_witness_def hasFlag_def fresh_engine_def)
qed

lemma true_run: "fl = 0 \<or> fl = 1 \<Longrightarrow> \<exists>vm. Execute 3 env (fresh_engine [0x51] t i fl c a fetch False [0x51, 0x51]) = Some (Ok vm)"
proof -
  have three: "3 = Suc (Suc (Suc 0))"
    by simp
  have num: "num_Bytes 1 = Ok [1]"
    using num_Bytes_small [of 1] by simp
  note defs = Step_def checkValidPC_def tk_Next_def tk_Done_def op_length_def executeOpcode_def isOpcodeDisabled_def
      isOpcodeAlwaysIllegal_def Let_def isBranchExecuting_def opfunc_def opcodeN_def opcodePushData_def on_dstack_def
      PushInt_def PushByteArray_def num checkMinimalDataPush_def MakeScriptTokenizer_def Depth_def
  show "\<exists>vm. Execute 3 env (fresh_engine [0x51] t i fl c a fetch False [0x51, 0x51]) = Some (Ok vm)"
    if "fl = 0 \<or> fl = 1"
    unfolding Execute_def three using that
    by (auto simp: hasFlag_def PopByteArray_def  fresh_engine_def defs finish_script_def leave_script_def next_script_def advance_def GetStack_def
      CheckErrorCondition_def PopBool_def asBool_def nipN_def SetStack_def isWitnessVersionActive_def)
qed


section \<open>A double spend\<close>

text \<open>
  The parameters of the network \<^verbatim>\<open>freshnet\<close> in \<^verbatim>\<open>chaincfg/params.go\<close>, no deployment active, and
  one coin in the database.
\<close>

definition freshnet :: chain_params where
  "freshnet = \<lparr>GenesisHash = replicate 32 9, BIP0034Height = 227931, BIP0065Height = 388381, BIP0066Height = 363725,
     CoinbaseMaturity = 1, SubsidyReductionInterval = 210000\<rparr>"

definition old_coin :: outpoint where "old_coin = (replicate 32 7, 0)"

definition one_coin :: utxo_source where
  "one_coin op = Ok (if op = old_coin then Some \<lparr>amount = 5, pkScript = [0x51], blockHeight = 1, packedFlags = 0\<rparr> else None)"

definition one_coin_set :: utxo_set where
  "one_coin_set = [old_coin \<mapsto> \<lparr>st_Amount = 5, st_PkScript = [0x51], st_Height = 1, st_IsCoinBase = False\<rparr>]"

definition chain_at :: chain_ctx where
  "chain_at = \<lparr>params = freshnet, utxoCache = one_coin, segwit_active = Ok False, csv_active = Ok False, taproot_active = Ok False,
     parent_median = 0, ancestor_median = (\<lambda>_. 0), latest_checkpoint = None, sig_hash_cache = (\<lambda>_. None), script_arrival = id\<rparr>"

lemma freshnet_simps:
  "params chain_at = freshnet" "utxoCache chain_at = one_coin" "segwit_active chain_at = Ok False"
  "GenesisHash freshnet = replicate 32 9" "BIP0034Height freshnet = 227931" "CoinbaseMaturity freshnet = 1"
  "SubsidyReductionInterval freshnet = 210000"
  by (simp_all add: chain_at_def freshnet_def)

definition node_2 :: block_node where
  "node_2 = \<lparr>node_hash = replicate 32 3, node_height = 2, node_timestamp = 1714000000\<rparr>"

definition view_2 :: UtxoViewpoint where
  "view_2 = \<lparr>entries = Map.empty, bestHash = replicate 32 1\<rparr>"

definition block_2 :: "(bytes \<Rightarrow> bytes) \<Rightarrow> MsgTx list \<Rightarrow> Block" where
  "block_2 sha ts = \<lparr>msgBlock = \<lparr>Header = sample_header\<lparr>MerkleRoot := merkle_root sha (leaves sha False ts)\<rparr>, Transactions = ts\<rparr>,
     blk_Height = 2\<rparr>"

lemma block_2_simps:
  "block_txs (block_2 sha ts) = ts" "PrevBlock (Header (msgBlock (block_2 sha ts))) = replicate 32 1"
  "hdr_Version (Header (msgBlock (block_2 sha ts))) = 4" "Transactions (msgBlock (block_2 sha ts)) = ts"
  "MerkleRoot (Header (msgBlock (block_2 sha ts))) = merkle_root sha (leaves sha False ts)"
  "Bits (Header (msgBlock (block_2 sha ts))) = 0x1d00ffff" "Timestamp (Header (msgBlock (block_2 sha ts))) = from_Unix 1714000000"
  by (simp_all add: block_2_def block_txs_def sample_header_def)

text \<open>
  The middle transaction creates a coin, which the ones before and after it spend.  The coinbase
  takes the subsidy and the fee.
\<close>

definition reward :: MsgTx where "reward = coin_tx (replicate 32 0, 2 ^ 32 - 1) 5000000001"
definition middle :: MsgTx where "middle = coin_tx old_coin 5"
definition before :: "(bytes \<Rightarrow> bytes) \<Rightarrow> MsgTx" where "before sha = coin_tx (TxHash sha middle, 0) 5"
definition after :: "(bytes \<Rightarrow> bytes) \<Rightarrow> MsgTx" where "after sha = coin_tx (TxHash sha middle, 0) 4"

definition double_txs :: "(bytes \<Rightarrow> bytes) \<Rightarrow> MsgTx list" where
  "double_txs sha = [reward, before sha, middle, after sha]"

definition apart :: "(bytes \<Rightarrow> bytes) \<Rightarrow> bool" where
  "apart sha \<longleftrightarrow> distinct [replicate 32 7, TxHash sha reward, TxHash sha (before sha), TxHash sha middle, TxHash sha (after sha)]"

lemma apartD:
  assumes "apart sha"
  shows "TxHash sha reward \<noteq> TxHash sha (before sha)" "TxHash sha (before sha) \<noteq> TxHash sha reward"
    "TxHash sha reward \<noteq> TxHash sha middle" "TxHash sha middle \<noteq> TxHash sha reward"
    "TxHash sha reward \<noteq> TxHash sha (after sha)" "TxHash sha (after sha) \<noteq> TxHash sha reward"
    "TxHash sha (before sha) \<noteq> TxHash sha middle" "TxHash sha middle \<noteq> TxHash sha (before sha)"
    "TxHash sha (before sha) \<noteq> TxHash sha (after sha)" "TxHash sha (after sha) \<noteq> TxHash sha (before sha)"
    "TxHash sha middle \<noteq> TxHash sha (after sha)" "TxHash sha (after sha) \<noteq> TxHash sha middle"
    "old_coin \<noteq> (TxHash sha reward, 0)" "old_coin \<noteq> (TxHash sha (before sha), 0)" "old_coin \<noteq> (TxHash sha middle, 0)"
    "old_coin \<noteq> (TxHash sha (after sha), 0)" "(TxHash sha reward, 0) \<noteq> old_coin" "(TxHash sha (before sha), 0) \<noteq> old_coin"
    "(TxHash sha middle, 0) \<noteq> old_coin" "(TxHash sha (after sha), 0) \<noteq> old_coin"
    "replicate 32 7 \<noteq> TxHash sha reward" "replicate 32 7 \<noteq> TxHash sha (before sha)" "replicate 32 7 \<noteq> TxHash sha middle"
    "replicate 32 7 \<noteq> TxHash sha (after sha)"
  using assms by (auto simp: apart_def old_coin_def)

lemma double_tx_simps [simp]:
  "IsCoinBase reward" "\<not> IsCoinBase (before sha)" "\<not> IsCoinBase middle" "\<not> IsCoinBase (after sha)"
  "inputs middle = [old_coin]" "inputs (before sha) = [(TxHash sha middle, 0)]" "inputs (after sha) = [(TxHash sha middle, 0)]"
  "TxIns middle = [\<lparr>PreviousOutPoint = old_coin, SignatureScript = [0x51, 0x51], Witness = [], Sequence = 0\<rparr>]"
  "TxIns (before sha) = [\<lparr>PreviousOutPoint = (TxHash sha middle, 0), SignatureScript = [0x51, 0x51], Witness = [], Sequence = 0\<rparr>]"
  "TxIns (after sha) = [\<lparr>PreviousOutPoint = (TxHash sha middle, 0), SignatureScript = [0x51, 0x51], Witness = [], Sequence = 0\<rparr>]"
  "TxOuts reward = [\<lparr>out_Value = 5000000001, PkScript = [0x51]\<rparr>]" "TxOuts middle = [\<lparr>out_Value = 5, PkScript = [0x51]\<rparr>]"
  "TxOuts (before sha) = [\<lparr>out_Value = 5, PkScript = [0x51]\<rparr>]" "TxOuts (after sha) = [\<lparr>out_Value = 4, PkScript = [0x51]\<rparr>]"
  "fst old_coin = replicate 32 7"
  by (simp_all add: reward_def before_def middle_def after_def isNullOutpoint_def old_coin_def)

lemma double_bip30:
  assumes "apart sha"
  shows "checkBIP0030 sha one_coin (double_txs sha) view_2 = Ok (view_2\<lparr>entries := [(TxHash sha reward, 0) \<mapsto> None,
    (TxHash sha (before sha), 0) \<mapsto> None, (TxHash sha middle, 0) \<mapsto> None, (TxHash sha (after sha), 0) \<mapsto> None]\<rparr>)"
  using apartD [OF assms]
  by (simp add: checkBIP0030_def block_outpoints_def double_txs_def fetchUtxos_def one_coin_def put_entry_def view_2_def LookupEntry_def)


text \<open>The entries of the coins.\<close>

definition fresh_entry :: "int \<Rightarrow> byte \<Rightarrow> UtxoEntry option option" where
  "fresh_entry a f = Some (Some \<lparr>amount = a, pkScript = [0x51], blockHeight = 2, packedFlags = f\<rparr>)"

definition old_entry :: "byte \<Rightarrow> UtxoEntry option option" where
  "old_entry f = Some (Some \<lparr>amount = 5, pkScript = [0x51], blockHeight = 1, packedFlags = f\<rparr>)"

lemma double_fetch:
  assumes "apart sha"
  shows "fetchInputUtxos sha one_coin (block_2 sha (double_txs sha)) (view_2\<lparr>entries := [(TxHash sha reward, 0) \<mapsto> None,
      (TxHash sha (before sha), 0) \<mapsto> None, (TxHash sha middle, 0) \<mapsto> None, (TxHash sha (after sha), 0) \<mapsto> None]\<rparr>) =
    Ok (view_2\<lparr>entries := ([(TxHash sha reward, 0) \<mapsto> None, (TxHash sha (before sha), 0) \<mapsto> None,
      (TxHash sha (after sha), 0) \<mapsto> None])((TxHash sha middle, 0) := fresh_entry 5 12, old_coin := old_entry 0)\<rparr>)"
  using apartD [OF assms] spendable_true
  by (simp add: fetchInputUtxos_def findInputsToFetch_def block_2_def block_txs_def double_txs_def slice_def txInFlight_def
      one_coin_def put_entry_def view_2_def AddTxOuts_def addTxOut_def fresh_entry_def old_entry_def fun_upd_twist Let_def)

lemma double_sigops:
  "GetSigOpCount [0x51, 0x51] = 0" "GetSigOpCount [0x51] = 0" "\<not> isScriptHashScript [0x51]"
  by code_simp+

lemma double_costs:
  assumes "apart sha" and "view = view_2\<lparr>entries := ([(TxHash sha reward, 0) \<mapsto> None, (TxHash sha (before sha), 0) \<mapsto> None,
      (TxHash sha (after sha), 0) \<mapsto> None])((TxHash sha middle, 0) := fresh_entry 5 12, old_coin := old_entry 0)\<rparr>"
  shows "sigop_loop view True False 0 (double_txs sha) 0 = Ok ()"
  using apartD [OF assms(1)]
  by (simp add: assms(2) double_txs_def GetSigOpCost_def CountSigOps_def double_sigops CountP2SHSigOps_def LookupEntry_def
      fresh_entry_def old_entry_def IsSpent_def reward_def view_2_def)


definition double_view :: "(bytes \<Rightarrow> bytes) \<Rightarrow> UtxoViewpoint" where
  "double_view sha = view_2\<lparr>entries := Map.empty((TxHash sha reward, 0) := fresh_entry 5000000001 13, (TxHash sha (before sha), 0) := fresh_entry 5 12,
     (TxHash sha (after sha), 0) := fresh_entry 4 12, (TxHash sha middle, 0) := fresh_entry 5 14, old_coin := old_entry 6)\<rparr>"

lemma double_connect:
  assumes "apart sha" and "view = view_2\<lparr>entries := ([(TxHash sha reward, 0) \<mapsto> None, (TxHash sha (before sha), 0) \<mapsto> None,
      (TxHash sha (after sha), 0) \<mapsto> None])((TxHash sha middle, 0) := fresh_entry 5 12, old_coin := old_entry 0)\<rparr>"
  shows "connect_loop sha 1 2 (double_txs sha) view None 0 = Ok (double_view sha, None, 1)"
proof -
  let ?c = "view_2\<lparr>entries := ([(TxHash sha (before sha), 0) \<mapsto> None, (TxHash sha (after sha), 0) \<mapsto> None])
      ((TxHash sha reward, 0) := fresh_entry 5000000001 13, (TxHash sha middle, 0) := fresh_entry 5 12, old_coin := old_entry 0)\<rparr>"
  let ?x = "view_2\<lparr>entries := ([(TxHash sha (after sha), 0) \<mapsto> None]) ((TxHash sha reward, 0) := fresh_entry 5000000001 13,
      (TxHash sha (before sha), 0) := fresh_entry 5 12, (TxHash sha middle, 0) := fresh_entry 5 14, old_coin := old_entry 0)\<rparr>"
  let ?m = "view_2\<lparr>entries := ([(TxHash sha (after sha), 0) \<mapsto> None]) ((TxHash sha reward, 0) := fresh_entry 5000000001 13,
      (TxHash sha (before sha), 0) := fresh_entry 5 12, (TxHash sha middle, 0) := fresh_entry 5 12, old_coin := old_entry 6)\<rparr>"
  note defs = connectTransaction_def AddTxOuts_def addTxOut_def put_entry_def LookupEntry_def view_2_def fresh_entry_def old_entry_def
      CheckTransactionInputs_def IsSpent_def entry_IsCoinBase_def Spend_def total_out_def fun_upd_twist
  note h = apartD [OF assms(1)]
  have "connectTransaction sha reward 2 view None = Ok (?c, None)" "CheckTransactionInputs 1 reward 2 view = Ok 0"
    using h spendable_true by (simp_all add: assms(2) defs)
  moreover have "connectTransaction sha (before sha) 2 ?c None = Ok (?x, None)" "CheckTransactionInputs 1 (before sha) 2 ?c = Ok 0"
    using h spendable_true by (simp_all add: defs)
  moreover have "connectTransaction sha middle 2 ?x None = Ok (?m, None)" "CheckTransactionInputs 1 middle 2 ?x = Ok 0"
    using h spendable_true by (simp_all add: defs)
  moreover have "connectTransaction sha (after sha) 2 ?m None = Ok (double_view sha, None)" "CheckTransactionInputs 1 (after sha) 2 ?m = Ok 1"
    using h spendable_true by (simp_all add: defs double_view_def)
  ultimately show ?thesis
    by (simp add: double_txs_def)
qed

lemma coin_item:
  assumes "TxIns t = [ti]" and "SignatureScript ti = [0x51, 0x51]" and "LookupEntry view (PreviousOutPoint ti) = Some e" and "pkScript e = [0x51]"
  shows "validate_item 3 env 1 view (t, 0, None) = Some (Ok ())"
proof -
  have "NewEngine [0x51] t 0 1 None (amount e) f = Ok (fresh_engine [0x51] t 0 1 None (amount e) f False [0x51, 0x51])" for f
    using true_new [of 0 t 1] assms(1,2) by simp
  moreover obtain vm where "Execute 3 env (fresh_engine [0x51] t 0 1 None (amount e) f False [0x51, 0x51]) = Some (Ok (vm f))" for f
    using true_run [of 1 env t 0 None] by metis
  ultimately show ?thesis
    using assms by (simp add: validate_item_def)
qed

lemma double_scripts:
  assumes "apart (sha256 env)"
  shows "checkBlockScripts 3 env (\<lambda>_. None) id (double_txs (sha256 env)) (double_view (sha256 env)) 1 = Some (Ok ())"
proof -
  let ?sha = "sha256 env"
  have "validate_item 3 env 1 (double_view ?sha) (t, 0, None) = Some (Ok ())" if "t \<in> {before ?sha, middle, after ?sha}" for t
    using that apartD [OF assms] by (auto intro!: coin_item simp: double_view_def LookupEntry_def fresh_entry_def old_entry_def)
  then show ?thesis
    by (simp add: checkBlockScripts_def double_txs_def cached_hashes_def reward_def old_coin_def)
qed

lemma one_coin_ok: "source_ok one_coin one_coin_set" "unspent one_coin_set view_2 = one_coin_set" "coins_ok one_coin_set"
  "coins_value one_coin_set = 5"
  by (simp_all add: source_ok_def one_coin_def one_coin_set_def live_def IsSpent_def stxo_of_def entry_IsCoinBase_def unspent_def
      view_2_def fun_eq_iff coins_ok_def coins_value_def)

lemma coin_sane: "0 \<le> v \<Longrightarrow> v \<le> MaxSatoshi \<Longrightarrow> CheckTransactionSanity (coin_tx op v) = Ok ()"
  by (simp add: CheckTransactionSanity_def SerializeSizeStripped_def baseSize_def VarIntSerializeSize_def TxIn_SerializeSize_def TxOut_SerializeSize_def
      coin_tx_def inputs_def IsCoinBase_def Let_def)


lemma double_sane:
  "CheckTransactionSanity reward = Ok ()" "CheckTransactionSanity (before sha) = Ok ()" "CheckTransactionSanity middle = Ok ()"
  "CheckTransactionSanity (after sha) = Ok ()"
  by (simp_all add: reward_def before_def middle_def after_def coin_sane)

lemma double_value:
  assumes "apart sha"
  shows "coins_value (unspent one_coin_set (SetBestHash h (double_view sha))) = 5000000010"
proof -
  let ?coin = "\<lambda>a c. \<lparr>st_Amount = a, st_PkScript = [0x51], st_Height = 2, st_IsCoinBase = c\<rparr>"
  have "unspent one_coin_set (SetBestHash h (double_view sha)) = [(TxHash sha reward, 0) \<mapsto> ?coin 5000000001 True,
      (TxHash sha (before sha), 0) \<mapsto> ?coin 5 False, (TxHash sha (after sha), 0) \<mapsto> ?coin 4 False]"
    using apartD [OF assms]
    by (auto simp: fun_eq_iff unspent_def SetBestHash_def double_view_def view_2_def one_coin_set_def fresh_entry_def old_entry_def live_def
        IsSpent_def stxo_of_def entry_IsCoinBase_def)
  then show ?thesis
    using apartD [OF assms] by (simp add: coins_value_def)
qed

lemma subsidy_2: "CalcBlockSubsidy 2 210000 = 5000000000"
  by (simp add: CalcBlockSubsidy_def signed_divide_int_def)

lemma node_2_plain: "\<not> isBIP0030Node node_2" "node_hash node_2 = replicate 32 3" "node_height node_2 = 2" "node_timestamp node_2 = 1714000000"
  "bestHash view_2 = replicate 32 1"
  by (simp_all add: isBIP0030Node_def node_2_def view_2_def)

lemma coin_size: "SerializeSizeStripped (coin_tx op v) = 63"
  by (simp add: SerializeSizeStripped_def baseSize_def VarIntSerializeSize_def TxIn_SerializeSize_def TxOut_SerializeSize_def coin_tx_def)

lemma coin_sigops: "CountSigOps (coin_tx op v) = 0"
  by (simp add: CountSigOps_def double_sigops)

lemma count_coins: "list_all (\<lambda>t. CountSigOps t = 0) ts \<Longrightarrow> count_loop ts 0 = Ok ()"
  by (induction ts) simp_all

text \<open>A block of a coinbase and other coins, with any proof of work.\<close>

lemma coins_block_sane:
  assumes "ts = reward # us" and "list_all (\<lambda>t. CheckTransactionSanity t = Ok () \<and> \<not> IsCoinBase t \<and> CountSigOps t = 0 \<and> SerializeSizeStripped t = 63) us"
    and "distinct (map (TxHash sha) ts)" and "length us \<le> 5"
  shows "checkBlockSanity sha (block_2 sha ts) (2 ^ 224 - 1) (from_Unix 1714000000) BFNoPoWCheck = Some (Ok ())"
proof -
  have head: "CheckBlockHeaderSanity sha (Header (msgBlock (block_2 sha ts))) (2 ^ 224 - 1) (from_Unix 1714000000) BFNoPoWCheck = Ok ()"
    by (simp add: CheckBlockHeaderSanity_def checkProofOfWork_def block_2_simps freshnet_limit Unix_def from_Unix_def)
  have "foldl (\<lambda>n t. n + SerializeSizeStripped t) k us = k + 63 * length us" for k
    using assms(2) by (induction us arbitrary: k) auto
  then have size: "block_SerializeSizeStripped (msgBlock (block_2 sha ts)) \<le> 1000000"
    using assms(1,4) by (simp add: block_SerializeSizeStripped_def block_2_simps VarIntSerializeSize_def reward_def coin_size)
  have "check_txs ts = Ok ()" "count_loop ts 0 = Ok ()" "check_hashes (map (TxHash sha) ts) {} = Ok ()"
    using assms(1-3) double_sane(1) coin_sigops
    by (auto simp: check_txs_ok check_hashes_ok list_all_iff reward_def intro!: count_coins simp del: check_txs.simps count_loop.simps check_hashes.simps)
  moreover have "CalcMerkleRoot sha ts False = Some (Ok (merkle_root sha (leaves sha False ts)))"
    using assms(1) by (intro calc_root) simp
  moreover have "ts \<noteq> []" "\<not> length ts > 1000000" "IsCoinBase (hd ts)" "\<not> list_ex IsCoinBase (tl ts)"
    using assms(1,2,4) by (auto simp: list_ex_iff list_all_iff)
  ultimately show ?thesis
    using head size unfolding checkBlockSanity_def by (simp add: block_2_simps)
qed

lemma coins_plain:
  "SerializeSizeStripped (before sha) = 63" "SerializeSizeStripped middle = 63" "SerializeSizeStripped (after sha) = 63"
  "CountSigOps (before sha) = 0" "CountSigOps middle = 0" "CountSigOps (after sha) = 0"
  by (simp_all add: before_def middle_def after_def coin_size coin_sigops)


lemma coin_hash_full:
  "TxHash id (coin_tx op v) = [1, 0, 0, 0, 1] @ fst op @ uint32_bytes (int (snd op)) @ [2, 0x51, 0x51, 0, 0, 0, 0, 1] @ uint64_bytes v @ [1, 0x51, 0, 0, 0, 0]"
proof -
  have "uint32_bytes 1 = [1, 0, 0, 0]" "uint32_bytes 0 = [0, 0, 0, 0]" "WriteVarInt (Suc 0) = [1]" "WriteVarInt (Suc (Suc 0)) = [2]"
    by (simp_all add: uint32_bytes_def WriteVarInt_def le_bytes_map upt_rec)
  then show ?thesis
    by (simp add: TxHash_def SerializeNoWitness_def btcEncode_def coin_tx_def writeTxIn_def writeOutPoint_def WriteTxOut_def WriteVarBytes_def)
qed

lemma apart_id: "apart id"
proof -
  have "TxHash id (coin_tx op v) ! 5 = hd (fst op)" if "fst op \<noteq> []" for op v
    using that unfolding coin_hash_full by (cases "fst op") simp_all
  moreover have "hd (TxHash id (coin_tx op v)) = 1" "TxHash id (coin_tx op v) \<noteq> []" "replicate 32 7 \<noteq> TxHash id (coin_tx op v)" for op v
    using coin_hash_hd [of op v] coin_hash_other [of op v] coin_hash_full [of op v] by auto
  moreover have "uint64_bytes 5 \<noteq> uint64_bytes 4"
    by (simp add: uint64_bytes_def le_bytes_map upt_rec)
  then have "TxHash id (before id) \<noteq> TxHash id (after id)"
    unfolding before_def after_def coin_hash_full by simp
  ultimately show ?thesis
    unfolding apart_def distinct.simps reward_def before_def middle_def after_def old_coin_def
    by (auto dest: arg_cong [of _ _ "\<lambda>h. h ! 5"])
qed



section \<open>A block in order\<close>

text \<open>Without the first spend, on a network where BIP 34 is active from the start.\<close>

definition chain_34 :: chain_ctx where
  "chain_34 = chain_at\<lparr>params := freshnet\<lparr>BIP0034Height := 0\<rparr>\<rparr>"

definition ordered_txs :: "(bytes \<Rightarrow> bytes) \<Rightarrow> MsgTx list" where
  "ordered_txs sha = [reward, middle, after sha]"

definition ordered_view :: "(bytes \<Rightarrow> bytes) \<Rightarrow> UtxoViewpoint" where
  "ordered_view sha = view_2\<lparr>entries := Map.empty((TxHash sha reward, 0) := fresh_entry 5000000001 13, (TxHash sha (after sha), 0) := fresh_entry 4 12,
     (TxHash sha middle, 0) := fresh_entry 5 14, old_coin := old_entry 6)\<rparr>"

lemma ordered_connect:
  assumes "apart sha" and "view = view_2\<lparr>entries := Map.empty((TxHash sha middle, 0) := fresh_entry 5 12, old_coin := old_entry 0)\<rparr>"
  shows "connect_loop sha 1 2 (ordered_txs sha) view None 0 = Ok (ordered_view sha, None, 1)"
    and "fetchInputUtxos sha one_coin (block_2 sha (ordered_txs sha)) view_2 = Ok view"
    and "sigop_loop view True False 0 (ordered_txs sha) 0 = Ok ()"
proof -
  note defs = put_entry_def LookupEntry_def view_2_def fresh_entry_def old_entry_def ordered_txs_def fun_upd_twist AddTxOuts_def addTxOut_def
  note h = apartD [OF assms(1)]
  show "connect_loop sha 1 2 (ordered_txs sha) view None 0 = Ok (ordered_view sha, None, 1)"
    using h spendable_true
    by (simp add: defs assms(2) connectTransaction_def CheckTransactionInputs_def IsSpent_def entry_IsCoinBase_def Spend_def total_out_def ordered_view_def)
  show "fetchInputUtxos sha one_coin (block_2 sha (ordered_txs sha)) view_2 = Ok view"
    using h spendable_true
    by (simp add: defs assms(2) fetchInputUtxos_def findInputsToFetch_def block_2_def block_txs_def slice_def txInFlight_def one_coin_def Let_def)
  show "sigop_loop view True False 0 (ordered_txs sha) 0 = Ok ()"
    using h by (simp add: defs assms(2) GetSigOpCost_def CountSigOps_def double_sigops CountP2SHSigOps_def IsSpent_def reward_def)
qed


lemma ordered_accepted:
  assumes "apart (sha256 env)"
  shows "checkConnectBlock 3 env chain_34 node_2 (block_2 (sha256 env) (ordered_txs (sha256 env))) view_2 None =
    Some (Ok (SetBestHash (replicate 32 3) (ordered_view (sha256 env)), None))"
proof -
  let ?sha = "sha256 env"
  note txs = block_2_simps
  have "validate_item 3 env 1 (ordered_view ?sha) (t, 0, None) = Some (Ok ())" if "t \<in> {middle, after ?sha}" for t
    using that apartD [OF assms] by (auto intro!: coin_item simp: ordered_view_def LookupEntry_def fresh_entry_def old_entry_def)
  then have scripts: "checkBlockScripts 3 env (\<lambda>_. None) id (ordered_txs ?sha) (ordered_view ?sha) 1 = Some (Ok ())"
    by (simp add: checkBlockScripts_def ordered_txs_def cached_hashes_def reward_def old_coin_def)
  have flags: "script_flags chain_34 node_2 (block_2 ?sha ts) True False v = Ok 1" for ts v
    by (simp add: script_flags_def chain_34_def chain_at_def freshnet_def node_2_def txs)
  have rest: "index (ordered_txs ?sha) 0 = Ok reward" "total_out reward = 5000000001" "params chain_34 = freshnet\<lparr>BIP0034Height := 0\<rparr>"
      "utxoCache chain_34 = one_coin" "segwit_active chain_34 = Ok False"
    by (simp_all add: ordered_txs_def total_out_def chain_34_def freshnet_simps)
  have "connect_checks ?sha chain_34 node_2 (block_2 ?sha (ordered_txs ?sha)) view_2 None = Ok (ordered_view ?sha, None, 1)"
    using ordered_connect [OF assms refl] node_2_plain
    by (simp add: connect_checks_def freshnet_simps txs flags rest subsidy_2)
  then show ?thesis
    using scripts by (simp add: checkConnectBlock_def runScripts_def chain_34_def chain_at_def txs node_2_def)
qed

lemma ordered_facts:
  assumes "apart sha"
  shows "block_txs (block_2 sha (ordered_txs sha)) = reward # [middle, after sha]" "\<forall>t \<in> set [middle, after sha]. \<not> IsCoinBase t"
    "\<forall>t \<in> set (reward # [middle, after sha]). CheckTransactionSanity t = Ok ()" "in_order sha (reward # [middle, after sha])"
    "source_ok (utxoCache chain_34) one_coin_set" "coins_ok (unspent one_coin_set view_2)" "entries view_2 = Map.empty"
    "BIP0034Height (params chain_34) \<le> node_height node_2"
  using apartD [OF assms] one_coin_ok
  by (simp_all add: block_2_def block_txs_def ordered_txs_def spends_def double_sane chain_34_def freshnet_simps node_2_plain)
     (simp add: view_2_def)



text \<open>A header on top of one block.\<close>

definition open_ctx :: block_ctx where
  "open_ctx = \<lparr>ctx_params = freshnet, ctx_diff = freshnet_diff, verify_checkpoint = (\<lambda>_ _. True), previous_checkpoint = Ok None,
     ctx_csv = Ok False, ctx_segwit = Ok False\<rparr>"


end
