(* ===== verification/Chain_Compress.thy ===== *)
theory Chain_Compress
  imports Prelude
begin

text \<open>
  How unspent outputs are stored (\<^verbatim>\<open>coin/OrcaNet/blockchain/compress.go\<close>): variable-length
  quantities, compressed amounts and compressed scripts.  A \<^verbatim>\<open>uint64\<close> is a natural number whose
  operations are taken modulo \<open>2 ^ 64\<close> where they can leave the range.  The functions that write into
  a buffer return the bytes they write.
\<close>

section \<open>Variable-length quantities\<close>

fun serializeSizeVLQ :: "nat \<Rightarrow> nat" where
  "serializeSizeVLQ n = (if n > 0x7f then Suc (serializeSizeVLQ (n div 128 - 1)) else 1)"

declare serializeSizeVLQ.simps [simp del]

text \<open>The bytes are made from the last to the first and then reversed.\<close>

fun vlq_loop :: "nat \<Rightarrow> bool \<Rightarrow> bytes" where
  "vlq_loop n first =
     (of_nat (n mod 128) OR (if first then 0 else 0x80)) # (if n \<le> 0x7f then [] else vlq_loop (n div 128 - 1) False)"

declare vlq_loop.simps [simp del]

definition putVLQ :: "nat \<Rightarrow> bytes" where
  "putVLQ n = rev (vlq_loop n True)"

fun vlq_read :: "bytes \<Rightarrow> nat \<Rightarrow> nat \<Rightarrow> nat \<times> nat" where
  "vlq_read [] n cnt = (n, cnt)"
| "vlq_read (val # serialized) n cnt =
     (let n' = n * 128 mod 2 ^ 64 + unat (val AND 0x7f)
      in if val AND 0x80 \<noteq> 0x80 then (n', Suc cnt)
         else vlq_read serialized ((n' + 1) mod 2 ^ 64) (Suc cnt))"

definition deserializeVLQ :: "bytes \<Rightarrow> nat \<times> nat" where
  "deserializeVLQ serialized = vlq_read serialized 0 0"

section \<open>Scripts\<close>

text \<open>
  Parsing public keys is the work of another package: whether a serialised key is valid, and the
  uncompressed form of a compressed key.
\<close>

record key_env =
  valid_key :: "bytes \<Rightarrow> bool"
  uncompress :: "bytes \<Rightarrow> bytes option"

definition isPubKeyHash :: "bytes \<Rightarrow> bytes option" where
  "isPubKeyHash script =
     (if length script = 25 \<and> script ! 0 = 0x76 \<and> script ! 1 = 0xa9 \<and> script ! 2 = 0x14 \<and> script ! 23 = 0x88 \<and> script ! 24 = 0xac
      then Some (take 20 (drop 3 script)) else None)"

definition isScriptHash :: "bytes \<Rightarrow> bytes option" where
  "isScriptHash script =
     (if length script = 23 \<and> script ! 0 = 0xa9 \<and> script ! 1 = 0x14 \<and> script ! 22 = 0x87
      then Some (take 20 (drop 2 script)) else None)"

definition isPubKey :: "key_env \<Rightarrow> bytes \<Rightarrow> bytes option" where
  "isPubKey env script =
     (if length script = 35 \<and> script ! 0 = 0x21 \<and> script ! 34 = 0xac \<and> (script ! 1 = 2 \<or> script ! 1 = 3) \<and>
         valid_key env (take 33 (drop 1 script)) then Some (take 33 (drop 1 script))
      else if length script = 67 \<and> script ! 0 = 0x41 \<and> script ! 66 = 0xac \<and> script ! 1 = 4 \<and>
         valid_key env (take 65 (drop 1 script)) then Some (take 65 (drop 1 script))
      else None)"

definition compressedScriptSize :: "key_env \<Rightarrow> bytes \<Rightarrow> nat" where
  "compressedScriptSize env pkScript =
     (if isPubKeyHash pkScript \<noteq> None then 21
      else if isScriptHash pkScript \<noteq> None then 21
      else if isPubKey env pkScript \<noteq> None then 33
      else serializeSizeVLQ (length pkScript + 6) + length pkScript)"

definition decodeCompressedScriptSize :: "bytes \<Rightarrow> int" where
  "decodeCompressedScriptSize serialized =
     (let (scriptSize, bytesRead) = deserializeVLQ serialized
      in if bytesRead = 0 then 0
         else if scriptSize = 0 \<or> scriptSize = 1 then 21
         else if scriptSize = 2 \<or> scriptSize = 3 \<or> scriptSize = 4 \<or> scriptSize = 5 then 33
         else wrap64 (int scriptSize - 6 + int bytesRead))"

definition put_pubkey :: "bytes \<Rightarrow> bytes" where
  "put_pubkey key = (if key ! 0 = 2 \<or> key ! 0 = 3 then key ! 0 else key ! 0 OR (key ! 64 AND 1)) # take 32 (drop 1 key)"

definition putCompressedScript :: "key_env \<Rightarrow> bytes \<Rightarrow> bytes" where
  "putCompressedScript env pkScript =
     (case isPubKeyHash pkScript of
        Some hash \<Rightarrow> 0 # hash
      | None \<Rightarrow>
          (case isScriptHash pkScript of
             Some hash \<Rightarrow> 1 # hash
           | None \<Rightarrow>
               (case isPubKey env pkScript of
                  Some key \<Rightarrow> put_pubkey key
                | None \<Rightarrow> putVLQ (length pkScript + 6) @ pkScript)))"

text \<open>
  Without a valid key the result is the empty script.  A read past the end of the compressed script
  panics; in the code it could see what lies behind the script in the same buffer, but a size that
  leads there comes only from a quantity of more than 64 bits.
\<close>

definition decompressScript :: "key_env \<Rightarrow> bytes \<Rightarrow> bytes outcome" where
  "decompressScript env compressed =
     (if compressed = [] then Ok []
      else
        let (encodedScriptSize, bytesRead) = deserializeVLQ compressed
        in if encodedScriptSize = 0 then
             bind (slice compressed bytesRead (bytesRead + 20)) (\<lambda>h. Ok ([0x76, 0xa9, 0x14] @ h @ [0x88, 0xac]))
           else if encodedScriptSize = 1 then
             bind (slice compressed bytesRead (bytesRead + 20)) (\<lambda>h. Ok ([0xa9, 0x14] @ h @ [0x87]))
           else if encodedScriptSize = 2 \<or> encodedScriptSize = 3 then
             bind (slice compressed bytesRead (bytesRead + 32)) (\<lambda>x. Ok ([0x21, of_nat encodedScriptSize] @ x @ [0xac]))
           else if encodedScriptSize = 4 \<or> encodedScriptSize = 5 then
             (case uncompress env (of_nat (encodedScriptSize - 2) # take 32 (drop 1 compressed @ replicate 32 0)) of
                None \<Rightarrow> Ok []
              | Some key \<Rightarrow> Ok (0x41 # take 65 (key @ replicate 65 0) @ [0xac]))
           else if encodedScriptSize - 6 \<ge> 2 ^ 63 then Panic ''makeslice: len out of range''
           else slice compressed bytesRead (bytesRead + (encodedScriptSize - 6)))"

section \<open>Amounts\<close>

function strip_zeros :: "nat \<Rightarrow> nat \<Rightarrow> nat \<times> nat" where
  "strip_zeros amount exponent =
     (if amount mod 10 = 0 \<and> exponent < 9 then strip_zeros (amount div 10) (exponent + 1) else (amount, exponent))"
  by auto
termination by (relation "measure (\<lambda>(amount, exponent). 9 - exponent)") auto

declare strip_zeros.simps [simp del]

definition compressTxOutAmount :: "nat \<Rightarrow> nat" where
  "compressTxOutAmount amount =
     (if amount = 0 then 0
      else
        let (n, exponent) = strip_zeros amount 0
        in if exponent < 9 then (1 + 10 * (9 * (n div 10) + n mod 10 - 1) + exponent) mod 2 ^ 64
           else (10 + 10 * (n - 1)) mod 2 ^ 64)"

fun times_ten :: "nat \<Rightarrow> nat \<Rightarrow> nat" where
  "times_ten 0 n = n"
| "times_ten (Suc exponent) n = times_ten exponent (n * 10 mod 2 ^ 64)"

definition decompressTxOutAmount :: "nat \<Rightarrow> nat" where
  "decompressTxOutAmount amount =
     (if amount = 0 then 0
      else
        let exponent = (amount - 1) mod 10; a = (amount - 1) div 10
        in times_ten exponent (if exponent < 9 then (a div 9 * 10 + (a mod 9 + 1)) mod 2 ^ 64 else (a + 1) mod 2 ^ 64))"

section \<open>Outputs\<close>

text \<open>An error of the type \<^verbatim>\<open>errDeserialize\<close> is told from others by how its message starts.\<close>

definition errDeserialize :: "string \<Rightarrow> string" where
  "errDeserialize msg = ''errDeserialize: '' @ msg"

definition isDeserializeErr :: "string \<Rightarrow> bool" where
  "isDeserializeErr e \<longleftrightarrow> take 16 e = ''errDeserialize: ''"

definition compressedTxOutSize :: "key_env \<Rightarrow> nat \<Rightarrow> bytes \<Rightarrow> nat" where
  "compressedTxOutSize env amount pkScript = serializeSizeVLQ (compressTxOutAmount amount) + compressedScriptSize env pkScript"

definition putCompressedTxOut :: "key_env \<Rightarrow> nat \<Rightarrow> bytes \<Rightarrow> bytes" where
  "putCompressedTxOut env amount pkScript = putVLQ (compressTxOutAmount amount) @ putCompressedScript env pkScript"

definition decodeCompressedTxOut :: "key_env \<Rightarrow> bytes \<Rightarrow> (nat \<times> bytes \<times> nat) outcome" where
  "decodeCompressedTxOut env serialized =
     (let (compressedAmount, bytesRead) = deserializeVLQ serialized
      in if bytesRead \<ge> length serialized then Err (errDeserialize ''unexpected end of data after compressed amount'')
         else
           let scriptSize = decodeCompressedScriptSize (drop bytesRead serialized)
           in if int (length (drop bytesRead serialized)) < scriptSize then Err (errDeserialize ''unexpected end of data after script size'')
              else if scriptSize < 0 then Panic ''slice bounds out of range''
              else bind (decompressScript env (take (nat scriptSize) (drop bytesRead serialized))) (\<lambda>script.
                   Ok (decompressTxOutAmount compressedAmount, script, bytesRead + nat scriptSize)))"

section \<open>Reading back quantities\<close>

lemma vlq_byte: "k < 128 \<Longrightarrow> unat ((of_nat k OR 0x80 :: byte) AND 0x7f) = k \<and> (of_nat k OR 0x80 :: byte) AND 0x80 = 0x80"
    "k < 128 \<Longrightarrow> unat ((of_nat k :: byte) AND 0x7f) = k \<and> (of_nat k :: byte) AND 0x80 \<noteq> 0x80"
proof -
  have "\<forall>k < 128. unat ((of_nat k OR 0x80 :: byte) AND 0x7f) = k \<and> (of_nat k OR 0x80 :: byte) AND 0x80 = 0x80 \<and>
      unat ((of_nat k :: byte) AND 0x7f) = k \<and> (of_nat k :: byte) AND 0x80 \<noteq> 0x80"
    by code_simp
  then show "k < 128 \<Longrightarrow> unat ((of_nat k OR 0x80 :: byte) AND 0x7f) = k \<and> (of_nat k OR 0x80 :: byte) AND 0x80 = 0x80"
    "k < 128 \<Longrightarrow> unat ((of_nat k :: byte) AND 0x7f) = k \<and> (of_nat k :: byte) AND 0x80 \<noteq> 0x80"
    by blast+
qed

lemma vlq_read_high: "k < 128 \<Longrightarrow> vlq_read ((of_nat k OR 0x80) # rest) n cnt = vlq_read rest ((n * 128 mod 2 ^ 64 + k + 1) mod 2 ^ 64) (Suc cnt)"
  using vlq_byte(1) [of k] by (simp add: Let_def)

lemma vlq_read_low: "k < 128 \<Longrightarrow> vlq_read (of_nat k # rest) n cnt = (n * 128 mod 2 ^ 64 + k, Suc cnt)"
  using vlq_byte(2) [of k] by (simp add: Let_def)

lemma vlq_div: "n > 127 \<Longrightarrow> (n div 128 - 1 + 1) * 128 + n mod 128 = n"
  for n :: nat
proof -
  assume "n > 127"
  then have "n div 128 \<ge> 1"
    by (simp add: div_greater_zero_iff Suc_le_eq)
  then show ?thesis
    by simp
qed

text \<open>The bytes with a high bit leave one more than the number they stand for.\<close>

lemma vlq_read_prefix:
  "n < 2 ^ 64 - 1 \<Longrightarrow> vlq_read (rev (vlq_loop n False) @ rest) 0 cnt = vlq_read rest (n + 1) (cnt + length (vlq_loop n False))"
proof (induction n False arbitrary: rest cnt rule: vlq_loop.induct)
  case (1 n)
  show ?case
  proof (cases "n \<le> 127")
    case True
    then show ?thesis
      by (subst (1 2) vlq_loop.simps) (simp add: vlq_read_high del: vlq_read.simps)
  next
    case False
    define m where "m = n div 128 - 1"
    have m: "(m + 1) * 128 + n mod 128 = n"
      using vlq_div False unfolding m_def by simp
    then have "m < 2 ^ 64 - 1" "(m + 1) * 128 < 2 ^ 64" "n + 1 < 2 ^ 64"
      using 1(2) by auto
    then show ?thesis
      using 1(1) [of "(of_nat (n mod 128) OR 0x80) # rest" cnt] False m
      by (subst (1 2) vlq_loop.simps) (simp add: vlq_read_high flip: m_def del: vlq_read.simps)
  qed
qed

lemma deserialize_put:
  assumes "n < 2 ^ 64"
  shows "deserializeVLQ (putVLQ n @ rest) = (n, length (putVLQ n))"
proof (cases "n \<le> 127")
  case True
  then show ?thesis
    by (simp add: deserializeVLQ_def putVLQ_def vlq_loop.simps vlq_read_low del: vlq_read.simps)
next
  case False
  define m where "m = n div 128 - 1"
  have m: "(m + 1) * 128 + n mod 128 = n"
    using vlq_div False unfolding m_def by simp
  then have "m < 2 ^ 64 - 1" "(m + 1) * 128 < 2 ^ 64"
    using assms by auto
  then show ?thesis
    using False m unfolding deserializeVLQ_def putVLQ_def
    by (subst (1 2) vlq_loop.simps) (simp add: vlq_read_prefix vlq_read_low flip: m_def del: vlq_read.simps)
qed

lemma length_vlq: "length (vlq_loop n first) = serializeSizeVLQ n"
proof (induction n first rule: vlq_loop.induct)
  case (1 n first)
  then show ?case
    by (cases "n \<le> 127"; subst vlq_loop.simps; subst serializeSizeVLQ.simps) (auto simp: not_le)
qed

lemma length_putVLQ: "length (putVLQ n) = serializeSizeVLQ n"
  by (simp add: putVLQ_def length_vlq)

lemma serializeSizeVLQ_bound: "serializeSizeVLQ n \<le> n + 1"
proof (induction n rule: serializeSizeVLQ.induct)
  case (1 n)
  then show ?case
    by (cases "n > 127"; subst serializeSizeVLQ.simps) auto
qed

lemma putVLQ_nonempty: "length (putVLQ n) > 0"
  by (simp add: putVLQ_def vlq_loop.simps)

text \<open>A byte below the high bit is a quantity by itself.\<close>

lemma deserialize_byte: "unat b < 128 \<Longrightarrow> deserializeVLQ (b # rest) = (unat b, 1)"
  using vlq_read_low [of "unat b" rest 0 0] by (simp add: deserializeVLQ_def del: vlq_read.simps)

section \<open>Reading back amounts\<close>

lemma strip_zeros_correct:
  assumes "strip_zeros amount exponent = (n, e)" "exponent \<le> 9"
  shows "amount = n * 10 ^ (e - exponent) \<and> exponent \<le> e \<and> e \<le> 9 \<and> (e < 9 \<longrightarrow> n mod 10 \<noteq> 0)"
  using assms
proof (induction amount exponent rule: strip_zeros.induct)
  case (1 amount exponent)
  show ?case
  proof (cases "amount mod 10 = 0 \<and> exponent < 9")
    case True
    then have "amount div 10 = n * 10 ^ (e - (exponent + 1)) \<and> exponent + 1 \<le> e \<and> e \<le> 9 \<and> (e < 9 \<longrightarrow> n mod 10 \<noteq> 0)"
      using 1 by (simp add: strip_zeros.simps [of amount exponent])
    moreover have "amount = amount div 10 * 10"
      using True by auto
    moreover have "e - exponent = Suc (e - (exponent + 1))" if "exponent + 1 \<le> e"
      using that by simp
    ultimately show ?thesis
      by (metis Suc_eq_plus1 Suc_leD mult.assoc mult.commute power_Suc)
  next
    case False
    then show ?thesis
      using 1(2,3) by (auto simp: strip_zeros.simps [of amount exponent] split: if_splits)
  qed
qed

lemma times_ten_exact: "n * 10 ^ e < 2 ^ 64 \<Longrightarrow> times_ten e n = n * 10 ^ e"
proof (induction e arbitrary: n)
  case (Suc e)
  have "n * 10 * 10 ^ e < 2 ^ 64"
    using Suc.prems by (simp add: ac_simps)
  moreover from this have "n * 10 < 2 ^ 64"
    by (rule le_less_trans [rotated]) simp
  ultimately have "n * 10 < 2 ^ 64" "times_ten e (n * 10) = n * 10 * 10 ^ e"
    using Suc.IH by blast+
  then show ?case
    by (simp add: ac_simps)
qed simp

lemma amount_roundtrip:
  assumes "amount \<le> 2 ^ 60"
  shows "decompressTxOutAmount (compressTxOutAmount amount) = amount" "compressTxOutAmount amount < 2 ^ 64"
proof -
  show "compressTxOutAmount amount < 2 ^ 64"
    by (simp add: compressTxOutAmount_def split: prod.splits)
  obtain n e where ne: "strip_zeros amount 0 = (n, e)"
    by (cases "strip_zeros amount 0")
  then have am: "amount = n * 10 ^ e" "e \<le> 9" "e < 9 \<longrightarrow> n mod 10 \<noteq> 0"
    using strip_zeros_correct [OF ne] by auto
  show "decompressTxOutAmount (compressTxOutAmount amount) = amount"
  proof (cases "amount = 0")
    case True
    then show ?thesis
      by (simp add: compressTxOutAmount_def decompressTxOutAmount_def)
  next
    case False
    then have pos: "n > 0"
      using am by auto
    have small: "n \<le> 2 ^ 60"
      by (rule order_trans [of _ "n * 10 ^ e"]) (use assms am(1) in simp_all)
    have exact: "times_ten e n = amount"
      using am assms by (intro times_ten_exact [THEN trans]) auto
    show ?thesis
    proof (cases "e < 9")
      case True
      define a where "a = 9 * (n div 10) + n mod 10 - 1"
      have "n mod 10 \<noteq> 0"
        using am True by simp
      then have a_eq: "a = 9 * (n div 10) + (n mod 10 - 1)" and d: "n mod 10 - 1 < 9"
        unfolding a_def by simp_all
      have a: "a div 9 = n div 10" "a mod 9 = n mod 10 - 1"
        using d unfolding a_eq by auto
      have le: "a \<le> n"
        using div_mult_mod_eq [of n 10] unfolding a_eq by linarith
      have "a div 9 * 10 + (a mod 9 + 1) = n"
        using \<open>n mod 10 \<noteq> 0\<close> unfolding a by simp
      moreover have "compressTxOutAmount amount = 1 + 10 * a + e"
        using False True small le by (simp add: compressTxOutAmount_def ne a_def)
      moreover have "(10 * a + e) mod 10 = e" "(10 * a + e) div 10 = a"
        using True by auto
      ultimately show ?thesis
        using True exact small by (simp add: decompressTxOutAmount_def Let_def)
    next
      case False
      then have e: "e = 9"
        using am by simp
      have "n * 1000000000 \<le> 2 ^ 60"
        using am assms e by simp
      then have "compressTxOutAmount amount = 10 + 10 * (n - 1)"
        using \<open>amount \<noteq> 0\<close> e by (simp add: compressTxOutAmount_def ne)
      moreover have "(9 + 10 * (n - 1)) mod 10 = 9" "(9 + 10 * (n - 1)) div 10 = n - 1"
        by auto
      ultimately show ?thesis
        using exact small e pos by (simp add: decompressTxOutAmount_def Let_def)
    qed
  qed
qed

section \<open>Reading back scripts\<close>

lemma framed_iff:
  assumes "length script = i + n + k"
  shows "take n (drop i script) = h \<longleftrightarrow> script = map ((!) script) [0..<i] @ h @ map ((!) script) [i + n..<i + n + k]"
proof -
  have "take i script = map ((!) script) [0..<i]"
    using assms by (intro nth_equalityI) auto
  moreover have "drop (i + n) script = map ((!) script) [i + n..<i + n + k]"
    using assms by (intro nth_equalityI) auto
  moreover have "script = take i script @ take n (drop i script) @ drop (i + n) script"
    by (metis append_take_drop_id drop_drop add.commute)
  ultimately show ?thesis
    by (metis append_same_eq same_append_eq)
qed

lemma isPubKeyHash_Some: "isPubKeyHash script = Some h \<longleftrightarrow> script = [0x76, 0xa9, 0x14] @ h @ [0x88, 0xac] \<and> length h = 20"
proof
  assume "isPubKeyHash script = Some h"
  then show "script = [0x76, 0xa9, 0x14] @ h @ [0x88, 0xac] \<and> length h = 20"
    using framed_iff [of script 3 20 2 h] by (auto simp: isPubKeyHash_def upt_rec numeral_2_eq_2 split: if_splits)
qed (auto simp: isPubKeyHash_def nth_append)

lemma isScriptHash_Some: "isScriptHash script = Some h \<longleftrightarrow> script = [0xa9, 0x14] @ h @ [0x87] \<and> length h = 20"
proof
  assume "isScriptHash script = Some h"
  then show "script = [0xa9, 0x14] @ h @ [0x87] \<and> length h = 20"
    using framed_iff [of script 2 20 1 h] by (auto simp: isScriptHash_def upt_rec split: if_splits)
qed (auto simp: isScriptHash_def nth_append)

lemma isPubKey_Some:
  "isPubKey env script = Some key \<longleftrightarrow> valid_key env key \<and>
     (length key = 33 \<and> (key ! 0 = 2 \<or> key ! 0 = 3) \<and> script = 0x21 # key @ [0xac] \<or>
      length key = 65 \<and> key ! 0 = 4 \<and> script = 0x41 # key @ [0xac])"
proof
  assume "isPubKey env script = Some key"
  then show "valid_key env key \<and>
     (length key = 33 \<and> (key ! 0 = 2 \<or> key ! 0 = 3) \<and> script = 0x21 # key @ [0xac] \<or>
      length key = 65 \<and> key ! 0 = 4 \<and> script = 0x41 # key @ [0xac])"
    using framed_iff [of script 1 33 1 key] framed_iff [of script 1 65 1 key]
    by (auto simp: isPubKey_def upt_rec nth_append split: if_splits)
qed (auto simp: isPubKey_def nth_append nth_Cons')

text \<open>What the code relies on of the key package: a valid uncompressed key is what its compressed form, with the parity of y, uncompresses to.\<close>

definition keys_ok :: "key_env \<Rightarrow> bool" where
  "keys_ok env \<longleftrightarrow> (\<forall>key. valid_key env key \<and> length key = 65 \<and> key ! 0 = 4 \<longrightarrow>
     uncompress env ((2 OR (key ! 64 AND 1)) # take 32 (drop 1 key)) = Some key)"

lemma decode_special:
  "decodeCompressedScriptSize (0 # rest) = 21" "decodeCompressedScriptSize (1 # rest) = 21"
  "b = 2 \<or> b = 3 \<or> b = 4 \<or> b = 5 \<Longrightarrow> decodeCompressedScriptSize (b # rest) = 33"
  by (auto simp: decodeCompressedScriptSize_def deserialize_byte)

lemma decompress_hash:
  "length h = 20 \<Longrightarrow> decompressScript env (0 # h) = Ok ([0x76, 0xa9, 0x14] @ h @ [0x88, 0xac])"
  "length h = 20 \<Longrightarrow> decompressScript env (1 # h) = Ok ([0xa9, 0x14] @ h @ [0x87])"
  by (simp_all add: decompressScript_def deserialize_byte slice_def)

lemma decompress_compressed_key:
  assumes "length key = 33" "key ! 0 = 2 \<or> key ! 0 = 3"
  shows "decompressScript env (put_pubkey key) = Ok (0x21 # key @ [0xac])"
proof -
  obtain k x where "key = k # x" "length x = 32" "k = 2 \<or> k = 3"
    using assms by (cases key) auto
  then show ?thesis
    by (auto simp: put_pubkey_def decompressScript_def deserialize_byte slice_def)
qed

lemma low_bit_cases: "(b :: byte) AND 1 = 0 \<or> b AND 1 = 1"
  by (cases "bit b 0") (auto simp: and_one_eq odd_iff_mod_2_eq_one)

lemma decompress_uncompressed_key:
  assumes "keys_ok env" "valid_key env key" "length key = 65" "key ! 0 = 4"
  shows "decompressScript env (put_pubkey key) = Ok (0x41 # key @ [0xac])"
proof -
  have "uncompress env ((2 OR (key ! 64 AND 1)) # take 32 (drop 1 key)) = Some key"
    using assms unfolding keys_ok_def by blast
  then show ?thesis
    using low_bit_cases [of "key ! 64"] assms(3,4)
    by (auto simp: put_pubkey_def decompressScript_def deserialize_byte)
qed

lemma compressed_raw:
  assumes "length pkScript < 2 ^ 61"
  shows "decodeCompressedScriptSize ((putVLQ (length pkScript + 6) @ pkScript) @ rest) = int (length (putVLQ (length pkScript + 6) @ pkScript))"
    and "decompressScript env (putVLQ (length pkScript + 6) @ pkScript) = Ok pkScript"
proof -
  have "deserializeVLQ (putVLQ (length pkScript + 6) @ r) = (length pkScript + 6, length (putVLQ (length pkScript + 6)))" for r
    using assms by (intro deserialize_put) simp
  then show "decodeCompressedScriptSize ((putVLQ (length pkScript + 6) @ pkScript) @ rest) = int (length (putVLQ (length pkScript + 6) @ pkScript))"
    and "decompressScript env (putVLQ (length pkScript + 6) @ pkScript) = Ok pkScript"
    using assms putVLQ_nonempty [of "length pkScript + 6"] serializeSizeVLQ_bound [of "length pkScript + 6"]
    by (auto simp: length_putVLQ wrap64_id decodeCompressedScriptSize_def decompressScript_def slice_def)
qed

lemma putCompressedScript_nonempty: "putCompressedScript env pkScript \<noteq> []"
  using putVLQ_nonempty [of "length pkScript + 6"] by (auto simp: putCompressedScript_def put_pubkey_def split: option.splits)

lemma script_roundtrip:
  assumes "keys_ok env" "length pkScript < 2 ^ 61"
  defines "c \<equiv> putCompressedScript env pkScript"
  shows "length c = compressedScriptSize env pkScript \<and> decodeCompressedScriptSize (c @ rest) = int (length c) \<and>
    decompressScript env c = Ok pkScript"
proof -
  consider (pkh) h where "isPubKeyHash pkScript = Some h" | (sh) h where "isPubKeyHash pkScript = None" "isScriptHash pkScript = Some h"
    | (pk) key where "isPubKeyHash pkScript = None" "isScriptHash pkScript = None" "isPubKey env pkScript = Some key"
    | (raw) "isPubKeyHash pkScript = None" "isScriptHash pkScript = None" "isPubKey env pkScript = None"
    by fastforce
  then show ?thesis
  proof cases
    case pkh
    then show ?thesis
      using isPubKeyHash_Some [of pkScript h]
      by (simp add: c_def putCompressedScript_def compressedScriptSize_def decode_special decompress_hash)
  next
    case sh
    then show ?thesis
      using isScriptHash_Some [of pkScript h]
      by (simp add: c_def putCompressedScript_def compressedScriptSize_def decode_special decompress_hash)
  next
    case pk
    have "decompressScript env (put_pubkey key) = Ok pkScript"
      using isPubKey_Some [of env pkScript key] pk decompress_compressed_key decompress_uncompressed_key assms(1) by metis
    moreover have "decodeCompressedScriptSize (put_pubkey key @ rest) = 33" "length (put_pubkey key) = 33"
      using isPubKey_Some [of env pkScript key] pk low_bit_cases [of "key ! 64"]
      by (auto simp: put_pubkey_def decode_special)
    ultimately show ?thesis
      using pk by (simp add: c_def putCompressedScript_def compressedScriptSize_def)
  next
    case raw
    then show ?thesis
      using compressed_raw [OF assms(2)] by (simp add: c_def putCompressedScript_def compressedScriptSize_def length_putVLQ)
  qed
qed

section \<open>Reading back outputs\<close>

text \<open>
  An output as stored in the set of unspent outputs is read back as it was: decoding the compressed
  form of an amount of at most \<open>2 ^ 60\<close> and a script, with anything behind it, returns the amount, the
  script and the number of bytes that form has, which is the size computed beforehand.
\<close>

lemma txout_roundtrip:
  assumes "keys_ok env" "amount \<le> 2 ^ 60" "length pkScript < 2 ^ 61"
  shows "decodeCompressedTxOut env (putCompressedTxOut env amount pkScript @ rest) =
      Ok (amount, pkScript, compressedTxOutSize env amount pkScript) \<and>
    length (putCompressedTxOut env amount pkScript) = compressedTxOutSize env amount pkScript"
proof -
  define v c where "v = putVLQ (compressTxOutAmount amount)" and "c = putCompressedScript env pkScript"
  have c: "length c = compressedScriptSize env pkScript" "decodeCompressedScriptSize (c @ rest) = int (length c)"
      "decompressScript env c = Ok pkScript"
    using script_roundtrip [OF assms(1,3)] unfolding c_def by blast+
  have v: "deserializeVLQ (v @ c @ rest) = (compressTxOutAmount amount, length v)" "length v = serializeSizeVLQ (compressTxOutAmount amount)"
    using deserialize_put amount_roundtrip(2) [OF assms(2)] unfolding v_def by (auto simp: length_putVLQ)
  have "length c > 0"
    using putCompressedScript_nonempty unfolding c_def by blast
  then show ?thesis
    using c v amount_roundtrip(1) [OF assms(2)] unfolding putCompressedTxOut_def compressedTxOutSize_def
    by (simp add: decodeCompressedTxOut_def flip: c_def v_def)
qed

text \<open>A pay-to-pubkey output of fifty coins to an uncompressed key takes 34 bytes.\<close>

definition demo_key :: bytes where
  "demo_key = 4 # replicate 64 7"

definition demo_keys :: key_env where
  "demo_keys = \<lparr>valid_key = (\<lambda>k. k = demo_key), uncompress = (\<lambda>c. if c = 3 # replicate 32 7 then Some demo_key else None)\<rparr>"

lemma demo_output_roundtrip:
  "decodeCompressedTxOut demo_keys (putCompressedTxOut demo_keys 5000000000 (0x41 # demo_key @ [0xac]) @ [1, 2]) =
     Ok (5000000000, 0x41 # demo_key @ [0xac], 34)"
proof -
  have "keys_ok demo_keys"
    by (simp add: keys_ok_def demo_keys_def demo_key_def)
  moreover have "compressedTxOutSize demo_keys 5000000000 (0x41 # demo_key @ [0xac]) = 34"
    by (simp add: compressedTxOutSize_def compressedScriptSize_def isPubKeyHash_def isScriptHash_def isPubKey_def demo_keys_def
        demo_key_def nth_append compressTxOutAmount_def strip_zeros.simps serializeSizeVLQ.simps)
  ultimately show ?thesis
    using txout_roundtrip [of demo_keys 5000000000 "0x41 # demo_key @ [0xac]" "[1, 2]"] by (simp add: demo_key_def)
qed

end
