(* ===== verification/Chain_Store.thy ===== *)
theory Chain_Store
  imports Chain_Compress Chain_Utxo
begin

text \<open>
  What the chain keeps in its database (\<^verbatim>\<open>coin/OrcaNet/blockchain/chainio.go\<close>): the spend journal, the
  set of unspent outputs, the index between heights and hashes and the best state; \<open>blockRows\<close> is the bucket of the
  block index and \<open>blockStore\<close> has the raw blocks, which the database keeps apart.  A bucket is a map
  from keys to values; the transactions that use it are open and writable, so that putting and
  deleting succeed.  \<^verbatim>\<open>utxoBucket\<close> and the others are the buckets of the metadata.
\<close>

type_synonym bucket = "bytes \<rightharpoonup> bytes"

record chain_db =
  utxoSet :: bucket
  spendJournal :: bucket
  hashIndex :: bucket
  heightIndex :: bucket
  metadata :: bucket
  blockRows :: bucket
  blockStore :: bucket

section \<open>The spend journal\<close>

definition spentTxOutHeaderCode :: "SpentTxOut \<Rightarrow> nat" where
  "spentTxOutHeaderCode stxo = nat (st_Height stxo * 2 mod 2 ^ 64) + (if st_IsCoinBase stxo then 1 else 0)"

definition spentTxOutSerializeSize :: "key_env \<Rightarrow> SpentTxOut \<Rightarrow> nat" where
  "spentTxOutSerializeSize env stxo =
     serializeSizeVLQ (spentTxOutHeaderCode stxo) + (if st_Height stxo > 0 then serializeSizeVLQ 0 else 0) +
     compressedTxOutSize env (nat (st_Amount stxo mod 2 ^ 64)) (st_PkScript stxo)"

definition putSpentTxOut :: "key_env \<Rightarrow> SpentTxOut \<Rightarrow> bytes" where
  "putSpentTxOut env stxo =
     putVLQ (spentTxOutHeaderCode stxo) @ (if st_Height stxo > 0 then putVLQ 0 else []) @
     putCompressedTxOut env (nat (st_Amount stxo mod 2 ^ 64)) (st_PkScript stxo)"

text \<open>The error of a failed read is wrapped; a panic is not.\<close>

definition wrap_err :: "string \<Rightarrow> 'a outcome \<Rightarrow> 'a outcome" where
  "wrap_err msg r = (case r of Err e \<Rightarrow> Err (errDeserialize (msg @ e)) | _ \<Rightarrow> r)"

definition decodeSpentTxOut :: "key_env \<Rightarrow> bytes \<Rightarrow> (SpentTxOut \<times> nat) outcome" where
  "decodeSpentTxOut env serialized =
     (if serialized = [] then Err (errDeserialize ''no serialized bytes'')
      else
        let (code, offset) = deserializeVLQ serialized
        in if offset \<ge> length serialized then Err (errDeserialize ''unexpected end of data after header code'')
           else
             let isCoinBase = odd code; height = wrap32 (int (code div 2));
                 offset' = (if height > 0 then offset + snd (deserializeVLQ (drop offset serialized)) else offset)
             in if height > 0 \<and> offset' \<ge> length serialized then Err (errDeserialize ''unexpected end of data after reserved'')
                else bind (wrap_err ''unable to decode txout: '' (decodeCompressedTxOut env (drop offset' serialized))) (\<lambda>(amt, script, bytesRead).
                  Ok (\<lparr>st_Amount = wrap64 (int amt), st_PkScript = script, st_Height = height, st_IsCoinBase = isCoinBase\<rparr>, offset' + bytesRead)))"

text \<open>The outputs are read from the last input of the last transaction to the first of the first.\<close>

fun read_stxos :: "key_env \<Rightarrow> nat \<Rightarrow> bytes \<Rightarrow> SpentTxOut list \<Rightarrow> SpentTxOut list outcome" where
  "read_stxos env 0 serialized stxos = Ok stxos"
| "read_stxos env (Suc n) serialized stxos =
     bind (wrap_err ''unable to decode stxo: '' (decodeSpentTxOut env serialized)) (\<lambda>(stxo, read).
       read_stxos env n (drop read serialized) (stxo # stxos))"

definition deserializeSpendJournalEntry :: "key_env \<Rightarrow> bytes \<Rightarrow> MsgTx list \<Rightarrow> SpentTxOut list outcome" where
  "deserializeSpendJournalEntry env serialized txns =
     (let numStxos = sum_list (map (\<lambda>t. length (TxIns t)) txns)
      in if serialized = [] then if numStxos \<noteq> 0 then Err ''mismatched spend journal serialization'' else Ok []
         else read_stxos env numStxos serialized [])"

definition serializeSpendJournalEntry :: "key_env \<Rightarrow> SpentTxOut list \<Rightarrow> bytes" where
  "serializeSpendJournalEntry env stxos = concat (map (putSpentTxOut env) (rev stxos))"

definition corrupt :: "string \<Rightarrow> 'a outcome \<Rightarrow> 'a outcome" where
  "corrupt msg r = (case r of Err e \<Rightarrow> Err (if isDeserializeErr e then ''ErrCorruption: '' @ msg @ e else e) | _ \<Rightarrow> r)"

text \<open>A missing entry reads as no bytes.\<close>

definition dbFetchSpendJournalEntry :: "(bytes \<Rightarrow> bytes) \<Rightarrow> key_env \<Rightarrow> chain_db \<Rightarrow> Block \<Rightarrow> SpentTxOut list outcome" where
  "dbFetchSpendJournalEntry sha env db block =
     bind (slice (block_txs block) 1 (length (block_txs block))) (\<lambda>blockTxns.
       corrupt ''corrupt spend information: ''
         (deserializeSpendJournalEntry env (case spendJournal db (block_Hash sha block) of Some b \<Rightarrow> b | None \<Rightarrow> []) blockTxns))"

definition dbPutSpendJournalEntry :: "key_env \<Rightarrow> bytes \<Rightarrow> SpentTxOut list \<Rightarrow> chain_db \<Rightarrow> chain_db" where
  "dbPutSpendJournalEntry env blockHash stxos db = db\<lparr>spendJournal := (spendJournal db)(blockHash \<mapsto> serializeSpendJournalEntry env stxos)\<rparr>"

definition dbRemoveSpendJournalEntry :: "bytes \<Rightarrow> chain_db \<Rightarrow> chain_db" where
  "dbRemoveSpendJournalEntry blockHash db = db\<lparr>spendJournal := (spendJournal db)(blockHash := None)\<rparr>"

definition dbPruneSpendJournalEntry :: "bytes list \<Rightarrow> chain_db \<Rightarrow> chain_db" where
  "dbPruneSpendJournalEntry blockHashes db = foldl (\<lambda>db h. dbRemoveSpendJournalEntry h db) db blockHashes"

section \<open>The set of unspent outputs\<close>

definition outpointKey :: "outpoint \<Rightarrow> bytes" where
  "outpointKey op = fst op @ putVLQ (snd op)"

definition utxoEntryHeaderCode :: "UtxoEntry \<Rightarrow> nat outcome" where
  "utxoEntryHeaderCode e =
     (if IsSpent e then Err ''attempt to serialize spent utxo header''
      else Ok (nat (blockHeight e * 2 mod 2 ^ 64) + (if entry_IsCoinBase e then 1 else 0)))"

definition serializeUtxoEntry :: "key_env \<Rightarrow> UtxoEntry \<Rightarrow> bytes outcome" where
  "serializeUtxoEntry env e =
     (if IsSpent e then Ok []
      else bind (utxoEntryHeaderCode e) (\<lambda>headerCode.
        Ok (putVLQ headerCode @ putCompressedTxOut env (nat (amount e mod 2 ^ 64)) (pkScript e))))"

definition deserializeUtxoEntry :: "key_env \<Rightarrow> bytes \<Rightarrow> UtxoEntry outcome" where
  "deserializeUtxoEntry env serialized =
     (let (code, offset) = deserializeVLQ serialized
      in if offset \<ge> length serialized then Err (errDeserialize ''unexpected end of data after header'')
         else bind (wrap_err ''unable to decode utxo: '' (decodeCompressedTxOut env (drop offset serialized))) (\<lambda>(amt, script, _).
           Ok \<lparr>amount = wrap64 (int amt), pkScript = script, blockHeight = wrap32 (int (code div 2)),
               packedFlags = (if odd code then tfCoinBase else 0)\<rparr>))"

definition dbFetchUtxoEntry :: "key_env \<Rightarrow> chain_db \<Rightarrow> outpoint \<Rightarrow> UtxoEntry option outcome" where
  "dbFetchUtxoEntry env db op =
     (case utxoSet db (outpointKey op) of
        None \<Rightarrow> Ok None
      | Some serializedUtxo \<Rightarrow>
          if serializedUtxo = [] then Err ''database contains entry for spent tx output''
          else bind (corrupt ''corrupt utxo entry: '' (deserializeUtxoEntry env serializedUtxo)) (\<lambda>e. Ok (Some e)))"

definition dbDeleteUtxoEntry :: "outpoint \<Rightarrow> chain_db \<Rightarrow> chain_db" where
  "dbDeleteUtxoEntry op db = db\<lparr>utxoSet := (utxoSet db)(outpointKey op := None)\<rparr>"

definition dbPutUtxoEntry :: "key_env \<Rightarrow> outpoint \<Rightarrow> UtxoEntry option \<Rightarrow> chain_db \<Rightarrow> chain_db outcome" where
  "dbPutUtxoEntry env op e db =
     (case e of
        None \<Rightarrow> Err ''trying to store nil or spent entry''
      | Some e \<Rightarrow>
          if IsSpent e then Err ''trying to store nil or spent entry''
          else bind (serializeUtxoEntry env e) (\<lambda>serialized. Ok (db\<lparr>utxoSet := (utxoSet db)(outpointKey op \<mapsto> serialized)\<rparr>)))"

text \<open>
  Go's maps are ranged over in no fixed order: \<open>order\<close> lists the outpoints of the view as they come.
\<close>

definition put_view_entry :: "key_env \<Rightarrow> outpoint \<Rightarrow> UtxoEntry option \<Rightarrow> chain_db \<Rightarrow> chain_db outcome" where
  "put_view_entry env op e db =
     (case e of
        None \<Rightarrow> Ok db
      | Some entry \<Rightarrow>
          if \<not> isModified entry then Ok db
          else if IsSpent entry then Ok (dbDeleteUtxoEntry op db)
          else dbPutUtxoEntry env op e db)"

fun put_view_loop :: "key_env \<Rightarrow> (outpoint \<times> UtxoEntry option) list \<Rightarrow> chain_db \<Rightarrow> chain_db outcome" where
  "put_view_loop env [] db = Ok db"
| "put_view_loop env ((op, e) # es) db = bind (put_view_entry env op e db) (put_view_loop env es)"

definition dbPutUtxoView :: "key_env \<Rightarrow> outpoint list \<Rightarrow> UtxoViewpoint option \<Rightarrow> chain_db \<Rightarrow> chain_db outcome" where
  "dbPutUtxoView env order view db =
     (case view of None \<Rightarrow> Ok db | Some v \<Rightarrow> put_view_loop env (map (\<lambda>op. (op, the (entries v op))) order) db)"

section \<open>The index of the main chain\<close>

definition dbPutBlockIndex :: "bytes \<Rightarrow> int \<Rightarrow> chain_db \<Rightarrow> chain_db" where
  "dbPutBlockIndex h height db =
     db\<lparr>hashIndex := (hashIndex db)(h \<mapsto> uint32_bytes height), heightIndex := (heightIndex db)(uint32_bytes height \<mapsto> h)\<rparr>"

definition dbRemoveBlockIndex :: "bytes \<Rightarrow> int \<Rightarrow> chain_db \<Rightarrow> chain_db" where
  "dbRemoveBlockIndex h height db =
     db\<lparr>hashIndex := (hashIndex db)(h := None), heightIndex := (heightIndex db)(uint32_bytes height := None)\<rparr>"

definition dbFetchHeightByHash :: "chain_db \<Rightarrow> bytes \<Rightarrow> int outcome" where
  "dbFetchHeightByHash db h =
     (case hashIndex db h of
        None \<Rightarrow> Err ''block is not in the main chain''
      | Some b \<Rightarrow> bind (slice b 0 4) (\<lambda>v. Ok (wrap32 (int (le_value v)))))"

definition dbFetchHashByHeight :: "chain_db \<Rightarrow> int \<Rightarrow> bytes outcome" where
  "dbFetchHashByHeight db height =
     (case heightIndex db (uint32_bytes height) of
        None \<Rightarrow> Err ''no block at height exists''
      | Some b \<Rightarrow> Ok (take 32 (b @ replicate 32 0)))"

section \<open>The best state\<close>

record bestChainState =
  bs_hash :: bytes
  bs_height :: nat
  bs_totalTxns :: nat
  bs_workSum :: nat

text \<open>The big-endian bytes of a number without leading zeros, and the number they stand for.\<close>

fun big_Bytes :: "nat \<Rightarrow> bytes" where
  "big_Bytes n = (if n = 0 then [] else big_Bytes (n div 256) @ [of_nat (n mod 256)])"

declare big_Bytes.simps [simp del]

definition big_SetBytes :: "bytes \<Rightarrow> nat" where
  "big_SetBytes b = foldl (\<lambda>n x. n * 256 + unat x) 0 b"

definition serializeBestChainState :: "bestChainState \<Rightarrow> bytes" where
  "serializeBestChainState state =
     (let workSumBytes = big_Bytes (bs_workSum state)
      in bs_hash state @ uint32_bytes (int (bs_height state)) @ uint64_bytes (int (bs_totalTxns state)) @
         uint32_bytes (int (length workSumBytes)) @ workSumBytes)"

definition deserializeBestChainState :: "bytes \<Rightarrow> bestChainState outcome" where
  "deserializeBestChainState serializedData =
     (if length serializedData < 48 then Err ''ErrCorruption: corrupt best chain state''
      else
        let workSumBytesLen = le_value (take 4 (drop 44 serializedData))
        in if (length serializedData - 48) mod 2 ^ 32 < workSumBytesLen then Err ''ErrCorruption: corrupt best chain state''
           else Ok \<lparr>bs_hash = take 32 serializedData, bs_height = le_value (take 4 (drop 32 serializedData)),
                    bs_totalTxns = le_value (take 8 (drop 36 serializedData)),
                    bs_workSum = big_SetBytes (take workSumBytesLen (drop 48 serializedData))\<rparr>)"

definition chainStateKeyName :: bytes where
  "chainStateKeyName = map (of_nat \<circ> of_char) ''chainstate''"

definition utxoStateConsistencyKeyName :: bytes where
  "utxoStateConsistencyKeyName = map (of_nat \<circ> of_char) ''utxostateconsistency''"

text \<open>The hash, the height and the number of transactions of the snapshot.\<close>

definition dbPutBestState :: "bytes \<Rightarrow> int \<Rightarrow> nat \<Rightarrow> nat \<Rightarrow> chain_db \<Rightarrow> chain_db" where
  "dbPutBestState h height totalTxns workSum db =
     db\<lparr>metadata := (metadata db)(chainStateKeyName \<mapsto>
        serializeBestChainState \<lparr>bs_hash = h, bs_height = nat (height mod 2 ^ 32), bs_totalTxns = totalTxns, bs_workSum = workSum\<rparr>)\<rparr>"

definition dbPutUtxoStateConsistency :: "bytes \<Rightarrow> chain_db \<Rightarrow> chain_db" where
  "dbPutUtxoStateConsistency h db = db\<lparr>metadata := (metadata db)(utxoStateConsistencyKeyName \<mapsto> h)\<rparr>"

definition dbFetchUtxoStateConsistency :: "chain_db \<Rightarrow> bytes option" where
  "dbFetchUtxoStateConsistency db = metadata db utxoStateConsistencyKeyName"

section \<open>Reading back the spend journal\<close>

text \<open>What a stored output has to be: an amount the format holds, a script in memory, a height of 32 bits.\<close>

definition stxo_ok :: "SpentTxOut \<Rightarrow> bool" where
  "stxo_ok stxo \<longleftrightarrow> 0 \<le> st_Amount stxo \<and> st_Amount stxo \<le> 2 ^ 60 \<and> length (st_PkScript stxo) < 2 ^ 61 \<and>
     - (2 ^ 31) \<le> st_Height stxo \<and> st_Height stxo < 2 ^ 31"

lemma height_code: "nat (h * 2 mod 2 ^ 64) = 2 * nat (h mod 2 ^ 63)"
proof -
  have "h * 2 mod 2 ^ 64 = 2 * (h mod 2 ^ 63)"
    by (simp add: mult_mod_right mult.commute [of h])
  then show ?thesis
    by (simp add: nat_mult_distrib)
qed

lemma header_code:
  assumes "- (2 ^ 31) \<le> h" "h < 2 ^ 31"
  shows "wrap32 (int ((nat (h * 2 mod 2 ^ 64) + (if c then 1 else 0)) div 2)) = h"
    and "odd (nat (h * 2 mod 2 ^ 64) + (if c then 1 else 0)) = c"
    and "nat (h * 2 mod 2 ^ 64) + (if c then 1 else 0) < 2 ^ 64"
proof -
  have "h mod 2 ^ 63 mod 2 ^ 32 = h mod 2 ^ 32"
    by (rule mod_mod_cancel) simp
  then have "wrap32 (h mod 2 ^ 63) = h"
    using assms wrap_mod(1) [of "h mod 2 ^ 63"] wrap_mod(1) [of h] by simp
  then show "wrap32 (int ((nat (h * 2 mod 2 ^ 64) + (if c then 1 else 0)) div 2)) = h"
    unfolding height_code by simp
  show "odd (nat (h * 2 mod 2 ^ 64) + (if c then 1 else 0)) = c"
    unfolding height_code by simp
  have "nat (h mod 2 ^ 63) < 2 ^ 63"
    by (simp add: nat_less_iff)
  then show "nat (h * 2 mod 2 ^ 64) + (if c then 1 else 0) < 2 ^ 64"
    unfolding height_code by simp
qed

lemma txout_decodes:
  assumes "keys_ok env" "0 \<le> amt" "amt \<le> 2 ^ 60" "length script < 2 ^ 61"
  shows "decodeCompressedTxOut env (putCompressedTxOut env (nat (amt mod 2 ^ 64)) script @ rest) =
      Ok (nat amt, script, length (putCompressedTxOut env (nat (amt mod 2 ^ 64)) script))"
    and "length (putCompressedTxOut env (nat (amt mod 2 ^ 64)) script) = compressedTxOutSize env (nat (amt mod 2 ^ 64)) script"
proof -
  have "amt mod 2 ^ 64 = amt" "nat amt \<le> 2 ^ 60"
    using assms by (auto simp: nat_le_iff)
  then show "decodeCompressedTxOut env (putCompressedTxOut env (nat (amt mod 2 ^ 64)) script @ rest) =
      Ok (nat amt, script, length (putCompressedTxOut env (nat (amt mod 2 ^ 64)) script))"
    and "length (putCompressedTxOut env (nat (amt mod 2 ^ 64)) script) = compressedTxOutSize env (nat (amt mod 2 ^ 64)) script"
    using txout_roundtrip [OF assms(1) _ assms(4), of "nat amt" rest] by simp_all
qed

lemma putCompressedTxOut_nonempty: "putCompressedTxOut env amt script \<noteq> []"
  using putVLQ_nonempty by (simp add: putCompressedTxOut_def)

lemma stxo_roundtrip:
  assumes "keys_ok env" "stxo_ok stxo"
  shows "decodeSpentTxOut env (putSpentTxOut env stxo @ rest) = Ok (stxo, length (putSpentTxOut env stxo))"
    and "length (putSpentTxOut env stxo) = spentTxOutSerializeSize env stxo"
proof -
  define code where "code = spentTxOutHeaderCode stxo"
  define out where "out = putCompressedTxOut env (nat (st_Amount stxo mod 2 ^ 64)) (st_PkScript stxo)"
  have code: "wrap32 (int (code div 2)) = st_Height stxo" "odd code = st_IsCoinBase stxo" "code < 2 ^ 64"
    using header_code [of "st_Height stxo" "st_IsCoinBase stxo"] assms(2) unfolding code_def spentTxOutHeaderCode_def stxo_ok_def by simp_all
  have out: "decodeCompressedTxOut env (out @ rest) = Ok (nat (st_Amount stxo), st_PkScript stxo, length out)"
      "length out = compressedTxOutSize env (nat (st_Amount stxo mod 2 ^ 64)) (st_PkScript stxo)"
    using txout_decodes [OF assms(1), of "st_Amount stxo" "st_PkScript stxo"] assms(2) unfolding out_def stxo_ok_def by simp_all
  have read: "deserializeVLQ (putVLQ code @ r) = (code, length (putVLQ code))" "deserializeVLQ (putVLQ 0 @ r) = (0, length (putVLQ 0))" for r
    using deserialize_put code(3) by auto
  have "out \<noteq> []" "putVLQ n \<noteq> []" for n
    using putCompressedTxOut_nonempty putVLQ_nonempty [of n] unfolding out_def by auto
  then show "decodeSpentTxOut env (putSpentTxOut env stxo @ rest) = Ok (stxo, length (putSpentTxOut env stxo))"
    using code out(1) read assms(2) unfolding putSpentTxOut_def code_def [symmetric] out_def [symmetric]
    by (cases "st_Height stxo > 0") (simp_all add: decodeSpentTxOut_def wrap_err_def stxo_ok_def Let_def)
  show "length (putSpentTxOut env stxo) = spentTxOutSerializeSize env stxo"
    using out(2) unfolding putSpentTxOut_def spentTxOutSerializeSize_def out_def by (simp add: length_putVLQ)
qed

lemma read_stxos_write:
  assumes "keys_ok env" "list_all stxo_ok stxos"
  shows "read_stxos env (length stxos) (serializeSpendJournalEntry env stxos) acc = Ok (stxos @ acc)"
  using assms(2)
proof (induction stxos arbitrary: acc rule: rev_induct)
  case (snoc stxo stxos)
  then show ?case
    using stxo_roundtrip(1) [OF assms(1), of stxo] by (simp add: serializeSpendJournalEntry_def wrap_err_def)
qed simp

lemma serialize_empty_iff: "serializeSpendJournalEntry env stxos = [] \<longleftrightarrow> stxos = []"
  using putVLQ_nonempty by (auto simp: serializeSpendJournalEntry_def putSpentTxOut_def)

lemma journal_roundtrip:
  assumes "keys_ok env" "list_all stxo_ok stxos" "countSpentOutputs block = Ok (length stxos)"
  shows "dbFetchSpendJournalEntry sha env (dbPutSpendJournalEntry env (block_Hash sha block) stxos db) block = Ok stxos"
proof -
  have "read_stxos env (length stxos) (serializeSpendJournalEntry env stxos) [] = Ok stxos"
    using read_stxos_write [OF assms(1,2), of "[]"] by simp
  then show ?thesis
    using assms(3) serialize_empty_iff [of env stxos]
    by (auto simp: dbFetchSpendJournalEntry_def dbPutSpendJournalEntry_def deserializeSpendJournalEntry_def countSpentOutputs_def
        bind_Ok_iff corrupt_def)
qed

text \<open>
  C11: a block can be undone from what the database keeps of it.  The outputs a block spends, written
  to the spend journal when the block is connected and read back later, let
  \<^verbatim>\<open>disconnectTransactions\<close> succeed on any view of the resulting set of unspent outputs, and the set
  is again the one before the block.
\<close>

theorem undo_from_journal:
  assumes "connectTransactions sha block view (Some []) = Ok (view', Some stxos)"
    and "block_txs block = cb # ts" and "IsCoinBase cb" and "list_all (\<lambda>t. \<not> IsCoinBase t) ts"
    and "txs_fit sha (blk_Height block) (unspent base view) (cb # ts)"
    and "unspent base2 view2 = unspent base view'"
    and "keys_ok env" and "list_all stxo_ok stxos"
  shows "\<exists>view3. bind (dbFetchSpendJournalEntry sha env (dbPutSpendJournalEntry env (block_Hash sha block) stxos db) block)
      (\<lambda>s. disconnectTransactions sha fetch block s view2) = Ok view3 \<and> unspent base2 view3 = unspent base view"
proof -
  obtain v where v: "connect_txs sha (blk_Height block) (cb # ts) view (Some []) = Ok (v, Some stxos)"
      and view': "view' = SetBestHash (block_Hash sha block) v"
    using assms(1,2) by (auto simp: connectTransactions_def bind_Ok_iff)
  have "unspent base2 view2 = unspent base v"
    using assms(6) unfolding view' by (simp add: unspent_def SetBestHash_def fun_eq_iff)
  from undo_txs [OF v assms(5,3,4) this, of fetch] obtain view3 where len: "length stxos = sum_list (map (\<lambda>t. length (TxIns t)) ts)"
      and undo: "disconnect_txs sha fetch (blk_Height block) (rev (cb # ts)) (rev stxos) view2 = Ok view3" "unspent base2 view3 = unspent base view"
    by blast
  have n: "countSpentOutputs block = Ok (length stxos)"
    by (simp add: countSpentOutputs_def assms(2) slice_def len)
  show ?thesis
    using undo by (simp add: journal_roundtrip [OF assms(7,8) n] disconnectTransactions_def n assms(2) SetBestHash_def unspent_def fun_eq_iff)
qed

text \<open>The block of a coinbase and one spend, through the journal.\<close>

definition empty_db :: chain_db where
  "empty_db = \<lparr>utxoSet = Map.empty, spendJournal = Map.empty, hashIndex = Map.empty, heightIndex = Map.empty, metadata = Map.empty,
     blockRows = Map.empty, blockStore = Map.empty\<rparr>"

lemma demo_keys_ok: "keys_ok demo_keys"
  by (simp add: keys_ok_def demo_keys_def demo_key_def)

lemma sample_journal:
  "\<exists>view'. connectTransactions id sample_block sample_view (Some []) =
     Ok (view', Some [\<lparr>st_Amount = 5, st_PkScript = [0x51], st_Height = 1, st_IsCoinBase = False\<rparr>])"
  using sample_hashes spendable_true
  by (simp add: connectTransactions_def sample_block_def block_txs_def connectTransaction_def null_outpoints LookupEntry_def
      sample_view_def put_entry_def NewUtxoViewpoint_def AddTxOuts_def addTxOut_def stxo_of_def entry_IsCoinBase_def)

theorem undo_from_journal_witness:
  "\<exists>view' stxos view3. connectTransactions id sample_block sample_view (Some []) = Ok (view', Some stxos) \<and>
    bind (dbFetchSpendJournalEntry id demo_keys (dbPutSpendJournalEntry demo_keys (block_Hash id sample_block) stxos empty_db) sample_block)
      (\<lambda>s. disconnectTransactions id (\<lambda>_. Ok None) sample_block s view') = Ok view3 \<and> unspent sample_base view3 = sample_base"
proof -
  obtain view' where c: "connectTransactions id sample_block sample_view (Some []) =
      Ok (view', Some [\<lparr>st_Amount = 5, st_PkScript = [0x51], st_Height = 1, st_IsCoinBase = False\<rparr>])"
    using sample_journal by blast
  then show ?thesis
    using undo_from_journal [OF c, of "coin_tx (replicate 32 0, 2 ^ 32 - 1) 50" "[coin_tx (replicate 32 7, 0) 4]" sample_base
        sample_base view' demo_keys empty_db "\<lambda>_. Ok None"] sample_block_fits demo_keys_ok
    by (auto simp: sample_unspent block_txs_def sample_block_def null_outpoints stxo_ok_def)
qed

section \<open>Storing the set of unspent outputs\<close>

definition outpoint_ok :: "outpoint \<Rightarrow> bool" where
  "outpoint_ok op \<longleftrightarrow> length (fst op) = 32 \<and> snd op < 2 ^ 32"

text \<open>The coins the database holds.\<close>

definition db_coins :: "key_env \<Rightarrow> chain_db \<Rightarrow> utxo_set" where
  "db_coins env db op = (case dbFetchUtxoEntry env db op of Ok e \<Rightarrow> live e | _ \<Rightarrow> None)"

lemma putVLQ_inj: "n < 2 ^ 64 \<Longrightarrow> m < 2 ^ 64 \<Longrightarrow> putVLQ n = putVLQ m \<Longrightarrow> n = m"
  by (metis deserialize_put prod.inject)

lemma outpointKey_inj:
  assumes "outpoint_ok op" "outpoint_ok op'" "outpointKey op = outpointKey op'"
  shows "op = op'"
proof -
  have "fst op = fst op'" "putVLQ (snd op) = putVLQ (snd op')"
    using assms by (auto simp: outpoint_ok_def outpointKey_def)
  moreover from this have "snd op = snd op'"
    using assms(1,2) by (intro putVLQ_inj) (simp_all add: outpoint_ok_def)
  ultimately show ?thesis
    by (simp add: prod_eq_iff)
qed

lemma entry_roundtrip:
  assumes "keys_ok env" "stxo_ok (stxo_of e)" "\<not> IsSpent e"
  shows "\<exists>b. serializeUtxoEntry env e = Ok b \<and> b \<noteq> [] \<and>
    deserializeUtxoEntry env b = Ok (e\<lparr>packedFlags := (if entry_IsCoinBase e then tfCoinBase else 0)\<rparr>)"
proof -
  define code where "code = nat (blockHeight e * 2 mod 2 ^ 64) + (if entry_IsCoinBase e then 1 else 0)"
  define out where "out = putCompressedTxOut env (nat (amount e mod 2 ^ 64)) (pkScript e)"
  have ok: "- (2 ^ 31) \<le> blockHeight e" "blockHeight e < 2 ^ 31" "0 \<le> amount e" "amount e \<le> 2 ^ 60" "length (pkScript e) < 2 ^ 61"
    using assms(2) by (auto simp: stxo_ok_def stxo_of_def)
  have code: "wrap32 (int (code div 2)) = blockHeight e" "odd code = entry_IsCoinBase e" "code < 2 ^ 64"
    using header_code [OF ok(1,2), of "entry_IsCoinBase e"] unfolding code_def by simp_all
  have "decodeCompressedTxOut env out = Ok (nat (amount e), pkScript e, length out)"
    using txout_decodes(1) [OF assms(1) ok(3-5), of "[]"] unfolding out_def by simp
  moreover have "out \<noteq> []" "deserializeVLQ (putVLQ code @ out) = (code, length (putVLQ code))" "putVLQ code \<noteq> []"
    using putCompressedTxOut_nonempty deserialize_put code(3) putVLQ_nonempty [of code] unfolding out_def by auto
  ultimately have "deserializeUtxoEntry env (putVLQ code @ out) = Ok (e\<lparr>packedFlags := (if entry_IsCoinBase e then tfCoinBase else 0)\<rparr>)"
    using code ok by (simp add: deserializeUtxoEntry_def wrap_err_def)
  moreover have "serializeUtxoEntry env e = Ok (putVLQ code @ out)"
    using assms(3) unfolding code_def out_def by (simp add: serializeUtxoEntry_def utxoEntryHeaderCode_def)
  ultimately show ?thesis
    using \<open>putVLQ code \<noteq> []\<close> by blast
qed

lemma live_stored: "\<not> IsSpent e \<Longrightarrow> live (Some (e\<lparr>packedFlags := (if entry_IsCoinBase e then tfCoinBase else 0)\<rparr>)) = live (Some e)"
  by (simp add: live_def IsSpent_def stxo_of_def entry_IsCoinBase_def)

text \<open>Putting and deleting an entry change one coin of the database.\<close>

lemma db_coins_put:
  assumes "keys_ok env" "stxo_ok (stxo_of e)" "\<not> IsSpent e" "outpoint_ok op"
  shows "\<exists>db'. dbPutUtxoEntry env op (Some e) db = Ok db' \<and> (\<forall>x. outpoint_ok x \<longrightarrow> db_coins env db' x = ((db_coins env db)(op := live (Some e))) x)"
proof -
  obtain b where b: "serializeUtxoEntry env e = Ok b" "b \<noteq> []"
      "deserializeUtxoEntry env b = Ok (e\<lparr>packedFlags := (if entry_IsCoinBase e then tfCoinBase else 0)\<rparr>)"
    using entry_roundtrip [OF assms(1-3)] by blast
  define db' where "db' = db\<lparr>utxoSet := (utxoSet db)(outpointKey op \<mapsto> b)\<rparr>"
  have put: "dbPutUtxoEntry env op (Some e) db = Ok db'"
    using assms(3) b(1) by (simp add: dbPutUtxoEntry_def db'_def)
  have "db_coins env db' x = ((db_coins env db)(op := live (Some e))) x" if "outpoint_ok x" for x
  proof (cases "x = op")
    case True
    then show ?thesis
      using b live_stored [OF assms(3)] by (simp add: db_coins_def dbFetchUtxoEntry_def db'_def corrupt_def)
  next
    case False
    then have "outpointKey x \<noteq> outpointKey op"
      using outpointKey_inj that assms(4) by blast
    then show ?thesis
      using False by (simp add: db_coins_def dbFetchUtxoEntry_def db'_def)
  qed
  with put show ?thesis
    by blast
qed

lemma db_coins_delete:
  assumes "outpoint_ok op" "outpoint_ok x"
  shows "db_coins env (dbDeleteUtxoEntry op db) x = ((db_coins env db)(op := None)) x"
  using outpointKey_inj [OF assms(2,1)] by (auto simp: db_coins_def dbFetchUtxoEntry_def dbDeleteUtxoEntry_def)

text \<open>An entry that is not to be written agrees with the database already.\<close>

definition entry_synced :: "key_env \<Rightarrow> chain_db \<Rightarrow> outpoint \<Rightarrow> UtxoEntry option \<Rightarrow> bool" where
  "entry_synced env db op e \<longleftrightarrow> outpoint_ok op \<and>
     (case e of None \<Rightarrow> db_coins env db op = None
      | Some entry \<Rightarrow> stxo_ok (stxo_of entry) \<and> (\<not> isModified entry \<longrightarrow> live e = db_coins env db op))"

lemma put_view_entry_coins:
  assumes "keys_ok env" "entry_synced env db op e"
  shows "\<exists>db'. put_view_entry env op e db = Ok db' \<and> (\<forall>x. outpoint_ok x \<longrightarrow> db_coins env db' x = ((db_coins env db)(op := live e)) x)"
proof (cases e)
  case None
  then show ?thesis
    using assms(2) by (simp add: put_view_entry_def entry_synced_def)
next
  case (Some entry)
  then have ok: "outpoint_ok op" "stxo_ok (stxo_of entry)" "\<not> isModified entry \<longrightarrow> live e = db_coins env db op"
    using assms(2) by (simp_all add: entry_synced_def)
  consider "\<not> isModified entry" | "isModified entry" "IsSpent entry" | "isModified entry" "\<not> IsSpent entry"
    by blast
  then show ?thesis
  proof cases
    case 1
    then show ?thesis
      using Some ok by (simp add: put_view_entry_def)
  next
    case 2
    then show ?thesis
      using Some ok(1) db_coins_delete [of op _ env db] by (simp add: put_view_entry_def live_def)
  next
    case 3
    then show ?thesis
      using Some db_coins_put [OF assms(1) ok(2) 3(2) ok(1), of db] by (simp add: put_view_entry_def)
  qed
qed

text \<open>
  Writing a batch of entries: each write makes the database agree with its entry and leaves the other
  coins alone, so that the batch makes the database agree with all of them.
\<close>

locale entry_writer =
  fixes wr :: "key_env \<Rightarrow> outpoint \<Rightarrow> UtxoEntry option \<Rightarrow> chain_db \<Rightarrow> chain_db outcome"
    and loop :: "key_env \<Rightarrow> (outpoint \<times> UtxoEntry option) list \<Rightarrow> chain_db \<Rightarrow> chain_db outcome"
  assumes wr_coins: "keys_ok env \<Longrightarrow> entry_synced env db op e \<Longrightarrow>
      \<exists>db'. wr env op e db = Ok db' \<and> (\<forall>x. outpoint_ok x \<longrightarrow> db_coins env db' x = ((db_coins env db)(op := live e)) x)"
    and loop_Nil: "loop env [] db = Ok db"
    and loop_Cons: "loop env ((op, e) # es) db = bind (wr env op e db) (loop env es)"
begin

lemma loop_coins:
  assumes "keys_ok env" "distinct (map fst es)" "\<forall>(op, e) \<in> set es. entry_synced env db op e"
  shows "\<exists>db'. loop env es db = Ok db' \<and>
    (\<forall>x. outpoint_ok x \<longrightarrow> db_coins env db' x = (case map_of es x of Some e \<Rightarrow> live e | None \<Rightarrow> db_coins env db x))"
  using assms(2,3)
proof (induction es arbitrary: db)
  case (Cons oe es)
  obtain op e where oe: "oe = (op, e)"
    by (cases oe)
  have "entry_synced env db op e"
    using Cons.prems(2) oe by simp
  from wr_coins [OF assms(1) this]
  obtain db1 where db1: "wr env op e db = Ok db1"
      "\<forall>x. outpoint_ok x \<longrightarrow> db_coins env db1 x = ((db_coins env db)(op := live e)) x"
    by blast
  have "entry_synced env db1 x f" if "(x, f) \<in> set es" for x f
  proof -
    have "x \<noteq> op"
      using Cons.prems(1) oe that by (auto simp: rev_image_eqI)
    moreover have old: "entry_synced env db x f"
      using Cons.prems(2) that by auto
    ultimately have "db_coins env db1 x = db_coins env db x"
      using db1(2) unfolding entry_synced_def by (metis fun_upd_other)
    with old show ?thesis
      unfolding entry_synced_def by (simp only:)
  qed
  then have synced: "\<forall>(op, e) \<in> set es. entry_synced env db1 op e"
    by blast
  have "distinct (map fst es)"
    using Cons.prems(1) by simp
  from Cons.IH [OF this synced]
  obtain db2 where db2: "loop env es db1 = Ok db2"
      "\<forall>x. outpoint_ok x \<longrightarrow> db_coins env db2 x = (case map_of es x of Some e \<Rightarrow> live e | None \<Rightarrow> db_coins env db1 x)"
    by blast
  have "map_of es op = None"
    using Cons.prems(1) oe by (simp add: map_of_eq_None_iff)
  then have "db_coins env db2 x = (case map_of (oe # es) x of Some e \<Rightarrow> live e | None \<Rightarrow> db_coins env db x)" if "outpoint_ok x" for x
    using db1(2) [rule_format, OF that] db2(2) [rule_format, OF that] oe by (cases "x = op") (auto split: option.splits)
  then show ?case
    using db1(1) db2(1) oe by (auto simp: loop_Cons)
qed (simp add: loop_Nil)

end

interpretation view_writer: entry_writer put_view_entry put_view_loop
  by unfold_locales (use put_view_entry_coins in simp_all)

text \<open>Writing a view to the database makes the stored set the one the view describes.\<close>

lemma put_view_coins:
  assumes "keys_ok env" "distinct order" "set order = dom (entries v)"
    and "\<forall>op e. entries v op = Some e \<longrightarrow> entry_synced env db op e"
  shows "\<exists>db'. dbPutUtxoView env order (Some v) db = Ok db' \<and>
    (\<forall>x. outpoint_ok x \<longrightarrow> db_coins env db' x = unspent (db_coins env db) v x)"
proof -
  define es where "es = map (\<lambda>op. (op, the (entries v op))) order"
  have "map_of es x = entries v x" for x
    using assms(3) unfolding es_def by (auto simp: map_of_map_restrict restrict_map_def domIff)
  moreover have "distinct (map fst es)" "\<forall>(op, e) \<in> set es. entry_synced env db op e"
    using assms(2,3,4) unfolding es_def by (auto simp: comp_def)
  ultimately show ?thesis
    using view_writer.loop_coins [OF assms(1), of es db] by (auto simp: dbPutUtxoView_def unspent_def es_def)
qed

section \<open>Reading back the index and the best state\<close>

lemma block_index_fetch:
  assumes "- (2 ^ 31) \<le> height" "height < 2 ^ 31" "length h = 32"
  shows "dbFetchHeightByHash (dbPutBlockIndex h height db) h = Ok height"
    and "dbFetchHashByHeight (dbPutBlockIndex h height db) height = Ok h"
    and "dbFetchHeightByHash (dbRemoveBlockIndex h height db) h = Err ''block is not in the main chain''"
    and "dbFetchHashByHeight (dbRemoveBlockIndex h height db) height = Err ''no block at height exists''"
proof -
  have "int (le_value (uint32_bytes height)) = height mod 2 ^ 32"
    by simp
  then have "wrap32 (int (le_value (uint32_bytes height))) = height"
    using assms(1,2) wrap_mod(1) [of height] by simp
  then show "dbFetchHeightByHash (dbPutBlockIndex h height db) h = Ok height"
    by (simp add: dbFetchHeightByHash_def dbPutBlockIndex_def slice_def)
qed (use assms in \<open>simp_all add: dbFetchHashByHeight_def dbFetchHeightByHash_def dbPutBlockIndex_def dbRemoveBlockIndex_def\<close>)

lemma big_bytes_roundtrip: "big_SetBytes (big_Bytes n) = n"
proof (induction n rule: big_Bytes.induct)
  case (1 n)
  then show ?case
    by (subst big_Bytes.simps) (auto simp: big_SetBytes_def unat_of_nat)
qed

lemma best_state_roundtrip:
  assumes "length (bs_hash state) = 32" "bs_height state < 2 ^ 32" "bs_totalTxns state < 2 ^ 64" "length (big_Bytes (bs_workSum state)) < 2 ^ 32"
  shows "deserializeBestChainState (serializeBestChainState state) = Ok state"
proof -
  define a b c w where "a = bs_hash state" and "b = uint32_bytes (int (bs_height state))" and "c = uint64_bytes (int (bs_totalTxns state))"
    and "w = big_Bytes (bs_workSum state)"
  define d where "d = uint32_bytes (int (length w))"
  have len: "length a = 32" "length b = 4" "length c = 8" "length d = 4"
    using assms(1) unfolding a_def b_def c_def d_def by simp_all
  have "int (le_value b) = int (bs_height state)" "int (le_value c) = int (bs_totalTxns state)" "int (le_value d) = int (length w)"
    using assms(2-4) unfolding b_def c_def d_def w_def by simp_all
  then have val: "le_value b = bs_height state" "le_value c = bs_totalTxns state" "le_value d = length w"
    by simp_all
  have "length w < 2 ^ 32" "big_SetBytes w = bs_workSum state"
    using assms(4) unfolding w_def by (simp_all add: big_bytes_roundtrip)
  then have "deserializeBestChainState (a @ b @ c @ d @ w) = Ok \<lparr>bs_hash = a, bs_height = bs_height state, bs_totalTxns = bs_totalTxns state, bs_workSum = bs_workSum state\<rparr>"
    using len val by (simp add: deserializeBestChainState_def Let_def)
  then show ?thesis
    unfolding serializeBestChainState_def Let_def a_def b_def c_def d_def w_def by simp
qed

end
