(* ===== verification/Chain_Cache.thy ===== *)
theory Chain_Cache
  imports Chain_Store "HOL-Library.AList"
begin

text \<open>
  The cache in front of the stored set of unspent outputs
  (\<^verbatim>\<open>coin/OrcaNet/blockchain/utxocache.go\<close>).  A Go map is an association list without repeated keys, its
  order standing for the order a \<^verbatim>\<open>range\<close> happens to take; an entry is reached through the cache
  alone, so that changing it in place is an update of the map that has it.  How much memory a map of
  some capacity takes, and which capacity fits in some memory, are estimates the code computes from
  the layout of the Go runtime (\<^verbatim>\<open>sizehelper.go\<close>); they are arguments here, and nothing depends on them.
\<close>

record size_env =
  calculateRoughMapSize :: "int \<Rightarrow> int"
  calculateMinEntries :: "int \<Rightarrow> int"

section \<open>Slices of maps\<close>

type_synonym entry_map = "(outpoint \<times> UtxoEntry option) list"

record mapSlice =
  maps :: "entry_map list"
  maxEntries :: "int list"
  maxTotalMemoryUsage :: nat

definition ms_length :: "mapSlice \<Rightarrow> nat" where
  "ms_length ms = sum_list (map length (maps ms))"

definition ms_size :: "size_env \<Rightarrow> mapSlice \<Rightarrow> int" where
  "ms_size sz ms = wrap64 (sum_list (map (calculateRoughMapSize sz) (maxEntries ms)))"

fun get_maps :: "entry_map list \<Rightarrow> outpoint \<Rightarrow> UtxoEntry option option" where
  "get_maps [] op = None"
| "get_maps (m # ms) op = (case map_of m op of Some e \<Rightarrow> Some e | None \<Rightarrow> get_maps ms op)"

definition ms_get :: "mapSlice \<Rightarrow> outpoint \<Rightarrow> UtxoEntry option option" where
  "ms_get ms op = get_maps (maps ms) op"

definition makeNewMap :: "size_env \<Rightarrow> nat \<Rightarrow> mapSlice \<Rightarrow> mapSlice" where
  "makeNewMap sz totalEntryMemory ms =
     (let memSize = int (maxTotalMemoryUsage ms) - int totalEntryMemory - sum_list (map (calculateRoughMapSize sz) (maxEntries ms));
          numMaxElements = wrap64 (calculateMinEntries sz (wrap64 memSize) - 1)
      in ms\<lparr>maxEntries := maxEntries ms @ [numMaxElements], maps := maps ms @ [[]]\<rparr>)"

text \<open>Nothing when every map is full.\<close>

fun put_maps :: "int list \<Rightarrow> entry_map list \<Rightarrow> outpoint \<Rightarrow> UtxoEntry option \<Rightarrow> entry_map list option" where
  "put_maps (maxNum # maxNums) (m # ms) op e =
     (if map_of m op \<noteq> None then Some (AList.update op e m # ms)
      else if int (length m) \<ge> maxNum then map_option ((#) m) (put_maps maxNums ms op e)
      else Some (AList.update op e m # ms))"
| "put_maps _ _ op e = None"

definition ms_put :: "size_env \<Rightarrow> outpoint \<Rightarrow> UtxoEntry option \<Rightarrow> nat \<Rightarrow> mapSlice \<Rightarrow> mapSlice" where
  "ms_put sz op e totalEntryMemory ms =
     (case put_maps (maxEntries ms) (maps ms) op e of
        Some maps' \<Rightarrow> ms\<lparr>maps := maps'\<rparr>
      | None \<Rightarrow>
          let ms' = makeNewMap sz totalEntryMemory ms
          in ms'\<lparr>maps := butlast (maps ms') @ [AList.update op e (last (maps ms'))]\<rparr>)"

definition ms_delete :: "outpoint \<Rightarrow> mapSlice \<Rightarrow> mapSlice" where
  "ms_delete op ms = ms\<lparr>maps := map (AList.delete op) (maps ms)\<rparr>"

definition deleteMaps :: "mapSlice \<Rightarrow> mapSlice outcome" where
  "deleteMaps ms =
     (case maxEntries ms of
        [] \<Rightarrow> Panic ''index out of range''
      | s # _ \<Rightarrow> bind (slice (maps ms) 0 1) (\<lambda>maps'. Ok (ms\<lparr>maxEntries := [s], maps := maps'\<rparr>)))"

section \<open>The cache\<close>

datatype FlushMode = FlushRequired | FlushPeriodic | FlushIfNeeded

record utxoCache =
  maxMemory :: nat
  cachedEntries :: mapSlice
  totalEntryMemory :: nat
  lastFlushHash :: bytes
  lastFlushTime :: int

definition isFresh :: "UtxoEntry \<Rightarrow> bool" where
  "isFresh e \<longleftrightarrow> packedFlags e AND tfFresh = tfFresh"

definition memoryUsage :: "UtxoEntry option \<Rightarrow> nat" where
  "memoryUsage e = (case e of None \<Rightarrow> 0 | Some entry \<Rightarrow> 40 + length (pkScript entry))"

definition newUtxoCache :: "size_env \<Rightarrow> nat \<Rightarrow> utxoCache" where
  "newUtxoCache sz maxTotal =
     \<lparr>maxMemory = maxTotal,
      cachedEntries = \<lparr>maps = [[]], maxEntries = [wrap64 (calculateMinEntries sz (wrap64 (int maxTotal)) - 1)], maxTotalMemoryUsage = maxTotal\<rparr>,
      totalEntryMemory = 0, lastFlushHash = replicate 32 0, lastFlushTime = 0\<rparr>"

definition totalMemoryUsage :: "size_env \<Rightarrow> utxoCache \<Rightarrow> nat" where
  "totalMemoryUsage sz s = nat ((ms_size sz (cachedEntries s) + int (totalEntryMemory s)) mod 2 ^ 64)"

definition cache_put :: "size_env \<Rightarrow> outpoint \<Rightarrow> UtxoEntry option \<Rightarrow> utxoCache \<Rightarrow> utxoCache" where
  "cache_put sz op e s =
     s\<lparr>cachedEntries := ms_put sz op e (totalEntryMemory s) (cachedEntries s),
       totalEntryMemory := (totalEntryMemory s + memoryUsage e) mod 2 ^ 64\<rparr>"

fun fetch_missing :: "key_env \<Rightarrow> chain_db \<Rightarrow> outpoint list \<Rightarrow> UtxoEntry option list outcome" where
  "fetch_missing env db [] = Ok []"
| "fetch_missing env db (op # ops) =
     bind (dbFetchUtxoEntry env db op) (\<lambda>e. bind (fetch_missing env db ops) (\<lambda>es. Ok (e # es)))"

text \<open>The entries of the outpoints in order: those the cache has, filled up with those of the database.\<close>

fun fill_in :: "mapSlice \<Rightarrow> outpoint list \<Rightarrow> UtxoEntry option list \<Rightarrow> UtxoEntry option list" where
  "fill_in ms [] dbEntries = []"
| "fill_in ms (op # ops) dbEntries =
     (case ms_get ms op of
        Some e \<Rightarrow> e # fill_in ms ops dbEntries
      | None \<Rightarrow> hd dbEntries # fill_in ms ops (tl dbEntries))"

definition fetchEntries :: "size_env \<Rightarrow> key_env \<Rightarrow> chain_db \<Rightarrow> outpoint list \<Rightarrow> utxoCache \<Rightarrow> (UtxoEntry option list \<times> utxoCache) outcome" where
  "fetchEntries sz env db outpoints s =
     (let missingOps = filter (\<lambda>op. ms_get (cachedEntries s) op = None) outpoints
      in bind (fetch_missing env db missingOps) (\<lambda>dbEntries.
         Ok (fill_in (cachedEntries s) outpoints dbEntries,
             foldl (\<lambda>s (op, e). cache_put sz op e s) s (zip missingOps dbEntries))))"

definition cache_addTxOut :: "size_env \<Rightarrow> outpoint \<Rightarrow> TxOut \<Rightarrow> bool \<Rightarrow> int \<Rightarrow> utxoCache \<Rightarrow> utxoCache" where
  "cache_addTxOut sz op txOut isCoinBase height s =
     (if IsUnspendable (PkScript txOut) then s
      else cache_put sz op (Some \<lparr>amount = out_Value txOut, pkScript = PkScript txOut, blockHeight = height,
             packedFlags = (tfFresh OR tfModified) OR (if isCoinBase then tfCoinBase else 0)\<rparr>) s)"

definition cache_addTxOuts :: "size_env \<Rightarrow> (bytes \<Rightarrow> bytes) \<Rightarrow> MsgTx \<Rightarrow> int \<Rightarrow> utxoCache \<Rightarrow> utxoCache" where
  "cache_addTxOuts sz sha t height s =
     foldl (\<lambda>s (txOutIdx, txOut). cache_addTxOut sz (TxHash sha t, txOutIdx) txOut (IsCoinBase t) height s) s (enumerate 0 (TxOuts t))"

text \<open>Changing in place an entry the cache has.\<close>

fun set_maps :: "entry_map list \<Rightarrow> outpoint \<Rightarrow> UtxoEntry option \<Rightarrow> entry_map list" where
  "set_maps [] op e = []"
| "set_maps (m # ms) op e = (if map_of m op \<noteq> None then AList.update op e m # ms else m # set_maps ms op e)"

definition ms_set :: "outpoint \<Rightarrow> UtxoEntry option \<Rightarrow> mapSlice \<Rightarrow> mapSlice" where
  "ms_set op e ms = ms\<lparr>maps := set_maps (maps ms) op e\<rparr>"

definition addTxIn ::
  "size_env \<Rightarrow> key_env \<Rightarrow> chain_db \<Rightarrow> TxIn \<Rightarrow> utxoCache \<Rightarrow> SpentTxOut list option \<Rightarrow> (utxoCache \<times> SpentTxOut list option) outcome" where
  "addTxIn sz env db ti s stxos =
     bind (fetchEntries sz env db [PreviousOutPoint ti] s) (\<lambda>(es, s1).
       if length es \<noteq> 1 then Err ''missing input''
       else case es ! 0 of
              None \<Rightarrow> Err ''missing input''
            | Some e \<Rightarrow>
                let op = PreviousOutPoint ti; stxos' = map_option (\<lambda>l. l @ [stxo_of e]) stxos; e' = Spend e
                in if isFresh e' then
                     Ok (s1\<lparr>cachedEntries := ms_delete op (cachedEntries s1),
                            totalEntryMemory := nat ((int (totalEntryMemory s1) - int (memoryUsage (Some e'))) mod 2 ^ 64)\<rparr>, stxos')
                   else Ok (s1\<lparr>cachedEntries := ms_set op (Some e') (cachedEntries s1)\<rparr>, stxos'))"

fun cache_add_ins ::
  "size_env \<Rightarrow> key_env \<Rightarrow> chain_db \<Rightarrow> TxIn list \<Rightarrow> utxoCache \<Rightarrow> SpentTxOut list option \<Rightarrow> (utxoCache \<times> SpentTxOut list option) outcome" where
  "cache_add_ins sz env db [] s stxos = Ok (s, stxos)"
| "cache_add_ins sz env db (ti # tis) s stxos =
     bind (addTxIn sz env db ti s stxos) (\<lambda>(s', stxos'). cache_add_ins sz env db tis s' stxos')"

definition addTxIns ::
  "size_env \<Rightarrow> key_env \<Rightarrow> chain_db \<Rightarrow> MsgTx \<Rightarrow> utxoCache \<Rightarrow> SpentTxOut list option \<Rightarrow> (utxoCache \<times> SpentTxOut list option) outcome" where
  "addTxIns sz env db t s stxos = (if IsCoinBase t then Ok (s, stxos) else cache_add_ins sz env db (TxIns t) s stxos)"

definition cache_connectTransaction ::
  "size_env \<Rightarrow> key_env \<Rightarrow> (bytes \<Rightarrow> bytes) \<Rightarrow> chain_db \<Rightarrow> MsgTx \<Rightarrow> int \<Rightarrow> utxoCache \<Rightarrow> SpentTxOut list option \<Rightarrow>
     (utxoCache \<times> SpentTxOut list option) outcome" where
  "cache_connectTransaction sz env sha db t height s stxos =
     bind (addTxIns sz env db t s stxos) (\<lambda>(s', stxos'). Ok (cache_addTxOuts sz sha t height s', stxos'))"

fun cache_connect_txs ::
  "size_env \<Rightarrow> key_env \<Rightarrow> (bytes \<Rightarrow> bytes) \<Rightarrow> chain_db \<Rightarrow> int \<Rightarrow> MsgTx list \<Rightarrow> utxoCache \<Rightarrow> SpentTxOut list option \<Rightarrow>
     (utxoCache \<times> SpentTxOut list option) outcome" where
  "cache_connect_txs sz env sha db height [] s stxos = Ok (s, stxos)"
| "cache_connect_txs sz env sha db height (t # ts) s stxos =
     bind (cache_connectTransaction sz env sha db t height s stxos) (\<lambda>(s', stxos').
       cache_connect_txs sz env sha db height ts s' stxos')"

definition cache_connectTransactions ::
  "size_env \<Rightarrow> key_env \<Rightarrow> (bytes \<Rightarrow> bytes) \<Rightarrow> chain_db \<Rightarrow> Block \<Rightarrow> utxoCache \<Rightarrow> SpentTxOut list option \<Rightarrow>
     (utxoCache \<times> SpentTxOut list option) outcome" where
  "cache_connectTransactions sz env sha db block s stxos = cache_connect_txs sz env sha db (blk_Height block) (block_txs block) s stxos"

section \<open>Writing the cache\<close>

definition write_entry :: "key_env \<Rightarrow> outpoint \<Rightarrow> UtxoEntry option \<Rightarrow> chain_db \<Rightarrow> chain_db outcome" where
  "write_entry env op e db =
     (case e of
        None \<Rightarrow> Ok (dbDeleteUtxoEntry op db)
      | Some entry \<Rightarrow>
          if IsSpent entry then Ok (dbDeleteUtxoEntry op db)
          else if \<not> isModified entry then Ok db
          else dbPutUtxoEntry env op e db)"

fun write_entries :: "key_env \<Rightarrow> entry_map \<Rightarrow> chain_db \<Rightarrow> chain_db outcome" where
  "write_entries env [] db = Ok db"
| "write_entries env ((op, e) # es) db = bind (write_entry env op e db) (write_entries env es)"

text \<open>Every entry leaves its map as it is written.\<close>

definition writeCache :: "key_env \<Rightarrow> bytes \<Rightarrow> int \<Rightarrow> utxoCache \<Rightarrow> chain_db \<Rightarrow> (utxoCache \<times> chain_db) outcome" where
  "writeCache env best now s db =
     bind (write_entries env (concat (maps (cachedEntries s))) db) (\<lambda>db1.
     bind (deleteMaps ((cachedEntries s)\<lparr>maps := map (\<lambda>_. []) (maps (cachedEntries s))\<rparr>)) (\<lambda>ms.
       Ok (s\<lparr>cachedEntries := ms, totalEntryMemory := 0, lastFlushHash := best, lastFlushTime := now\<rparr>,
           dbPutUtxoStateConsistency best db1)))"

abbreviation (input) utxoFlushPeriodicInterval :: int where "utxoFlushPeriodicInterval \<equiv> 300000000000"

definition flush :: "size_env \<Rightarrow> key_env \<Rightarrow> FlushMode \<Rightarrow> bytes \<Rightarrow> int \<Rightarrow> utxoCache \<Rightarrow> chain_db \<Rightarrow> (utxoCache \<times> chain_db) outcome" where
  "flush sz env mode best now s db =
     (if mode = FlushIfNeeded \<and> best = lastFlushHash s then Ok (s, db)
      else
        let threshold = (case mode of FlushRequired \<Rightarrow> 0 | FlushIfNeeded \<Rightarrow> maxMemory s
              | FlushPeriodic \<Rightarrow> if now - lastFlushTime s > utxoFlushPeriodicInterval then 0 else maxMemory s)
        in if totalMemoryUsage sz s \<ge> threshold then writeCache env best now s db else Ok (s, db))"

section \<open>What a slice of maps promises\<close>

text \<open>The interface of a table that is read, written and deleted from by key.\<close>

locale table =
  fixes look :: "'s \<Rightarrow> 'k \<Rightarrow> 'v option"
    and ok :: "'s \<Rightarrow> bool"
    and put :: "'k \<Rightarrow> 'v \<Rightarrow> 's \<Rightarrow> 's"
    and del :: "'k \<Rightarrow> 's \<Rightarrow> 's"
  assumes look_put: "ok s \<Longrightarrow> look (put k v s) = (look s)(k \<mapsto> v)"
    and ok_put: "ok s \<Longrightarrow> ok (put k v s)"
    and look_del: "ok s \<Longrightarrow> look (del k s) = (look s)(k := None)"
    and ok_del: "ok s \<Longrightarrow> ok (del k s)"
begin

lemma ok_fold_put: "ok s \<Longrightarrow> ok (foldl (\<lambda>s (k, v). put k v s) s kvs)"
  by (induction kvs arbitrary: s) (auto simp: ok_put)

lemma look_fold_put: "ok s \<Longrightarrow> look (foldl (\<lambda>s (k, v). put k v s) s kvs) = look s ++ map_of (rev kvs)"
proof (induction kvs arbitrary: s)
  case (Cons kv kvs)
  then show ?case
    by (cases kv) (auto simp: ok_put look_put fun_eq_iff map_add_def split: option.splits)
qed simp

end

definition ms_wf :: "mapSlice \<Rightarrow> bool" where
  "ms_wf ms \<longleftrightarrow> length (maps ms) = length (maxEntries ms) \<and> maps ms \<noteq> [] \<and> list_all (\<lambda>m. distinct (map fst m)) (maps ms)"

lemma get_put_maps: "put_maps mxs ms op e = Some ms' \<Longrightarrow> get_maps ms' = (get_maps ms)(op \<mapsto> e)"
proof (induction mxs ms op e arbitrary: ms' rule: put_maps.induct)
  case (1 mx mxs m ms op e)
  then show ?case
    by (auto simp: fun_eq_iff update_conv' split: if_splits option.splits)
qed simp_all

lemma put_maps_None: "put_maps mxs ms op e = None \<Longrightarrow> length ms = length mxs \<Longrightarrow> get_maps ms op = None"
  by (induction mxs ms op e rule: put_maps.induct) (auto split: if_splits option.splits)

lemma put_maps_wf:
  "put_maps mxs ms op e = Some ms' \<Longrightarrow> list_all (\<lambda>m. distinct (map fst m)) ms \<Longrightarrow>
     length ms' = length ms \<and> list_all (\<lambda>m. distinct (map fst m)) ms'"
proof (induction mxs ms op e arbitrary: ms' rule: put_maps.induct)
  case (1 mx mxs m ms op e)
  then show ?case
    by (cases "map_of m op") (auto simp: distinct_update simp del: map_of_eq_None_iff split: if_splits)
qed simp_all

lemma get_maps_append: "get_maps (ms @ [m]) op = (case get_maps ms op of Some e \<Rightarrow> Some e | None \<Rightarrow> map_of m op)"
  by (induction ms) (auto split: option.splits)

lemma ms_put_get:
  assumes "ms_wf ms"
  shows "ms_get (ms_put sz op e n ms) = (ms_get ms)(op \<mapsto> e)"
proof (cases "put_maps (maxEntries ms) (maps ms) op e")
  case None
  then show ?thesis
    using put_maps_None [OF None] assms
    by (auto simp: ms_get_def ms_put_def makeNewMap_def ms_wf_def get_maps_append Let_def fun_eq_iff split: option.splits)
next
  case (Some ms')
  then show ?thesis
    by (simp add: ms_get_def [abs_def] ms_put_def get_put_maps)
qed

lemma ms_put_wf:
  assumes "ms_wf ms"
  shows "ms_wf (ms_put sz op e n ms)"
proof (cases "put_maps (maxEntries ms) (maps ms) op e")
  case None
  then show ?thesis
    using assms by (simp add: ms_put_def makeNewMap_def ms_wf_def Let_def)
next
  case (Some ms')
  then show ?thesis
    using assms put_maps_wf [OF Some] by (auto simp: ms_put_def ms_wf_def)
qed

lemma get_delete_maps: "get_maps (map (AList.delete op) ms) = (get_maps ms)(op := None)"
  by (induction ms) (auto simp: fun_eq_iff delete_conv' split: option.splits)

lemma ms_delete_get: "ms_get (ms_delete op ms) = (ms_get ms)(op := None)"
  by (simp add: ms_get_def [abs_def] ms_delete_def get_delete_maps)

lemma ms_delete_wf: "ms_wf ms \<Longrightarrow> ms_wf (ms_delete op ms)"
  by (auto simp: ms_wf_def ms_delete_def list_all_iff distinct_delete)

lemma get_set_maps: "get_maps ms op \<noteq> None \<Longrightarrow> get_maps (set_maps ms op e) = (get_maps ms)(op \<mapsto> e)"
  by (induction ms) (auto simp: fun_eq_iff update_conv' split: option.splits if_splits)

lemma set_maps_wf:
  "list_all (\<lambda>m. distinct (map fst m)) ms \<Longrightarrow> list_all (\<lambda>m. distinct (map fst m)) (set_maps ms op e) \<and> length (set_maps ms op e) = length ms"
  by (induction ms) (auto simp: distinct_update)

lemma ms_set_get: "ms_get ms op \<noteq> None \<Longrightarrow> ms_get (ms_set op e ms) = (ms_get ms)(op \<mapsto> e)"
  by (simp add: ms_get_def [abs_def] ms_set_def get_set_maps)

lemma ms_set_wf: "ms_wf ms \<Longrightarrow> ms_wf (ms_set op e ms)"
  using set_maps_wf [of "maps ms" op e] by (auto simp: ms_wf_def ms_set_def)

interpretation map_slice: table ms_get ms_wf "\<lambda>op e. ms_put sz op e n" ms_delete
  by unfold_locales (simp_all add: ms_put_get ms_put_wf ms_delete_get ms_delete_wf)

text \<open>The same for the cache, with its count of memory.\<close>

abbreviation look_entry :: "utxoCache \<Rightarrow> outpoint \<Rightarrow> UtxoEntry option option" where
  "look_entry s \<equiv> ms_get (cachedEntries s)"

abbreviation cache_wf :: "utxoCache \<Rightarrow> bool" where
  "cache_wf s \<equiv> ms_wf (cachedEntries s)"

interpretation cache_table: table look_entry cache_wf "cache_put sz" "\<lambda>op s. s\<lparr>cachedEntries := ms_delete op (cachedEntries s)\<rparr>"
  by unfold_locales (simp_all add: cache_put_def ms_put_get ms_put_wf ms_delete_get ms_delete_wf)

section \<open>What the cache means\<close>

text \<open>The coins the cache and the database behind it hold together.\<close>

definition cache_coins :: "key_env \<Rightarrow> chain_db \<Rightarrow> utxoCache \<Rightarrow> utxo_set" where
  "cache_coins env db s op = (case look_entry s op of Some e \<Rightarrow> live e | None \<Rightarrow> db_coins env db op)"

text \<open>A fresh entry is not in the database.\<close>

definition entry_cached :: "key_env \<Rightarrow> chain_db \<Rightarrow> outpoint \<Rightarrow> UtxoEntry option \<Rightarrow> bool" where
  "entry_cached env db op e \<longleftrightarrow> entry_synced env db op e \<and>
     (case e of None \<Rightarrow> True | Some entry \<Rightarrow> isFresh entry \<longrightarrow> db_coins env db op = None)"

definition cache_ok :: "key_env \<Rightarrow> chain_db \<Rightarrow> utxoCache \<Rightarrow> bool" where
  "cache_ok env db s \<longleftrightarrow> cache_wf s \<and> (\<forall>op e. look_entry s op = Some e \<longrightarrow> entry_cached env db op e)"

definition db_ok :: "key_env \<Rightarrow> chain_db \<Rightarrow> bool" where
  "db_ok env db \<longleftrightarrow> (\<forall>op e. dbFetchUtxoEntry env db op = Ok (Some e) \<longrightarrow> stxo_ok (stxo_of e))"

text \<open>What the outputs a transaction creates, and the outpoints it spends, have to be for storing.\<close>

definition tx_storable :: "key_env \<Rightarrow> chain_db \<Rightarrow> (bytes \<Rightarrow> bytes) \<Rightarrow> int \<Rightarrow> MsgTx \<Rightarrow> bool" where
  "tx_storable env db sha height t \<longleftrightarrow> (\<forall>op \<in> set (inputs t). outpoint_ok op) \<and>
     (\<forall>op c. outputs sha t height op = Some c \<longrightarrow> outpoint_ok op \<and> stxo_ok c \<and> db_coins env db op = None)"

lemma cache_put_ok:
  assumes "cache_ok env db s" "entry_cached env db op e"
  shows "cache_ok env db (cache_put sz op e s)" "cache_coins env db (cache_put sz op e s) = (cache_coins env db s)(op := live e)"
proof -
  have wf: "cache_wf s"
    using assms(1) by (simp add: cache_ok_def)
  then show "cache_ok env db (cache_put sz op e s)"
    using assms unfolding cache_ok_def cache_table.look_put [OF wf] by (simp add: cache_table.ok_put del: split_paired_All)
  show "cache_coins env db (cache_put sz op e s) = (cache_coins env db s)(op := live e)"
    unfolding cache_coins_def [abs_def] cache_table.look_put [OF wf] by auto
qed

text \<open>An entry read from the database carries no flag but the coinbase one.\<close>

lemma fetched_flags:
  assumes "dbFetchUtxoEntry env db op = Ok (Some e)"
  shows "packedFlags e = 0 \<or> packedFlags e = 1"
proof -
  obtain b where "deserializeUtxoEntry env b = Ok e"
    using assms by (auto simp: dbFetchUtxoEntry_def bind_Ok_iff corrupt_def split: option.splits if_splits outcome.splits)
  then show ?thesis
    by (auto simp: deserializeUtxoEntry_def Let_def bind_Ok_iff split: prod.splits if_splits)
qed

lemma fetched_cached:
  assumes "dbFetchUtxoEntry env db op = Ok e" "db_ok env db" "outpoint_ok op"
  shows "entry_cached env db op e" "live e = db_coins env db op"
proof -
  show live: "live e = db_coins env db op"
    by (simp add: db_coins_def assms(1))
  show "entry_cached env db op e"
  proof (cases e)
    case None
    then show ?thesis
      using live assms(3) by (simp add: entry_cached_def entry_synced_def)
  next
    case (Some entry)
    then have "packedFlags entry = 0 \<or> packedFlags entry = 1"
      using assms(1) fetched_flags by blast
    then show ?thesis
      using Some live assms by (auto simp: entry_cached_def entry_synced_def isFresh_def db_ok_def simp del: split_paired_All)
  qed
qed

lemma fetch_one:
  assumes "fetchEntries sz env db [op] s = Ok (es, s1)" "cache_ok env db s" "db_ok env db" "outpoint_ok op"
  shows "\<exists>e. es = [e] \<and> look_entry s1 op = Some e \<and> entry_cached env db op e \<and> live e = cache_coins env db s op \<and>
    cache_ok env db s1 \<and> cache_coins env db s1 = cache_coins env db s"
proof (cases "look_entry s op")
  case None
  then obtain e where e: "dbFetchUtxoEntry env db op = Ok e" "es = [e]" "s1 = cache_put sz op e s"
    using assms(1) by (auto simp: fetchEntries_def bind_Ok_iff)
  have coins: "cache_coins env db s op = db_coins env db op"
    using None by (simp add: cache_coins_def)
  note f = fetched_cached [OF e(1) assms(3,4)]
  have "look_entry s1 = (look_entry s)(op \<mapsto> e)"
    using assms(2) unfolding e(3) cache_ok_def by (simp add: cache_table.look_put)
  moreover have "(cache_coins env db s)(op := live e) = cache_coins env db s"
    using f(2) coins by (simp add: fun_upd_idem_iff)
  ultimately show ?thesis
    using cache_put_ok [OF assms(2) f(1), of sz] f e coins by simp
next
  case (Some e)
  then have "es = [e]" "s1 = s"
    using assms(1) by (auto simp: fetchEntries_def)
  then show ?thesis
    using Some assms(2) by (auto simp: cache_ok_def cache_coins_def simp del: split_paired_All)
qed

lemma Spend_cached: "entry_cached env db op (Some e) \<Longrightarrow> entry_cached env db op (Some (Spend e))"
proof -
  have "(f OR (2 OR 4)) AND 8 = f AND 8" "(f OR (2 OR 4)) AND 4 = (4 :: byte)" for f :: byte
    by (simp_all add: bit.conj_disj_distrib2 word_ao_absorbs)
  then have sp: "isFresh (Spend e) = isFresh e" "Spend e \<noteq> e \<Longrightarrow> isModified (Spend e)"
    by (auto simp: isFresh_def Spend_def isModified_def)
  assume e: "entry_cached env db op (Some e)"
  show ?thesis
  proof (cases "Spend e = e")
    case True
    with e show ?thesis
      by (simp only:)
  next
    case False
    with e sp show ?thesis
      by (auto simp: entry_cached_def entry_synced_def)
  qed
qed

text \<open>Spending a coin takes it from the set and records it.\<close>

lemma addTxIn_coins:
  assumes "addTxIn sz env db ti s stxos = Ok (s', stxos')" "cache_ok env db s" "db_ok env db" "outpoint_ok (PreviousOutPoint ti)"
  shows "cache_ok env db s' \<and> cache_coins env db s' = (cache_coins env db s)(PreviousOutPoint ti := None) \<and>
    (\<forall>c. cache_coins env db s (PreviousOutPoint ti) = Some c \<longrightarrow> stxos' = map_option (\<lambda>l. l @ [c]) stxos)"
proof -
  let ?op = "PreviousOutPoint ti"
  obtain es s1 where es: "fetchEntries sz env db [?op] s = Ok (es, s1)"
    using assms(1) by (auto simp: addTxIn_def bind_Ok_iff)
  from fetch_one [OF es assms(2-4)] obtain oe where oe: "es = [oe]" "look_entry s1 ?op = Some oe" "entry_cached env db ?op oe"
      "live oe = cache_coins env db s ?op" "cache_ok env db s1" "cache_coins env db s1 = cache_coins env db s"
    by blast
  obtain e where e: "oe = Some e"
    using assms(1) es oe(1) by (cases oe) (auto simp: addTxIn_def)
  have stxo: "stxos' = map_option (\<lambda>l. l @ [stxo_of e]) stxos"
    using assms(1) es oe(1) e by (auto simp: addTxIn_def Let_def split: if_splits)
  have "\<forall>c. cache_coins env db s ?op = Some c \<longrightarrow> stxos' = map_option (\<lambda>l. l @ [c]) stxos"
    using stxo oe(4) e by (auto simp: live_def split: if_splits)
  moreover have "cache_ok env db s' \<and> cache_coins env db s' = (cache_coins env db s1)(?op := None)"
  proof (cases "isFresh (Spend e)")
    case True
    then obtain n where s': "s' = s1\<lparr>cachedEntries := ms_delete ?op (cachedEntries s1), totalEntryMemory := n\<rparr>"
      using assms(1) es oe(1) e by (auto simp: addTxIn_def Let_def)
    have "db_coins env db ?op = None"
      using Spend_cached [of env db ?op e] True oe(3) e by (simp add: entry_cached_def)
    then show ?thesis
      using oe(5) by (auto simp: s' cache_ok_def cache_coins_def fun_eq_iff ms_delete_get ms_delete_wf simp del: split_paired_All)
  next
    case False
    then have s': "s' = s1\<lparr>cachedEntries := ms_set ?op (Some (Spend e)) (cachedEntries s1)\<rparr>"
      using assms(1) es oe(1) e by (auto simp: addTxIn_def Let_def)
    have "look_entry s' = (look_entry s1)(?op \<mapsto> Some (Spend e))"
      using oe(2) by (simp add: s' ms_set_get)
    then show ?thesis
      using oe(3,5) e Spend_cached
      by (auto simp: s' cache_ok_def cache_coins_def fun_eq_iff ms_set_wf simp del: split_paired_All)
  qed
  ultimately show ?thesis
    using oe(6) by simp
qed

lemma add_ins_coins:
  assumes "cache_add_ins sz env db tis s stxos = Ok (s', stxos')" "cache_ok env db s" "db_ok env db"
    "\<forall>op \<in> set (map PreviousOutPoint tis). outpoint_ok op"
  shows "cache_ok env db s' \<and> cache_coins env db s' = cache_coins env db s |` (- set (map PreviousOutPoint tis))"
  using assms(1,2,4)
proof (induction tis arbitrary: s stxos)
  case (Cons ti tis)
  obtain s1 stxos1 where s1: "addTxIn sz env db ti s stxos = Ok (s1, stxos1)" "cache_add_ins sz env db tis s1 stxos1 = Ok (s', stxos')"
    using Cons.prems(1) by (auto simp: bind_Ok_iff)
  have "cache_ok env db s1" "cache_coins env db s1 = (cache_coins env db s)(PreviousOutPoint ti := None)"
    using addTxIn_coins [OF s1(1) Cons.prems(2) assms(3)] Cons.prems(3) by simp_all
  then show ?case
    using Cons.IH [OF s1(2)] Cons.prems(3) by (auto simp: restrict_map_def fun_eq_iff simp del: split_paired_All)
qed (simp add: restrict_map_def)

lemma addTxOut_coins:
  assumes "cache_ok env db s" "cache_coins env db s = unspent base v"
    "\<not> IsUnspendable (PkScript out) \<Longrightarrow> outpoint_ok op \<and> db_coins env db op = None \<and>
       stxo_ok \<lparr>st_Amount = out_Value out, st_PkScript = PkScript out, st_Height = height, st_IsCoinBase = c\<rparr>"
  shows "cache_ok env db (cache_addTxOut sz op out c height s) \<and>
    cache_coins env db (cache_addTxOut sz op out c height s) = unspent base (addTxOut op out c height v)"
proof (cases "IsUnspendable (PkScript out)")
  case True
  then show ?thesis
    using assms(1,2) by (simp add: cache_addTxOut_def addTxOut_def)
next
  case False
  define e where "e = \<lparr>amount = out_Value out, pkScript = PkScript out, blockHeight = height,
      packedFlags = (tfFresh OR tfModified) OR (if c then tfCoinBase else 0)\<rparr>"
  have "isModified e" "stxo_of e = \<lparr>st_Amount = out_Value out, st_PkScript = PkScript out, st_Height = height, st_IsCoinBase = c\<rparr>"
    by (cases c; simp add: e_def isModified_def stxo_of_def entry_IsCoinBase_def)+
  then have "entry_cached env db op (Some e)"
    using assms(3) [OF False] by (simp add: entry_cached_def entry_synced_def)
  from cache_put_ok [OF assms(1) this, of sz] show ?thesis
    using False assms(2) by (simp add: cache_addTxOut_def addTxOut_def e_def)
qed

lemma addTxOuts_coins:
  assumes "cache_ok env db s" "tx_storable env db sha height t"
  shows "cache_ok env db (cache_addTxOuts sz sha t height s) \<and>
    cache_coins env db (cache_addTxOuts sz sha t height s) = cache_coins env db s ++ outputs sha t height"
proof -
  define base where "base = cache_coins env db s"
  have "cache_ok env db (foldl (\<lambda>s (i, out). cache_addTxOut sz (TxHash sha t, i) out (IsCoinBase t) height s) s xs) \<and>
      cache_coins env db (foldl (\<lambda>s (i, out). cache_addTxOut sz (TxHash sha t, i) out (IsCoinBase t) height s) s xs) =
      unspent base (foldl (\<lambda>v (i, out). addTxOut (TxHash sha t, i) out (IsCoinBase t) height v) v xs)"
    if "set xs \<subseteq> set (enumerate 0 (TxOuts t))" "cache_ok env db s" "cache_coins env db s = unspent base v" for s v xs
    using that
  proof (induction xs arbitrary: s v)
    case (Cons x xs)
    obtain i out where x: "x = (i, out)"
      by (cases x)
    then have "i < length (TxOuts t)" "out = TxOuts t ! i"
      using Cons.prems(1) by (auto simp: in_set_enumerate_eq)
    then have "\<not> IsUnspendable (PkScript out) \<Longrightarrow> outputs sha t height (TxHash sha t, i) =
        Some \<lparr>st_Amount = out_Value out, st_PkScript = PkScript out, st_Height = height, st_IsCoinBase = IsCoinBase t\<rparr>"
      by (simp add: outputs_def)
    then have "\<not> IsUnspendable (PkScript out) \<Longrightarrow> outpoint_ok (TxHash sha t, i) \<and> db_coins env db (TxHash sha t, i) = None \<and>
        stxo_ok \<lparr>st_Amount = out_Value out, st_PkScript = PkScript out, st_Height = height, st_IsCoinBase = IsCoinBase t\<rparr>"
      using assms(2) unfolding tx_storable_def by blast
    from addTxOut_coins [OF Cons.prems(2,3) this] show ?case
      using Cons.IH Cons.prems(1) x by simp
  qed simp
  note loop = this [of "enumerate 0 (TxOuts t)" s NewUtxoViewpoint]
  have "unspent base NewUtxoViewpoint = base"
    by (rule ext) (simp add: unspent_def NewUtxoViewpoint_def)
  with loop show ?thesis
    using assms(1) unspent_AddTxOuts [of base sha t height NewUtxoViewpoint]
    by (simp add: cache_addTxOuts_def AddTxOuts_def base_def)
qed

lemma connect_coins:
  assumes "cache_connect_txs sz env sha db height ts s stxos = Ok (s', stxos')" "cache_ok env db s" "db_ok env db"
    "\<forall>t \<in> set ts. tx_storable env db sha height t"
  shows "cache_ok env db s' \<and> cache_coins env db s' = foldl (apply_tx sha height) (cache_coins env db s) ts"
  using assms(1,2,4)
proof (induction ts arbitrary: s stxos)
  case (Cons t ts)
  obtain s1 stxos1 where s1: "addTxIns sz env db t s stxos = Ok (s1, stxos1)"
      "cache_connect_txs sz env sha db height ts (cache_addTxOuts sz sha t height s1) stxos1 = Ok (s', stxos')"
    using Cons.prems(1) by (auto simp: cache_connectTransaction_def bind_Ok_iff)
  have t: "tx_storable env db sha height t"
    using Cons.prems(3) by simp
  have "cache_ok env db s1 \<and> cache_coins env db s1 = (if IsCoinBase t then cache_coins env db s else cache_coins env db s |` (- set (inputs t)))"
    using s1(1) Cons.prems(2) t add_ins_coins [OF _ Cons.prems(2) assms(3), of sz "TxIns t" stxos s1 stxos1]
    by (auto simp: addTxIns_def tx_storable_def inputs_def split: if_splits)
  then have "cache_ok env db (cache_addTxOuts sz sha t height s1)"
      "cache_coins env db (cache_addTxOuts sz sha t height s1) = apply_tx sha height (cache_coins env db s) t"
    using addTxOuts_coins [OF _ t, of s1 sz] by (simp_all add: apply_tx_def)
  then show ?case
    using Cons.IH [OF s1(2)] Cons.prems(3) by simp
qed simp

section \<open>Writing the cache to the database\<close>

lemma get_maps_concat: "get_maps ms op = map_of (concat ms) op"
  by (induction ms) (auto simp: map_add_def split: option.splits)

lemma write_entry_coins:
  assumes "keys_ok env" "entry_synced env db op e"
  shows "\<exists>db'. write_entry env op e db = Ok db' \<and> (\<forall>x. outpoint_ok x \<longrightarrow> db_coins env db' x = ((db_coins env db)(op := live e)) x)"
proof -
  have op: "outpoint_ok op"
    using assms(2) by (simp add: entry_synced_def)
  consider "e = None" | entry where "e = Some entry" "IsSpent entry" | entry where "e = Some entry" "\<not> IsSpent entry"
    by (cases e) auto
  then show ?thesis
  proof cases
    case 1
    then show ?thesis
      using op db_coins_delete [of op _ env db] by (simp add: write_entry_def)
  next
    case 2
    then show ?thesis
      using op db_coins_delete [of op _ env db] by (simp add: write_entry_def live_def)
  next
    case 3
    then show ?thesis
      using put_view_entry_coins [OF assms] by (auto simp: write_entry_def put_view_entry_def)
  qed
qed

interpretation cache_writer: entry_writer write_entry write_entries
  by unfold_locales (use write_entry_coins in simp_all)

text \<open>When no entry is in two maps, what is written is what the cache means.\<close>

lemma writeCache_coins:
  assumes "keys_ok env" "cache_ok env db s" "distinct (map fst (concat (maps (cachedEntries s))))"
  shows "\<exists>s' db'. writeCache env best now s db = Ok (s', db') \<and> maps (cachedEntries s') = [[]] \<and>
    maxEntries (cachedEntries s') = [hd (maxEntries (cachedEntries s))] \<and>
    (\<forall>x. outpoint_ok x \<longrightarrow> db_coins env db' x = cache_coins env db s x)"
proof -
  define m where "m = concat (maps (cachedEntries s))"
  obtain x xs mx mxs where m: "maps (cachedEntries s) = x # xs" "maxEntries (cachedEntries s) = mx # mxs"
    using assms(2) unfolding cache_ok_def ms_wf_def by (metis length_0_conv neq_Nil_conv)
  have get: "look_entry s x = map_of m x" for x
    by (simp add: ms_get_def get_maps_concat m_def)
  have dist: "distinct (map fst m)"
    using assms(3) by (simp add: m_def)
  have "entry_synced env db op e" if "(op, e) \<in> set m" for op e
  proof -
    have "look_entry s op = Some e"
      using that dist by (simp add: get)
    then show ?thesis
      using assms(2) unfolding cache_ok_def entry_cached_def by blast
  qed
  then have "\<forall>(op, e) \<in> set m. entry_synced env db op e"
    by blast
  from cache_writer.loop_coins [OF assms(1) dist this] obtain db1 where db1: "write_entries env m db = Ok db1"
      "\<forall>x. outpoint_ok x \<longrightarrow> db_coins env db1 x = (case map_of m x of Some e \<Rightarrow> live e | None \<Rightarrow> db_coins env db x)"
    by blast
  have same: "db_coins env (dbPutUtxoStateConsistency best db1) x = db_coins env db1 x" for x
    by (simp add: db_coins_def dbFetchUtxoEntry_def dbPutUtxoStateConsistency_def)
  have "\<exists>s'. writeCache env best now s db = Ok (s', dbPutUtxoStateConsistency best db1) \<and> maps (cachedEntries s') = [[]] \<and>
      maxEntries (cachedEntries s') = [hd (maxEntries (cachedEntries s))]"
    using db1(1) m unfolding m_def writeCache_def by (simp add: deleteMaps_def slice_def)
  then show ?thesis
    using db1(2) same by (fastforce simp: cache_coins_def get simp del: split_paired_All)
qed

lemma one_map_distinct: "cache_wf s \<Longrightarrow> length (maps (cachedEntries s)) = 1 \<Longrightarrow> distinct (map fst (concat (maps (cachedEntries s))))"
  by (cases "maps (cachedEntries s)") (auto simp: ms_wf_def)

text \<open>
  C12: the cache in front of the database refines the set of unspent outputs.  Connecting a block
  through the cache changes the coins that cache and database hold together the way the block's
  transactions change the abstract set; and as long as the cache has kept to one map, a required
  flush succeeds, empties the cache and leaves exactly those coins in the database.
\<close>

theorem cache_refines_coins:
  assumes "keys_ok env" "db_ok env db" "cache_ok env db s"
    and "\<forall>t \<in> set (block_txs block). tx_storable env db sha (blk_Height block) t"
    and "cache_connectTransactions sz env sha db block s stxos = Ok (s', stxos')"
  shows "cache_coins env db s' = foldl (apply_tx sha (blk_Height block)) (cache_coins env db s) (block_txs block) \<and>
    (length (maps (cachedEntries s')) = 1 \<longrightarrow>
      (\<exists>s2 db2. flush sz env FlushRequired best now s' db = Ok (s2, db2) \<and> maps (cachedEntries s2) = [[]] \<and>
        (\<forall>x. outpoint_ok x \<longrightarrow> db_coins env db2 x =
           foldl (apply_tx sha (blk_Height block)) (cache_coins env db s) (block_txs block) x)))"
proof -
  have c: "cache_ok env db s'" "cache_coins env db s' = foldl (apply_tx sha (blk_Height block)) (cache_coins env db s) (block_txs block)"
    using connect_coins assms(2-5) unfolding cache_connectTransactions_def by blast+
  then show ?thesis
    using writeCache_coins [OF assms(1) c(1), of best now] one_map_distinct [of s'] c(1) unfolding cache_ok_def
    by (auto simp: flush_def simp del: split_paired_All)
qed

text \<open>
  A cache that holds a coin the database has not seen, a block that spends it, and a hash of 32 bytes.
\<close>

definition sha32 :: "bytes \<Rightarrow> bytes" where
  "sha32 x = take 32 (x @ replicate 32 0)"

definition demo_sizes :: "int \<Rightarrow> size_env" where
  "demo_sizes n = \<lparr>calculateRoughMapSize = (\<lambda>_. 0), calculateMinEntries = (\<lambda>_. n)\<rparr>"

definition demo_cache :: utxoCache where
  "demo_cache = cache_addTxOut (demo_sizes 100) (replicate 32 7, 0) \<lparr>out_Value = 5, PkScript = [0x51]\<rparr> False 1 (newUtxoCache (demo_sizes 100) 1000)"

lemma length_sha32: "length (sha32 x) = 32"
  by (simp add: sha32_def)

lemma empty_db_coins: "db_coins env empty_db = Map.empty" "db_ok env empty_db" "dbFetchUtxoEntry env empty_db op = Ok None"
  by (simp_all add: db_coins_def [abs_def] db_ok_def dbFetchUtxoEntry_def empty_db_def)

lemma newUtxoCache_ok: "cache_ok env db (newUtxoCache sz n)"
  by (simp add: cache_ok_def newUtxoCache_def ms_wf_def ms_get_def)

lemma coin_tx_storable:
  assumes "outpoint_ok op" "0 \<le> v" "v \<le> 2 ^ 60" "0 \<le> height" "height < 2 ^ 31"
  shows "tx_storable env empty_db sha32 height (coin_tx op v)"
  using assms length_sha32
  by (auto simp: tx_storable_def outputs_def outpoint_ok_def stxo_ok_def empty_db_coins TxHash_def split: if_splits)

lemma coin_hash32: "length (fst op) = 32 \<Longrightarrow> TxHash sha32 (coin_tx op v) = [1, 0, 0, 0, 1] @ take 27 (fst op)"
proof -
  obtain r where "TxHash id (coin_tx op v) = [1, 0, 0, 0, 1] @ fst op @ r"
    using coin_hash by blast
  then show "length (fst op) = 32 \<Longrightarrow> ?thesis"
    by (simp add: TxHash_def sha32_def)
qed

lemma sample_hashes32:
  "TxHash sha32 (coin_tx (replicate 32 0, 4294967295) 50) = [1, 0, 0, 0, 1] @ replicate 27 0"
  "TxHash sha32 (coin_tx (replicate 32 7, 0) 4) = [1, 0, 0, 0, 1] @ replicate 27 7"
  "TxHash sha32 (coin_tx ([1, 0, 0, 0, 1] @ replicate 27 0, 0) 49) = [1, 0, 0, 0, 1, 1, 0, 0, 0, 1] @ replicate 22 0"
  by (simp_all add: coin_hash32)

lemmas run_cache = cache_connectTransactions_def block_txs_def cache_connectTransaction_def addTxIns_def null_outpoints cache_addTxOuts_def
  cache_addTxOut_def spendable_true cache_put_def ms_put_def newUtxoCache_def demo_sizes_def addTxIn_def fetchEntries_def ms_get_def
  sample_hashes32 Let_def isFresh_def Spend_def IsSpent_def ms_delete_def ms_set_def makeNewMap_def empty_db_coins

lemma demo_connects:
  "\<exists>s' stxos'. cache_connectTransactions (demo_sizes 100) demo_keys sha32 empty_db sample_block demo_cache (Some []) = Ok (s', stxos') \<and>
     length (maps (cachedEntries s')) = 1"
  by (simp add: run_cache sample_block_def demo_cache_def)

lemma demo_cache_ok: "cache_ok demo_keys empty_db demo_cache"
proof -
  have "unspent Map.empty NewUtxoViewpoint = Map.empty"
    by (rule ext) (simp add: unspent_def NewUtxoViewpoint_def)
  then have "cache_coins demo_keys empty_db (newUtxoCache (demo_sizes 100) 1000) = unspent Map.empty NewUtxoViewpoint"
    by (simp add: cache_coins_def [abs_def] newUtxoCache_def ms_get_def empty_db_coins)
  from addTxOut_coins [OF newUtxoCache_ok this] show ?thesis
    by (simp add: demo_cache_def outpoint_ok_def stxo_ok_def empty_db_coins)
qed

theorem cache_refines_coins_witness:
  "\<exists>s' stxos' s2 db2. cache_connectTransactions (demo_sizes 100) demo_keys sha32 empty_db sample_block demo_cache (Some []) = Ok (s', stxos') \<and>
     flush (demo_sizes 100) demo_keys FlushRequired (replicate 32 9) 0 s' empty_db = Ok (s2, db2) \<and>
     db_coins demo_keys db2 (replicate 32 7, 0) = None \<and> db_coins demo_keys db2 ([1, 0, 0, 0, 1] @ replicate 27 7, 0) \<noteq> None"
proof -
  obtain s' stxos' where c: "cache_connectTransactions (demo_sizes 100) demo_keys sha32 empty_db sample_block demo_cache (Some []) = Ok (s', stxos')"
      and one: "length (maps (cachedEntries s')) = 1"
    using demo_connects by blast
  define U where "U = foldl (apply_tx sha32 (blk_Height sample_block)) (cache_coins demo_keys empty_db demo_cache) (block_txs sample_block)"
  have "\<forall>t \<in> set (block_txs sample_block). tx_storable demo_keys empty_db sha32 (blk_Height sample_block) t"
    by (auto simp: sample_block_def block_txs_def outpoint_ok_def intro!: coin_tx_storable)
  from cache_refines_coins [OF demo_keys_ok empty_db_coins(2) demo_cache_ok this c, of "replicate 32 9" 0] one
  obtain s2 db2 where f: "flush (demo_sizes 100) demo_keys FlushRequired (replicate 32 9) 0 s' empty_db = Ok (s2, db2)"
      and coins: "\<forall>x. outpoint_ok x \<longrightarrow> db_coins demo_keys db2 x = U x"
    unfolding U_def by blast
  have "replicate 32 7 \<noteq> [1, 0, 0, 0, 1 :: byte] @ replicate 27 7"
    by code_simp
  then have "U (replicate 32 7, 0) = None" "U ([1, 0, 0, 0, 1] @ replicate 27 7, 0) \<noteq> None"
    unfolding U_def by (simp_all add: sample_block_def block_txs_def apply_tx_def null_outpoints outputs_def sample_hashes32 spendable_true map_add_def)
  moreover have "outpoint_ok (replicate 32 7, 0)" "outpoint_ok ([1, 0, 0, 0, 1] @ replicate 27 7, 0)"
    by (simp_all add: outpoint_ok_def)
  ultimately show ?thesis
    using c f coins by metis
qed

text \<open>Two transactions, the second of which spends the output of the first.\<close>

definition first_out :: outpoint where
  "first_out = ([1, 0, 0, 0, 1] @ replicate 27 0, 0)"

definition second_out :: outpoint where
  "second_out = ([1, 0, 0, 0, 1, 1, 0, 0, 0, 1] @ replicate 22 0, 0)"

definition two_txs :: Block where
  "two_txs = \<lparr>msgBlock = \<lparr>Header = sample_header, Transactions =
     [coin_tx (replicate 32 0, 2 ^ 32 - 1) 50, coin_tx first_out 49]\<rparr>, blk_Height = 2\<rparr>"

lemma outs_differ: "first_out \<noteq> second_out"
  by code_simp

lemma two_outs:
  "first_out \<noteq> second_out" "second_out \<noteq> first_out" "\<not> isNullOutpoint first_out" "outpoint_ok second_out"
  "(TxHash sha32 (coin_tx (replicate 32 0, 4294967295) 50), 0) = first_out" "(TxHash sha32 (coin_tx first_out 49), 0) = second_out"
  using outs_differ
  by (simp_all add: first_out_def second_out_def isNullOutpoint_def sample_hashes32 outpoint_ok_def sample_hashes32(3) [simplified])

lemma two_misses:
  "\<exists>es s. fetchEntries (demo_sizes 2) demo_keys empty_db [first_out, second_out] (newUtxoCache (demo_sizes 2) 1000) = Ok (es, s) \<and>
     cachedEntries s = \<lparr>maps = [[(first_out, None)], [(second_out, None)]], maxEntries = [1, 1], maxTotalMemoryUsage = 1000\<rparr>"
  by (simp add: run_cache two_outs)

lemma stale_copy:
  assumes "cachedEntries s = \<lparr>maps = [[(first_out, None)], [(second_out, None)]], maxEntries = [1, 1], maxTotalMemoryUsage = 1000\<rparr>"
  shows "\<exists>s' stxos' e. cache_connectTransactions (demo_sizes 2) demo_keys sha32 empty_db two_txs s (Some []) = Ok (s', stxos') \<and>
     maps (cachedEntries s') = [[(second_out, Some e)], [(second_out, None)]] \<and> maxEntries (cachedEntries s') = [1, 1] \<and>
     e = \<lparr>amount = 49, pkScript = [0x51], blockHeight = 2, packedFlags = 12\<rparr>"
  using two_outs assms by (simp add: run_cache two_txs_def)


end
