(* ===== verification/Chain_Tree.thy ===== *)
theory Chain_Tree
  imports Chain_Difficulty
begin

text \<open>
  The tree of blocks in memory (\<^verbatim>\<open>coin/OrcaNet/blockchain/blockindex.go\<close>), the view of one branch of it
  (\<^verbatim>\<open>chainview.go\<close>) and the choice of what to detach and attach when another branch becomes the best one
  (\<^verbatim>\<open>chain.go\<close>).  Nodes are shared and linked by pointers, and their status changes in place, so they
  live in a heap: a pointer is an address, \<^verbatim>\<open>nil\<close> is \<open>None\<close>.  Loops that follow pointers may run
  forever on a heap with a cycle; their result is then \<open>None\<close>.
\<close>

section \<open>Nodes\<close>

type_synonym ptr = nat

record blockNode =
  nd_parent :: "ptr option"
  nd_ancestor :: "ptr option"
  nd_hash :: bytes
  nd_workSum :: int
  nd_height :: int
  nd_version :: int
  nd_bits :: u32
  nd_nonce :: u32
  nd_timestamp :: int
  nd_merkleRoot :: bytes
  nd_status :: byte

type_synonym heap = "ptr \<rightharpoonup> blockNode"

abbreviation (input) statusDataStored :: byte where "statusDataStored \<equiv> 1"
abbreviation (input) statusValid :: byte where "statusValid \<equiv> 2"
abbreviation (input) statusValidateFailed :: byte where "statusValidateFailed \<equiv> 4"
abbreviation (input) statusInvalidAncestor :: byte where "statusInvalidAncestor \<equiv> 8"

definition HaveData :: "byte \<Rightarrow> bool" where
  "HaveData status \<longleftrightarrow> status AND statusDataStored \<noteq> 0"

definition KnownValid :: "byte \<Rightarrow> bool" where
  "KnownValid status \<longleftrightarrow> status AND statusValid \<noteq> 0"

definition KnownInvalid :: "byte \<Rightarrow> bool" where
  "KnownInvalid status \<longleftrightarrow> status AND (statusValidateFailed OR statusInvalidAncestor) \<noteq> 0"

text \<open>The node a pointer that is not nil points to.\<close>

definition nd :: "heap \<Rightarrow> ptr \<Rightarrow> blockNode" where
  "nd h p = the (h p)"

definition invertLowestOne :: "int \<Rightarrow> int" where
  "invertLowestOne n = n AND wrap32 (n - 1)"

definition getAncestorHeight :: "int \<Rightarrow> int" where
  "getAncestorHeight height = invertLowestOne (invertLowestOne height)"

partial_function (option) ancestor_loop :: "heap \<Rightarrow> ptr option \<Rightarrow> int \<Rightarrow> ptr option option" where
  "ancestor_loop h n height =
     (case n of
        None \<Rightarrow> Some None
      | Some p \<Rightarrow>
          if nd_height (nd h p) = height then Some (Some p)
          else if nd_ancestor (nd h p) \<noteq> None \<and> getAncestorHeight (nd_height (nd h p)) \<ge> height
               then ancestor_loop h (nd_ancestor (nd h p)) height
               else ancestor_loop h (nd_parent (nd h p)) height)"

definition Ancestor :: "heap \<Rightarrow> ptr \<Rightarrow> int \<Rightarrow> ptr option option" where
  "Ancestor h p height =
     (if height < 0 \<or> height > nd_height (nd h p) then Some None else ancestor_loop h (Some p) height)"

definition RelativeAncestor :: "heap \<Rightarrow> ptr \<Rightarrow> int \<Rightarrow> ptr option option" where
  "RelativeAncestor h p distance = Ancestor h p (wrap32 (nd_height (nd h p) - distance))"

text \<open>A new node at the free address \<open>p\<close>.\<close>

definition newBlockNode :: "(bytes \<Rightarrow> bytes) \<Rightarrow> BlockHeader \<Rightarrow> ptr option \<Rightarrow> ptr \<Rightarrow> heap \<Rightarrow> heap option" where
  "newBlockNode sha header parent p h =
     (let node = \<lparr>nd_parent = None, nd_ancestor = None, nd_hash = BlockHash sha header, nd_workSum = CalcWork (Bits header), nd_height = 0,
                  nd_version = hdr_Version header, nd_bits = Bits header, nd_nonce = Nonce header, nd_timestamp = Unix (Timestamp header),
                  nd_merkleRoot = MerkleRoot header, nd_status = 0\<rparr>
      in case parent of
           None \<Rightarrow> Some (h(p \<mapsto> node))
         | Some q \<Rightarrow>
             let height = wrap32 (nd_height (nd h q) + 1)
             in Option.bind (Ancestor h q (getAncestorHeight height)) (\<lambda>a.
                  Some (h(p \<mapsto> node\<lparr>nd_parent := Some q, nd_height := height, nd_workSum := nd_workSum (nd h q) + CalcWork (Bits header),
                                   nd_ancestor := a\<rparr>))))"

definition node_Header :: "heap \<Rightarrow> ptr \<Rightarrow> BlockHeader" where
  "node_Header h p =
     \<lparr>hdr_Version = nd_version (nd h p),
      PrevBlock = (case nd_parent (nd h p) of None \<Rightarrow> replicate 32 0 | Some q \<Rightarrow> nd_hash (nd h q)),
      MerkleRoot = nd_merkleRoot (nd h p), Timestamp = from_Unix (nd_timestamp (nd h p)), Bits = nd_bits (nd h p), Nonce = nd_nonce (nd h p)\<rparr>"

section \<open>The index\<close>

record blockIndex =
  heap_of :: heap
  idx :: "bytes \<rightharpoonup> ptr"
  dirty :: "ptr set"

definition index_HaveBlock :: "blockIndex \<Rightarrow> bytes \<Rightarrow> bool" where
  "index_HaveBlock bi h \<longleftrightarrow> idx bi h \<noteq> None"

definition LookupNode :: "blockIndex \<Rightarrow> bytes \<Rightarrow> ptr option" where
  "LookupNode bi h = idx bi h"

definition AddNode :: "ptr \<Rightarrow> blockIndex \<Rightarrow> blockIndex" where
  "AddNode p bi = bi\<lparr>idx := (idx bi)(nd_hash (nd (heap_of bi) p) \<mapsto> p), dirty := insert p (dirty bi)\<rparr>"

definition NodeStatus :: "blockIndex \<Rightarrow> ptr \<Rightarrow> byte" where
  "NodeStatus bi p = nd_status (nd (heap_of bi) p)"

definition SetStatusFlags :: "ptr \<Rightarrow> byte \<Rightarrow> blockIndex \<Rightarrow> blockIndex" where
  "SetStatusFlags p fl bi =
     bi\<lparr>heap_of := (heap_of bi)(p \<mapsto> (nd (heap_of bi) p)\<lparr>nd_status := nd_status (nd (heap_of bi) p) OR fl\<rparr>), dirty := insert p (dirty bi)\<rparr>"

definition UnsetStatusFlags :: "ptr \<Rightarrow> byte \<Rightarrow> blockIndex \<Rightarrow> blockIndex" where
  "UnsetStatusFlags p fl bi =
     bi\<lparr>heap_of := (heap_of bi)(p \<mapsto> (nd (heap_of bi) p)\<lparr>nd_status := nd_status (nd (heap_of bi) p) AND NOT fl\<rparr>), dirty := insert p (dirty bi)\<rparr>"

section \<open>Views of a branch\<close>

type_synonym chainView = "ptr option list"

definition view_genesis :: "chainView \<Rightarrow> ptr option" where
  "view_genesis c = (if c = [] then None else c ! 0)"

definition view_tip :: "chainView \<Rightarrow> ptr option" where
  "view_tip c = (if c = [] then None else c ! (length c - 1))"

partial_function (option) fill_view :: "heap \<Rightarrow> ptr option \<Rightarrow> chainView \<Rightarrow> chainView option" where
  "fill_view h n c =
     (case n of
        None \<Rightarrow> Some c
      | Some p \<Rightarrow>
          if c ! nat (nd_height (nd h p)) = Some p then Some c
          else fill_view h (nd_parent (nd h p)) (c[nat (nd_height (nd h p)) := Some p]))"

text \<open>Whether the array is extended in place or copied, the places past the old length are nil.\<close>

definition setTip :: "heap \<Rightarrow> ptr option \<Rightarrow> chainView \<Rightarrow> chainView option" where
  "setTip h n c =
     (case n of
        None \<Rightarrow> Some []
      | Some p \<Rightarrow>
          let needed = nat (nd_height (nd h p)) + 1
          in fill_view h n (take needed (c @ replicate needed None)))"

definition newChainView :: "heap \<Rightarrow> ptr option \<Rightarrow> chainView option" where
  "newChainView h tip = setTip h tip []"

definition view_height :: "chainView \<Rightarrow> int" where
  "view_height c = wrap32 (int (length c) - 1)"

definition nodeByHeight :: "chainView \<Rightarrow> int \<Rightarrow> ptr option" where
  "nodeByHeight c height = (if height < 0 \<or> height \<ge> int (length c) then None else c ! nat height)"

definition view_Equals :: "chainView \<Rightarrow> chainView \<Rightarrow> bool" where
  "view_Equals c c' \<longleftrightarrow> length c = length c' \<and> view_tip c = view_tip c'"

definition view_contains :: "heap \<Rightarrow> chainView \<Rightarrow> ptr \<Rightarrow> bool" where
  "view_contains h c p \<longleftrightarrow> nodeByHeight c (nd_height (nd h p)) = Some p"

definition view_next :: "heap \<Rightarrow> chainView \<Rightarrow> ptr option \<Rightarrow> ptr option" where
  "view_next h c n =
     (case n of None \<Rightarrow> None | Some p \<Rightarrow> if \<not> view_contains h c p then None else nodeByHeight c (wrap32 (nd_height (nd h p) + 1)))"

partial_function (option) fork_loop :: "heap \<Rightarrow> chainView \<Rightarrow> ptr option \<Rightarrow> ptr option option" where
  "fork_loop h c n =
     (case n of
        None \<Rightarrow> Some None
      | Some p \<Rightarrow> if view_contains h c p then Some n else fork_loop h c (nd_parent (nd h p)))"

definition findFork :: "heap \<Rightarrow> chainView \<Rightarrow> ptr option \<Rightarrow> ptr option option" where
  "findFork h c n =
     (case n of
        None \<Rightarrow> Some None
      | Some p \<Rightarrow>
          Option.bind (if nd_height (nd h p) > view_height c then Ancestor h p (view_height c) else Some n) (fork_loop h c))"

section \<open>Locators\<close>

text \<open>The number of entries a locator has room for is only a hint to the allocator.\<close>

definition log2FloorMasks :: "u32 list" where
  "log2FloorMasks = [0xffff0000, 0xff00, 0xf0, 0xc, 0x2]"

definition fastLog2Floor :: "u32 \<Rightarrow> nat" where
  "fastLog2Floor n =
     fst (foldl (\<lambda>(rv, n, e) mask. if n AND mask \<noteq> 0 then (rv + e, drop_bit e n, e div 2) else (rv, n, e div 2)) (0, n, 16) log2FloorMasks)"

partial_function (option) locator_loop :: "heap \<Rightarrow> chainView \<Rightarrow> ptr option \<Rightarrow> int \<Rightarrow> ptr list \<Rightarrow> ptr list option" where
  "locator_loop h c n s locator =
     (case n of
        None \<Rightarrow> Some locator
      | Some p \<Rightarrow>
          let locator' = locator @ [p]
          in if nd_height (nd h p) = 0 then Some locator'
             else
               let height = (if wrap32 (nd_height (nd h p) - s) < 0 then 0 else wrap32 (nd_height (nd h p) - s));
                   s' = (if length locator' > 10 then wrap32 (s * 2) else s)
               in Option.bind (if view_contains h c p then Some (c ! nat height) else Ancestor h p height)
                    (\<lambda>n'. locator_loop h c n' s' locator'))"

definition blockLocator :: "heap \<Rightarrow> chainView \<Rightarrow> ptr option \<Rightarrow> bytes list option" where
  "blockLocator h c n =
     (case (if n = None then view_tip c else n) of
        None \<Rightarrow> Some []
      | Some p \<Rightarrow> map_option (map (\<lambda>q. nd_hash (nd h q))) (locator_loop h c (Some p) 1 []))"

section \<open>Reorganizing\<close>

text \<open>The nodes from \<open>n\<close> back to before the fork, in the order met; nothing when one is known to be invalid.\<close>

partial_function (option) attach_loop :: "blockIndex \<Rightarrow> ptr option \<Rightarrow> ptr option \<Rightarrow> ptr list \<Rightarrow> (bool \<times> ptr list) option" where
  "attach_loop bi forkNode n attachNodes =
     (case n of
        None \<Rightarrow> Some (False, attachNodes)
      | Some p \<Rightarrow>
          if n = forkNode then Some (False, attachNodes)
          else if KnownInvalid (NodeStatus bi p) then Some (True, attachNodes)
          else attach_loop bi forkNode (nd_parent (nd (heap_of bi) p)) (p # attachNodes))"

partial_function (option) detach_loop :: "heap \<Rightarrow> ptr option \<Rightarrow> ptr option \<Rightarrow> ptr list \<Rightarrow> ptr list option" where
  "detach_loop h forkNode n detachNodes =
     (case n of
        None \<Rightarrow> Some detachNodes
      | Some p \<Rightarrow> if n = forkNode then Some detachNodes else detach_loop h forkNode (nd_parent (nd h p)) (detachNodes @ [p]))"

definition getReorganizeNodes :: "chainView \<Rightarrow> ptr \<Rightarrow> blockIndex \<Rightarrow> (ptr list \<times> ptr list \<times> blockIndex) outcome option" where
  "getReorganizeNodes bestChain p bi =
     (case nd_parent (nd (heap_of bi) p) of
        None \<Rightarrow> Some (Panic ''nil pointer dereference'')
      | Some q \<Rightarrow>
          if KnownInvalid (NodeStatus bi q) then Some (Ok ([], [], SetStatusFlags p statusInvalidAncestor bi))
          else
            Option.bind (findFork (heap_of bi) bestChain (Some p)) (\<lambda>forkNode.
            Option.bind (attach_loop bi forkNode (Some p) []) (\<lambda>(invalidChain, attachNodes).
              if invalidChain then Some (Ok ([], [], foldl (\<lambda>bi n. SetStatusFlags n statusInvalidAncestor bi) bi attachNodes))
              else Option.bind (detach_loop (heap_of bi) forkNode (view_tip bestChain) []) (\<lambda>detachNodes.
                Some (Ok (detachNodes, attachNodes, bi))))))"

section \<open>Following the parents\<close>

text \<open>The reference for everything that goes back in the tree: the parent of the parent and so on.\<close>

fun walk :: "heap \<Rightarrow> nat \<Rightarrow> ptr \<Rightarrow> ptr option" where
  "walk h 0 p = Some p"
| "walk h (Suc n) p = (case nd_parent (nd h p) of None \<Rightarrow> None | Some q \<Rightarrow> walk h n q)"

abbreviation hgt :: "heap \<Rightarrow> ptr \<Rightarrow> int" where
  "hgt h p \<equiv> nd_height (nd h p)"

definition node_ok :: "heap \<Rightarrow> ptr \<Rightarrow> bool" where
  "node_ok h p \<longleftrightarrow> 0 \<le> hgt h p \<and> hgt h p < 2 ^ 31 - 1 \<and>
     (case nd_parent (nd h p) of None \<Rightarrow> hgt h p = 0 \<and> nd_ancestor (nd h p) = None
      | Some q \<Rightarrow> h q \<noteq> None \<and> hgt h p = hgt h q + 1) \<and>
     (\<forall>a. nd_ancestor (nd h p) = Some a \<longrightarrow> walk h (nat (hgt h p - getAncestorHeight (hgt h p))) p = Some a)"

definition tree_ok :: "heap \<Rightarrow> bool" where
  "tree_ok h \<longleftrightarrow> (\<forall>p. h p \<noteq> None \<longrightarrow> node_ok h p)"

lemma parent_ok: "tree_ok h \<Longrightarrow> h p \<noteq> None \<Longrightarrow> nd_parent (nd h p) = Some q \<Longrightarrow> h q \<noteq> None \<and> hgt h p = hgt h q + 1"
proof -
  assume "tree_ok h" "h p \<noteq> None" "nd_parent (nd h p) = Some q"
  moreover from this have "node_ok h p"
    by (simp add: tree_ok_def)
  ultimately show ?thesis
    by (simp add: node_ok_def)
qed

lemma root_ok: "tree_ok h \<Longrightarrow> h p \<noteq> None \<Longrightarrow> nd_parent (nd h p) = None \<Longrightarrow> hgt h p = 0"
proof -
  assume "tree_ok h" "h p \<noteq> None" "nd_parent (nd h p) = None"
  moreover from this have "node_ok h p"
    by (simp add: tree_ok_def)
  ultimately show ?thesis
    by (simp add: node_ok_def)
qed

lemma hgt_nonneg: "tree_ok h \<Longrightarrow> h p \<noteq> None \<Longrightarrow> 0 \<le> hgt h p"
  by (simp add: tree_ok_def node_ok_def)

lemma walk_add: "walk h (m + n) p = Option.bind (walk h m p) (walk h n)"
  by (induction m arbitrary: p) (auto split: option.splits)

lemma hgt_bound: "tree_ok h \<Longrightarrow> h p \<noteq> None \<Longrightarrow> hgt h p < 2 ^ 31"
  by (auto simp: tree_ok_def node_ok_def)

lemma invertLowestOne_less: "0 < n \<Longrightarrow> n < 2 ^ 31 \<Longrightarrow> 0 \<le> invertLowestOne n \<and> invertLowestOne n < n"
  unfolding invertLowestOne_def using AND_upper2 [of "n - 1" n] by simp

lemma invertLowestOne_nonneg: "0 \<le> n \<Longrightarrow> n < 2 ^ 31 \<Longrightarrow> 0 \<le> invertLowestOne n \<and> invertLowestOne n \<le> n"
  using invertLowestOne_less [of n] by (cases "n = 0") (auto simp: invertLowestOne_def)

lemma getAncestorHeight_less: "0 < n \<Longrightarrow> n < 2 ^ 31 \<Longrightarrow> 0 \<le> getAncestorHeight n \<and> getAncestorHeight n < n"
  unfolding getAncestorHeight_def using invertLowestOne_less [of n] invertLowestOne_nonneg [of "invertLowestOne n"] by linarith

lemma walk_ok:
  assumes "tree_ok h" "h p \<noteq> None" "int n \<le> hgt h p"
  shows "\<exists>q. walk h n p = Some q \<and> h q \<noteq> None \<and> hgt h q = hgt h p - int n"
  using assms(2,3)
proof (induction n arbitrary: p)
  case (Suc n)
  have "node_ok h p"
    using assms(1) Suc.prems(1) by (simp add: tree_ok_def)
  then obtain q where "nd_parent (nd h p) = Some q" "h q \<noteq> None" "hgt h p = hgt h q + 1"
    using Suc.prems(2) by (auto simp: node_ok_def split: option.splits)
  then show ?case
    using Suc.IH [of q] Suc.prems(2) by auto
qed simp

lemma ancestor_loop_walk:
  assumes "tree_ok h" "h p \<noteq> None" "0 \<le> k" "k \<le> hgt h p"
  shows "ancestor_loop h (Some p) k = Some (walk h (nat (hgt h p - k)) p)"
  using assms(2,4)
proof (induction "nat (hgt h p)" arbitrary: p rule: less_induct)
  case less
  show ?case
  proof (cases "hgt h p = k")
    case True
    then show ?thesis
      by (simp add: ancestor_loop.simps)
  next
    case False
    then have up: "k < hgt h p" "0 < hgt h p"
      using less.prems(2) assms(3) by simp_all
    have ok: "node_ok h p"
      using assms(1) less.prems(1) by (simp add: tree_ok_def)
    show ?thesis
    proof (cases "nd_ancestor (nd h p) \<noteq> None \<and> getAncestorHeight (hgt h p) \<ge> k")
      case True
      define n where "n = nat (hgt h p - getAncestorHeight (hgt h p))"
      obtain a where a: "nd_ancestor (nd h p) = Some a"
        using True by auto
      then have w: "walk h n p = Some a"
        using ok by (simp add: node_ok_def n_def)
      have "int n \<le> hgt h p"
        using getAncestorHeight_less [OF up(2) hgt_bound [OF assms(1) less.prems(1)]] by (simp add: n_def)
      then have ha: "h a \<noteq> None" "hgt h a = getAncestorHeight (hgt h p)"
        using walk_ok [OF assms(1) less.prems(1), of n] w getAncestorHeight_less [OF up(2) hgt_bound [OF assms(1) less.prems(1)]] by (auto simp: n_def)
      then have "ancestor_loop h (Some a) k = Some (walk h (nat (hgt h a - k)) a)"
        using less.hyps [of a] getAncestorHeight_less [OF up(2) hgt_bound [OF assms(1) less.prems(1)]] True up by simp
      moreover have "nat (hgt h p - k) = n + nat (hgt h a - k)"
        using True getAncestorHeight_less [OF up(2) hgt_bound [OF assms(1) less.prems(1)]] unfolding n_def ha(2) by (simp flip: nat_add_distrib)
      ultimately show ?thesis
        using False True a w by (simp add: ancestor_loop.simps [of h "Some p"] walk_add)
    next
      case False2: False
      obtain q where q: "nd_parent (nd h p) = Some q" "h q \<noteq> None" "hgt h p = hgt h q + 1"
        using ok up(2) by (auto simp: node_ok_def split: option.splits)
      then have "ancestor_loop h (Some q) k = Some (walk h (nat (hgt h q - k)) q)"
        using less.hyps [of q] up by simp
      moreover have "nat (hgt h p - k) = Suc (nat (hgt h q - k))"
        using q(3) up(1) by simp
      ultimately show ?thesis
        using False False2 q(1) by (auto simp: ancestor_loop.simps [of h "Some p"])
    qed
  qed
qed

text \<open>
  C38: the skip pointers lead to the right ancestor.  In a well-formed tree the search for the ancestor of
  a node at some height ends; it finds the node that many parents back, which has that height, and it
  finds nothing for a negative height or one above the node.
\<close>

theorem ancestor_is_walk:
  assumes "tree_ok h" "h p \<noteq> None"
  shows "if 0 \<le> k \<and> k \<le> hgt h p
    then \<exists>q. Ancestor h p k = Some (Some q) \<and> walk h (nat (hgt h p - k)) p = Some q \<and> h q \<noteq> None \<and> hgt h q = k
    else Ancestor h p k = Some None"
  using ancestor_loop_walk [OF assms] walk_ok [OF assms, of "nat (hgt h p - k)"] by (auto simp: Ancestor_def)

text \<open>A new node keeps the tree well-formed.\<close>

lemma walk_fresh:
  assumes "tree_ok h" "h q \<noteq> None" "h p = None"
  shows "walk (h(p \<mapsto> x)) n q = walk h n q"
  using assms(2)
proof (induction n arbitrary: q)
  case (Suc n)
  have "q \<noteq> p"
    using Suc.prems assms(3) by auto
  moreover have "h q' \<noteq> None" if "nd_parent (nd h q) = Some q'" for q'
    using parent_ok [OF assms(1) Suc.prems that] by simp
  ultimately show ?case
    using Suc.IH by (simp add: nd_def split: option.splits)
qed simp

lemma node_ok_fresh:
  assumes "tree_ok h" "h q \<noteq> None" "h p = None"
  shows "node_ok (h(p \<mapsto> x)) q"
proof -
  have "q \<noteq> p"
    using assms by auto
  then have "nd (h(p \<mapsto> x)) q = nd h q"
    by (simp add: nd_def)
  moreover have "node_ok h q"
    using assms(1,2) by (simp add: tree_ok_def)
  moreover have "nd (h(p \<mapsto> x)) q' = nd h q'" if "h q' \<noteq> None" for q'
    using that assms(3) by (cases "q' = p") (simp_all add: nd_def)
  ultimately show ?thesis
    using walk_fresh [OF assms] unfolding node_ok_def by (auto split: option.splits)
qed

lemma newBlockNode_ok:
  assumes "tree_ok h" "h p = None" "case parent of None \<Rightarrow> True | Some q \<Rightarrow> h q \<noteq> None \<and> hgt h q < 2 ^ 31 - 2"
  shows "\<exists>h'. newBlockNode sha header parent p h = Some h' \<and> tree_ok h'"
proof (cases parent)
  case None
  then show ?thesis
    using node_ok_fresh [OF assms(1) _ assms(2)]
    by (auto simp: newBlockNode_def Let_def tree_ok_def) (simp add: node_ok_def nd_def)
next
  case (Some q)
  have q: "h q \<noteq> None" "hgt h q < 2 ^ 31 - 2" "0 \<le> hgt h q" "q \<noteq> p"
    using assms Some by (auto simp: tree_ok_def node_ok_def)
  define k where "k = getAncestorHeight (hgt h q + 1)"
  have k: "0 \<le> k" "k \<le> hgt h q"
    using getAncestorHeight_less [of "hgt h q + 1"] q(2,3) unfolding k_def by simp_all
  obtain a where a: "Ancestor h q k = Some (Some a)" "walk h (nat (hgt h q - k)) q = Some a"
    using ancestor_loop_walk [OF assms(1) q(1) k] walk_ok [OF assms(1) q(1), of "nat (hgt h q - k)"] k by (auto simp: Ancestor_def)
  have wr: "wrap32 (hgt h q + 1) = hgt h q + 1"
    using q(2,3) by simp
  obtain x where x: "newBlockNode sha header parent p h = Some (h(p \<mapsto> x))" "nd_parent x = Some q" "nd_height x = hgt h q + 1" "nd_ancestor x = Some a"
    using a(1) Some unfolding k_def by (simp add: newBlockNode_def Let_def wr)
  have "nat (hgt h q + 1 - k) = Suc (nat (hgt h q - k))"
    using k by simp
  then have "node_ok (h(p \<mapsto> x)) p"
    using x q a(2) walk_fresh [OF assms(1) q(1) assms(2)] by (simp add: node_ok_def nd_def k_def)
  then have "tree_ok (h(p \<mapsto> x))"
    using node_ok_fresh [OF assms(1) _ assms(2)] by (auto simp: tree_ok_def)
  then show ?thesis
    using x(1) by blast
qed

section \<open>The view of a branch\<close>

text \<open>The branch that ends at a node: its ancestors from the first to itself.\<close>

definition branch :: "heap \<Rightarrow> ptr \<Rightarrow> chainView" where
  "branch h p = map (\<lambda>i. walk h (nat (hgt h p) - i) p) [0 ..< nat (hgt h p) + 1]"

definition on_branch :: "heap \<Rightarrow> ptr \<Rightarrow> ptr \<Rightarrow> bool" where
  "on_branch h q p \<longleftrightarrow> (\<exists>n. walk h n p = Some q)"

definition view_ok :: "heap \<Rightarrow> chainView \<Rightarrow> bool" where
  "view_ok h c \<longleftrightarrow> c = [] \<or> (\<exists>p. h p \<noteq> None \<and> c = branch h p)"

lemma length_branch [simp]: "length (branch h p) = nat (hgt h p) + 1"
  by (simp add: branch_def)

lemma branch_nth: "i \<le> nat (hgt h p) \<Longrightarrow> branch h p ! i = walk h (nat (hgt h p) - i) p"
  by (simp add: branch_def nth_map del: upt_Suc)

lemma walk_bound:
  assumes "tree_ok h" "h p \<noteq> None" "walk h n p = Some q"
  shows "int n \<le> hgt h p \<and> h q \<noteq> None \<and> hgt h q = hgt h p - int n"
  using assms(2,3)
proof (induction n arbitrary: p)
  case 0
  then show ?case
    using assms(1) by (auto simp: tree_ok_def node_ok_def)
next
  case (Suc n)
  have "node_ok h p"
    using assms(1) Suc.prems(1) by (simp add: tree_ok_def)
  moreover obtain q' where "nd_parent (nd h p) = Some q'" "walk h n q' = Some q"
    using Suc.prems(2) by (auto split: option.splits)
  ultimately show ?case
    using Suc.IH [of q'] by (auto simp: node_ok_def)
qed

text \<open>Below a node of a branch, the branch is the one of that node.\<close>

lemma branch_below:
  assumes "tree_ok h" "h p \<noteq> None" "i \<le> nat (hgt h p)" "branch h p ! i = Some q" "j \<le> i"
  shows "branch h p ! j = branch h q ! j \<and> nat (hgt h q) = i"
proof -
  have nn: "0 \<le> hgt h p"
    using assms(1,2) by (simp add: tree_ok_def node_ok_def)
  have w: "walk h (nat (hgt h p) - i) p = Some q"
    using assms(3,4) by (simp add: branch_nth)
  then have q: "nat (hgt h q) = i"
    using walk_bound [OF assms(1,2) w] assms(3) nn by auto
  have split: "nat (hgt h p) - j = (nat (hgt h p) - i) + (i - j)"
    using assms(3,5) by simp
  have "walk h (nat (hgt h p) - j) p = walk h (i - j) q"
    unfolding split walk_add w by simp
  then have "branch h p ! j = walk h (i - j) q"
    using assms(3,5) by (simp add: branch_nth)
  then show ?thesis
    using q assms(5) by (simp add: branch_nth)
qed

text \<open>What the array holds while it is being filled: old places are right below each of them.\<close>

definition coherent :: "heap \<Rightarrow> chainView \<Rightarrow> bool" where
  "coherent h c \<longleftrightarrow> (\<forall>i < length c. \<forall>q. c ! i = Some q \<longrightarrow> h q \<noteq> None \<and> nat (hgt h q) = i \<and> (\<forall>j \<le> i. c ! j = branch h q ! j))"

lemma branch_walk:
  assumes "tree_ok h" "h p \<noteq> None" "walk h n p = Some q"
  shows "nat (hgt h q) \<le> nat (hgt h p) \<and> branch h p ! nat (hgt h q) = Some q"
proof -
  have "int n \<le> hgt h p" "hgt h q = hgt h p - int n"
    using walk_bound [OF assms] by simp_all
  then have "nat (hgt h q) \<le> nat (hgt h p)" "nat (hgt h p) - nat (hgt h q) = n"
    by linarith+
  then show ?thesis
    using assms(3) by (simp add: branch_nth)
qed

lemma fill_view_branch:
  assumes "tree_ok h" "h p \<noteq> None" "coherent h c0" "length c0 = nat (hgt h p) + 1"
    and "walk h n p = Some q" "length c = length c0"
    and "\<forall>i \<le> nat (hgt h q). c ! i = c0 ! i" "\<forall>i. nat (hgt h q) < i \<longrightarrow> i < length c \<longrightarrow> c ! i = branch h p ! i"
  shows "fill_view h (Some q) c = Some (branch h p)"
  using assms(5-8)
proof (induction "nat (hgt h q)" arbitrary: n q c rule: less_induct)
  case less
  have q: "nat (hgt h q) \<le> nat (hgt h p)" "branch h p ! nat (hgt h q) = Some q" "h q \<noteq> None"
    using branch_walk [OF assms(1,2) less.prems(1)] walk_bound [OF assms(1,2) less.prems(1)] by simp_all
  note below = branch_below [OF assms(1,2) q(1,2)]
  show ?case
  proof (cases "c ! nat (hgt h q) = Some q")
    case True
    then have "c0 ! nat (hgt h q) = Some q"
      using less.prems(3) by simp
    then have old: "\<forall>j \<le> nat (hgt h q). c0 ! j = branch h q ! j"
      using assms(3,4) q(1) unfolding coherent_def by (metis less_Suc_eq_le Suc_eq_plus1)
    have "c ! i = branch h p ! i" if "i < length c" for i
    proof (cases "i \<le> nat (hgt h q)")
      case True
      then show ?thesis
        using less.prems(3) old below [OF True] by metis
    next
      case False
      then show ?thesis
        using less.prems(4) that by simp
    qed
    then have "c = branch h p"
      using less.prems(2) assms(4) by (intro nth_equalityI) auto
    then show ?thesis
      using True by (simp add: fill_view.simps)
  next
    case False
    let ?c = "c[nat (hgt h q) := Some q]"
    show ?thesis
    proof (cases "nd_parent (nd h q)")
      case None
      then have "hgt h q = 0"
        using root_ok [OF assms(1) q(3)] by simp
      then have "?c = branch h p"
        using less.prems(2,4) q(2) assms(4) by (intro nth_equalityI) (auto simp: nth_list_update)
      then show ?thesis
        using False None by (simp add: fill_view.simps [of h "Some q"] fill_view.simps [of h None])
    next
      case (Some q')
      then have q': "h q' \<noteq> None" "hgt h q = hgt h q' + 1"
        using parent_ok [OF assms(1) q(3) Some] by simp_all
      then have lt: "nat (hgt h q') < nat (hgt h q)" "nat (hgt h q) = Suc (nat (hgt h q'))"
        using hgt_nonneg [OF assms(1) q'(1)] by simp_all
      have "walk h (Suc n) p = Some q'"
        using less.prems(1) Some walk_add [of h n 1 p] by simp
      moreover have "\<forall>i \<le> nat (hgt h q'). ?c ! i = c0 ! i"
        using less.prems(3) lt by auto
      moreover have "\<forall>i. nat (hgt h q') < i \<longrightarrow> i < length ?c \<longrightarrow> ?c ! i = branch h p ! i"
        using less.prems(4) lt(2) q(2) by (auto simp: nth_list_update)
      ultimately have "fill_view h (Some q') ?c = Some (branch h p)"
        using less.hyps [OF lt(1), of "Suc n" ?c] less.prems(2) by simp
      then show ?thesis
        using False Some by (simp add: fill_view.simps [of h "Some q"])
    qed
  qed
qed

lemma coherent_resized:
  assumes "tree_ok h" "view_ok h c"
  shows "coherent h (take n (c @ replicate n None))"
proof (cases "c = []")
  case True
  then show ?thesis
    by (simp add: coherent_def)
next
  case False
  then obtain p where p: "h p \<noteq> None" "c = branch h p"
    using assms(2) by (auto simp: view_ok_def)
  have old: "h q \<noteq> None \<and> nat (hgt h q) = i \<and> (\<forall>j \<le> i. branch h p ! j = branch h q ! j)"
    if "i \<le> nat (hgt h p)" "branch h p ! i = Some q" for i q
  proof -
    have "walk h (nat (hgt h p) - i) p = Some q"
      using that by (simp add: branch_nth)
    then have "h q \<noteq> None"
      using walk_bound [OF assms(1) p(1)] by blast
    then show ?thesis
      using branch_below [OF assms(1) p(1) that] by blast
  qed
  define d where "d = take n (c @ replicate n None)"
  have get: "d ! i = (if i < length c then c ! i else None)" if "i < length d" for i
  proof -
    have "i < n"
      using that by (simp add: d_def)
    then show ?thesis
      by (simp add: d_def nth_append)
  qed
  have "h q \<noteq> None \<and> nat (hgt h q) = i \<and> (\<forall>j \<le> i. d ! j = branch h q ! j)" if "i < length d" "d ! i = Some q" for i q
  proof -
    have i: "i \<le> nat (hgt h p)" "branch h p ! i = Some q"
      using get [OF that(1)] that(2) p(2) by (auto split: if_splits)
    have "d ! j = branch h p ! j" if "j \<le> i" for j
      using get [of j] that \<open>i < length d\<close> i(1) p(2) by auto
    then show ?thesis
      using old [OF i] by simp
  qed
  then show ?thesis
    unfolding coherent_def d_def [symmetric] by blast
qed

lemma setTip_branch:
  assumes "tree_ok h" "view_ok h c" "h p \<noteq> None"
  shows "setTip h (Some p) c = Some (branch h p) \<and> view_ok h (branch h p) \<and> view_tip (branch h p) = Some p"
proof -
  define c0 where "c0 = take (nat (hgt h p) + 1) (c @ replicate (nat (hgt h p) + 1) None)"
  have "fill_view h (Some p) c0 = Some (branch h p)"
    using fill_view_branch [OF assms(1,3) coherent_resized [OF assms(1,2)], of "nat (hgt h p) + 1" 0 p c0]
    by (simp add: c0_def)
  then have "setTip h (Some p) c = Some (branch h p)"
    unfolding c0_def setTip_def Let_def by simp
  moreover have "branch h p \<noteq> []"
    using length_branch [of h p] by force
  ultimately show ?thesis
    using assms(3) by (auto simp: view_ok_def view_tip_def branch_nth)
qed

text \<open>
  C14: changing the tip keeps the view a branch.  From any view that is empty or a branch, setting the tip
  to a node of a well-formed tree ends and makes the view exactly the branch of that node, although the
  loop stops at the first place that has the right node already.
\<close>

theorem set_tip_is_branch:
  assumes "tree_ok h" "view_ok h c" "h p \<noteq> None"
  shows "setTip h (Some p) c = Some (branch h p) \<and> view_ok h (branch h p) \<and> view_tip (branch h p) = Some p"
  using setTip_branch [OF assms] .

section \<open>The fork point\<close>

lemma on_branch_refl: "on_branch h p p"
  unfolding on_branch_def by (metis walk.simps(1))

lemma on_branch_parent: "on_branch h g p \<longleftrightarrow> g = p \<or> (\<exists>q. nd_parent (nd h p) = Some q \<and> on_branch h g q)"
proof
  assume "on_branch h g p"
  then obtain n where "walk h n p = Some g"
    by (auto simp: on_branch_def)
  then show "g = p \<or> (\<exists>q. nd_parent (nd h p) = Some q \<and> on_branch h g q)"
    by (cases n) (auto simp: on_branch_def split: option.splits)
next
  assume "g = p \<or> (\<exists>q. nd_parent (nd h p) = Some q \<and> on_branch h g q)"
  then show "on_branch h g p"
  proof
    assume "\<exists>q. nd_parent (nd h p) = Some q \<and> on_branch h g q"
    then obtain q n where "nd_parent (nd h p) = Some q" "walk h n q = Some g"
      by (auto simp: on_branch_def)
    then have "walk h (Suc n) p = Some g"
      by simp
    then show ?thesis
      unfolding on_branch_def by blast
  qed (simp add: on_branch_refl)
qed

lemma on_branch_ok:
  assumes "tree_ok h" "h p \<noteq> None" "on_branch h g p"
  shows "h g \<noteq> None \<and> 0 \<le> hgt h g \<and> hgt h g \<le> hgt h p \<and> walk h (nat (hgt h p - hgt h g)) p = Some g"
proof -
  obtain n where n: "walk h n p = Some g"
    using assms(3) by (auto simp: on_branch_def)
  from walk_bound [OF assms(1,2) n] have "int n \<le> hgt h p" "h g \<noteq> None" "hgt h g = hgt h p - int n"
    by simp_all
  moreover from this have "nat (hgt h p - hgt h g) = n"
    by simp
  ultimately show ?thesis
    using n by simp
qed

text \<open>Of two nodes on a branch the lower one is on the branch of the higher one.\<close>

lemma on_branch_linear:
  assumes "tree_ok h" "h p \<noteq> None" "on_branch h f p" "on_branch h g p" "hgt h g \<le> hgt h f"
  shows "on_branch h g f"
proof -
  note f = on_branch_ok [OF assms(1-3)] and g = on_branch_ok [OF assms(1,2,4)]
  have "nat (hgt h p - hgt h g) = nat (hgt h p - hgt h f) + nat (hgt h f - hgt h g)"
    using f g assms(5) by (simp flip: nat_add_distrib)
  then have "walk h (nat (hgt h f - hgt h g)) f = Some g"
    using f g by (simp add: walk_add)
  then show ?thesis
    by (auto simp: on_branch_def)
qed

lemma contains_branch:
  assumes "tree_ok h" "h t \<noteq> None" "h p \<noteq> None"
  shows "view_contains h (branch h t) p \<longleftrightarrow> on_branch h p t"
proof
  assume "view_contains h (branch h t) p"
  then have "nat (hgt h p) \<le> nat (hgt h t)" "branch h t ! nat (hgt h p) = Some p"
    by (auto simp: view_contains_def nodeByHeight_def split: if_splits)
  then have "walk h (nat (hgt h t) - nat (hgt h p)) t = Some p"
    by (simp add: branch_nth)
  then show "on_branch h p t"
    unfolding on_branch_def by blast
next
  assume "on_branch h p t"
  then obtain n where "walk h n t = Some p"
    by (auto simp: on_branch_def)
  from branch_walk [OF assms(1,2) this] show "view_contains h (branch h t) p"
    using hgt_nonneg [OF assms(1,3)] by (auto simp: view_contains_def nodeByHeight_def)
qed

text \<open>The last node that two branches share.\<close>

definition last_common :: "heap \<Rightarrow> ptr \<Rightarrow> ptr \<Rightarrow> ptr option \<Rightarrow> bool" where
  "last_common h p t r \<longleftrightarrow> (case r of
       None \<Rightarrow> \<not> (\<exists>g. on_branch h g p \<and> on_branch h g t)
     | Some f \<Rightarrow> on_branch h f p \<and> on_branch h f t \<and> (\<forall>g. on_branch h g p \<and> on_branch h g t \<longrightarrow> on_branch h g f))"

lemma fork_loop_common:
  assumes "tree_ok h" "h t \<noteq> None" "h p \<noteq> None"
  shows "\<exists>r. fork_loop h (branch h t) (Some p) = Some r \<and> last_common h p t r"
  using assms(3)
proof (induction "nat (hgt h p)" arbitrary: p rule: less_induct)
  case less
  show ?case
  proof (cases "on_branch h p t")
    case True
    then show ?thesis
      using contains_branch [OF assms(1,2) less.prems]
      by (auto simp: fork_loop.simps [of h _ "Some p"] last_common_def on_branch_refl)
  next
    case False
    then have nc: "\<not> view_contains h (branch h t) p"
      using contains_branch [OF assms(1,2) less.prems] by simp
    show ?thesis
    proof (cases "nd_parent (nd h p)")
      case None
      then have "fork_loop h (branch h t) (Some p) = Some None"
        using nc by (simp add: fork_loop.simps [of h _ "Some p"] fork_loop.simps [of h _ None])
      moreover have "last_common h p t None"
        using False None on_branch_parent [of h _ p] by (auto simp: last_common_def)
      ultimately show ?thesis
        by blast
    next
      case (Some q)
      have q: "h q \<noteq> None" "hgt h p = hgt h q + 1"
        using parent_ok [OF assms(1) less.prems Some] by simp_all
      then have "nat (hgt h q) < nat (hgt h p)"
        using hgt_nonneg [OF assms(1) q(1)] by simp
      from less.hyps [OF this q(1)] obtain r where r: "fork_loop h (branch h t) (Some q) = Some r" "last_common h q t r"
        by blast
      have "on_branch h g p \<and> on_branch h g t \<longleftrightarrow> on_branch h g q \<and> on_branch h g t" for g
        using False Some on_branch_parent [of h g p] by auto
      then have "last_common h p t r"
        using r(2) unfolding last_common_def by (auto split: option.splits)
      then show ?thesis
        using r(1) nc Some by (auto simp: fork_loop.simps [of h _ "Some p"])
    qed
  qed
qed

lemma find_fork:
  assumes "tree_ok h" "h t \<noteq> None" "h p \<noteq> None"
  shows "\<exists>r. findFork h (branch h t) (Some p) = Some r \<and> last_common h p t r"
proof -
  have t: "0 \<le> hgt h t" "hgt h t < 2 ^ 31 - 1"
    using assms(1,2) by (auto simp: tree_ok_def node_ok_def)
  then have top: "view_height (branch h t) = hgt h t"
    by (simp add: view_height_def)
  show ?thesis
  proof (cases "hgt h p > hgt h t")
    case True
    then have "ancestor_loop h (Some p) (hgt h t) = Some (walk h (nat (hgt h p - hgt h t)) p)"
      using ancestor_loop_walk [OF assms(1,3) t(1)] by simp
    moreover obtain q where q: "walk h (nat (hgt h p - hgt h t)) p = Some q" "h q \<noteq> None" "hgt h q = hgt h t"
      using walk_ok [OF assms(1,3), of "nat (hgt h p - hgt h t)"] t True by auto
    ultimately have anc: "Ancestor h p (hgt h t) = Some (Some q)"
      using True t(1) by (simp add: Ancestor_def)
    obtain r where r: "fork_loop h (branch h t) (Some q) = Some r" "last_common h q t r"
      using fork_loop_common [OF assms(1,2) q(2)] by blast
    have qp: "on_branch h q p"
      using q(1) unfolding on_branch_def by blast
    have up: "on_branch h g p" if "on_branch h g q" for g
    proof -
      obtain n where "walk h n q = Some g"
        using \<open>on_branch h g q\<close> by (auto simp: on_branch_def)
      then have "walk h (nat (hgt h p - hgt h t) + n) p = Some g"
        using q(1) by (simp add: walk_add)
      then show ?thesis
        unfolding on_branch_def by blast
    qed
    have "on_branch h g q" if "on_branch h g p" "on_branch h g t" for g
      using on_branch_linear [OF assms(1,3) qp that(1)] on_branch_ok [OF assms(1,2) that(2)] q(3) by simp
    then have "on_branch h g p \<and> on_branch h g t \<longleftrightarrow> on_branch h g q \<and> on_branch h g t" for g
      using up by blast
    then have "last_common h p t r"
      using r(2) unfolding last_common_def by (auto split: option.splits)
    then show ?thesis
      using r(1) True anc top by (simp add: findFork_def)
  next
    case False
    then show ?thesis
      using fork_loop_common [OF assms] top by (simp add: findFork_def)
  qed
qed

section \<open>What is detached and attached\<close>

lemma branch_snoc:
  assumes "tree_ok h" "h p \<noteq> None" "nd_parent (nd h p) = Some q"
  shows "branch h p = branch h q @ [Some p]"
proof -
  have q: "h q \<noteq> None" "hgt h p = hgt h q + 1"
    using parent_ok [OF assms] by simp_all
  then have n: "nat (hgt h p) = Suc (nat (hgt h q))"
    using hgt_nonneg [OF assms(1) q(1)] by simp
  show ?thesis
  proof (rule nth_equalityI)
    fix i assume "i < length (branch h p)"
    then show "branch h p ! i = (branch h q @ [Some p]) ! i"
      using assms(3) by (cases "i = Suc (nat (hgt h q))") (simp_all add: branch_nth n nth_append Suc_diff_le)
  qed (simp add: n)
qed

lemma branch_root: "tree_ok h \<Longrightarrow> h p \<noteq> None \<Longrightarrow> nd_parent (nd h p) = None \<Longrightarrow> branch h p = [Some p]"
  using root_ok [of h p] by (simp add: branch_def)

lemma branch_mem: "Some n \<in> set (branch h p) \<Longrightarrow> on_branch h n p"
  by (auto simp: branch_def on_branch_def simp del: upt_Suc)

text \<open>The nodes after the fork, in order.\<close>

definition after_fork :: "heap \<Rightarrow> ptr \<Rightarrow> ptr \<Rightarrow> ptr list \<Rightarrow> bool" where
  "after_fork h f p ns \<longleftrightarrow> branch h p = branch h f @ map Some ns"

lemma loops_after_fork:
  assumes "tree_ok h" "h p \<noteq> None" "on_branch h f p" "heap_of bi = h"
  shows "\<exists>ns. after_fork h f p ns \<and> (\<forall>acc. detach_loop h (Some f) (Some p) acc = Some (acc @ rev ns)) \<and>
    (\<forall>acc. if \<exists>n \<in> set ns. KnownInvalid (NodeStatus bi n) then \<exists>l. attach_loop bi (Some f) (Some p) acc = Some (True, l)
           else attach_loop bi (Some f) (Some p) acc = Some (False, ns @ acc))"
  using assms(2,3)
proof (induction "nat (hgt h p)" arbitrary: p rule: less_induct)
  case less
  show ?case
  proof (cases "p = f")
    case True
    then show ?thesis
      by (intro exI [of _ "[]"]) (simp add: after_fork_def detach_loop.simps attach_loop.simps)
  next
    case False
    then obtain q where q: "nd_parent (nd h p) = Some q" "on_branch h f q"
      using less.prems(2) on_branch_parent [of h f p] by auto
    have hq: "h q \<noteq> None" "nat (hgt h q) < nat (hgt h p)"
      using parent_ok [OF assms(1) less.prems(1) q(1)] hgt_nonneg [OF assms(1), of q] by auto
    from less.hyps [OF hq(2,1) q(2)] obtain ns where ns: "after_fork h f q ns"
        "\<forall>acc. detach_loop h (Some f) (Some q) acc = Some (acc @ rev ns)"
        "\<forall>acc. if \<exists>n \<in> set ns. KnownInvalid (NodeStatus bi n) then \<exists>l. attach_loop bi (Some f) (Some q) acc = Some (True, l)
           else attach_loop bi (Some f) (Some q) acc = Some (False, ns @ acc)"
      by blast
    have "after_fork h f p (ns @ [p])"
      using ns(1) branch_snoc [OF assms(1) less.prems(1) q(1)] by (simp add: after_fork_def)
    moreover have "detach_loop h (Some f) (Some p) acc = Some (acc @ rev (ns @ [p]))" for acc
      using ns(2) False q(1) by (simp add: detach_loop.simps [of h _ "Some p"])
    moreover have "if \<exists>n \<in> set (ns @ [p]). KnownInvalid (NodeStatus bi n) then \<exists>l. attach_loop bi (Some f) (Some p) acc = Some (True, l)
           else attach_loop bi (Some f) (Some p) acc = Some (False, (ns @ [p]) @ acc)" for acc
      using ns(3) [rule_format, of "p # acc"] False q(1) assms(4)
      by (cases "KnownInvalid (NodeStatus bi p)") (auto simp: attach_loop.simps [of bi _ "Some p"])
    ultimately show ?thesis
      by blast
  qed
qed

lemma reorganize_split:
  assumes "tree_ok (heap_of bi)" "heap_of bi t \<noteq> None" "heap_of bi p \<noteq> None" "nd_parent (nd (heap_of bi) p) = Some q"
    and "on_branch (heap_of bi) g p" "on_branch (heap_of bi) g t"
  shows "\<exists>f ds as. last_common (heap_of bi) p t (Some f) \<and> after_fork (heap_of bi) f t ds \<and> after_fork (heap_of bi) f p as \<and>
    (if KnownInvalid (NodeStatus bi q) \<or> (\<exists>n \<in> set as. KnownInvalid (NodeStatus bi n))
     then \<exists>bi'. getReorganizeNodes (branch (heap_of bi) t) p bi = Some (Ok ([], [], bi'))
     else getReorganizeNodes (branch (heap_of bi) t) p bi = Some (Ok (rev ds, as, bi)))"
proof -
  let ?h = "heap_of bi"
  obtain r where r: "findFork ?h (branch ?h t) (Some p) = Some r" "last_common ?h p t r"
    using find_fork [OF assms(1-3)] by blast
  obtain f where f: "r = Some f" "on_branch ?h f p" "on_branch ?h f t"
    using r(2) assms(5,6) by (cases r) (auto simp: last_common_def)
  have tip: "view_tip (branch ?h t) = Some t"
    using length_branch [of ?h t] by (auto simp: view_tip_def branch_nth simp del: length_branch)
  obtain as where as: "after_fork ?h f p as" "\<forall>acc. if \<exists>n \<in> set as. KnownInvalid (NodeStatus bi n)
      then \<exists>l. attach_loop bi (Some f) (Some p) acc = Some (True, l) else attach_loop bi (Some f) (Some p) acc = Some (False, as @ acc)"
    using loops_after_fork [OF assms(1,3) f(2) refl] by blast
  obtain ds where ds: "after_fork ?h f t ds" "\<forall>acc. detach_loop ?h (Some f) (Some t) acc = Some (acc @ rev ds)"
    using loops_after_fork [OF assms(1,2) f(3) refl] by blast
  have "if KnownInvalid (NodeStatus bi q) \<or> (\<exists>n \<in> set as. KnownInvalid (NodeStatus bi n))
     then \<exists>bi'. getReorganizeNodes (branch ?h t) p bi = Some (Ok ([], [], bi'))
     else getReorganizeNodes (branch ?h t) p bi = Some (Ok (rev ds, as, bi))"
  proof (cases "KnownInvalid (NodeStatus bi q)")
    case True
    then show ?thesis
      using assms(4) by (simp add: getReorganizeNodes_def)
  next
    case False
    then show ?thesis
      using assms(4) r(1) f(1) as(2) [rule_format, of "[]"] ds(2) tip
      by (cases "\<exists>n \<in> set as. KnownInvalid (NodeStatus bi n)") (auto simp: getReorganizeNodes_def)
  qed
  then show ?thesis
    using r(2) f(1) as(1) ds(1) by blast
qed


section \<open>What a locator lists\<close>

lemma locator_step:
  assumes "tree_ok h" "h t \<noteq> None" "h q \<noteq> None" "0 \<le> k" "k \<le> hgt h q"
  shows "\<exists>q'. (if view_contains h (branch h t) q then Some (branch h t ! nat k) else Ancestor h q k) = Some (Some q') \<and>
    h q' \<noteq> None \<and> hgt h q' = k \<and> on_branch h q' q"
proof -
  obtain q' where q': "walk h (nat (hgt h q - k)) q = Some q'" "h q' \<noteq> None" "hgt h q' = k"
    using walk_ok [OF assms(1,3), of "nat (hgt h q - k)"] assms(4,5) by auto
  have "branch h t ! nat k = Some q'" if "view_contains h (branch h t) q"
  proof -
    have on: "on_branch h q t"
      using that contains_branch [OF assms(1-3)] by simp
    then obtain n where "walk h n t = Some q"
      by (auto simp: on_branch_def)
    from branch_walk [OF assms(1,2) this] have "nat (hgt h q) \<le> nat (hgt h t)" "branch h t ! nat (hgt h q) = Some q"
      by simp_all
    from branch_below [OF assms(1,2) this, of "nat k"] have "branch h t ! nat k = branch h q ! nat k"
      using assms(5) by simp
    moreover have "nat (hgt h q) - nat k = nat (hgt h q - k)"
      using assms(4) by (simp add: nat_diff_distrib')
    ultimately show ?thesis
      using q'(1) assms(5) by (simp add: branch_nth)
  qed
  moreover have "Ancestor h q k = Some (Some q')"
    using ancestor_loop_walk [OF assms(1,3-5)] q'(1) assms(4,5) by (simp add: Ancestor_def)
  moreover have "on_branch h q' q"
    using q'(1) unfolding on_branch_def by blast
  ultimately show ?thesis
    using q'(2,3) by auto
qed

lemma on_branch_trans: "on_branch h a b \<Longrightarrow> on_branch h b c \<Longrightarrow> on_branch h a c"
  unfolding on_branch_def by (metis bind.bind_lunit walk_add)

text \<open>The distance doubles; it stays in 32 bits until the first block is reached.\<close>

lemma locator_loop_lists:
  assumes "tree_ok h" "h t \<noteq> None" "h q \<noteq> None" "hgt h q = 0 \<or> 0 < s \<and> hgt h q + s \<le> 2 ^ 31"
  shows "\<exists>ps. locator_loop h (branch h t) (Some q) s acc = Some (acc @ q # ps) \<and> hgt h (last (q # ps)) = 0 \<and>
    sorted_wrt (\<lambda>a b. hgt h a > hgt h b) (q # ps) \<and> (\<forall>n \<in> set ps. on_branch h n q)"
  using assms(3,4)
proof (induction "nat (hgt h q)" arbitrary: q s acc rule: less_induct)
  case less
  show ?case
  proof (cases "hgt h q = 0")
    case True
    then show ?thesis
      by (intro exI [of _ "[]"]) (simp add: locator_loop.simps)
  next
    case False
    then have s: "0 < s" "hgt h q + s \<le> 2 ^ 31" and pos: "0 < hgt h q"
      using less.prems(2) hgt_nonneg [OF assms(1) less.prems(1)] by simp_all
    have w: "wrap32 (hgt h q - s) = hgt h q - s"
      using s pos by (intro wrap32_id) simp_all
    define k where "k = (if hgt h q - s < 0 then 0 else hgt h q - s)"
    define s' where "s' = (if length (acc @ [q]) > 10 then wrap32 (s * 2) else s)"
    have k: "0 \<le> k" "k \<le> hgt h q" "k < hgt h q"
      using s(1) pos by (auto simp: k_def)
    from locator_step [OF assms(1,2) less.prems(1) k(1,2)] obtain q'
      where q': "(if view_contains h (branch h t) q then Some (branch h t ! nat k) else Ancestor h q k) = Some (Some q')"
        "h q' \<noteq> None" "hgt h q' = k" "on_branch h q' q"
      by blast
    have "hgt h q' = 0 \<or> 0 < s' \<and> hgt h q' + s' \<le> 2 ^ 31"
    proof (cases "k = 0")
      case False
      then have "k = hgt h q - s" "k + s * 2 \<le> 2 ^ 31"
        using s(2) by (auto simp: k_def split: if_splits)
      moreover from this have "wrap32 (s * 2) = s * 2"
        using False k(1) s(1) by (intro wrap32_id) simp_all
      ultimately show ?thesis
        using q'(3) s(1) by (simp add: s'_def)
    qed (simp add: q'(3))
    from less.hyps [OF _ q'(2) this, of "acc @ [q]"] obtain ps where ps:
        "locator_loop h (branch h t) (Some q') s' (acc @ [q]) = Some ((acc @ [q]) @ q' # ps)" "hgt h (last (q' # ps)) = 0"
        "sorted_wrt (\<lambda>a b. hgt h a > hgt h b) (q' # ps)" "\<forall>n \<in> set ps. on_branch h n q'"
      using k q'(3) by auto
    have "locator_loop h (branch h t) (Some q) s acc =
        Option.bind (if view_contains h (branch h t) q then Some (branch h t ! nat k) else Ancestor h q k)
          (\<lambda>n'. locator_loop h (branch h t) n' s' (acc @ [q]))"
      using False unfolding k_def s'_def by (subst locator_loop.simps) (simp add: w Let_def)
    then have "locator_loop h (branch h t) (Some q) s acc = locator_loop h (branch h t) (Some q') s' (acc @ [q])"
      unfolding q'(1) by simp
    moreover have "sorted_wrt (\<lambda>a b. hgt h a > hgt h b) (q # q' # ps)"
      using ps(3) q'(3) k(3) by auto
    moreover have "\<forall>n \<in> set (q' # ps). on_branch h n q"
      using ps(4) q'(4) on_branch_trans by auto
    ultimately show ?thesis
      using ps(1,2) by (intro exI [of _ "q' # ps"]) simp
  qed
qed

text \<open>
  C39: a block locator is usable.  For any node of a well-formed tree of fewer than two thousand million
  levels and any view of a branch, building the locator ends; it lists hashes of blocks of the node's branch
  in strictly decreasing height, from the node itself to the first block of the branch.
\<close>

theorem locator_to_genesis:
  assumes "tree_ok h" "h t \<noteq> None" "h p \<noteq> None"
  shows "\<exists>ps. blockLocator h (branch h t) (Some p) = Some (map (\<lambda>q. nd_hash (nd h q)) (p # ps)) \<and> hgt h (last (p # ps)) = 0 \<and>
    sorted_wrt (\<lambda>a b. hgt h a > hgt h b) (p # ps) \<and> (\<forall>n \<in> set ps. on_branch h n p)"
proof -
  have "hgt h p < 2 ^ 31 - 1"
    using assms(1,3) by (simp add: tree_ok_def node_ok_def)
  then show ?thesis
    using locator_loop_lists [OF assms, of 1 "[]"] by (auto simp: blockLocator_def)
qed

section \<open>A small tree\<close>

text \<open>A first block, one on top of it, and two competing blocks on top of that one.\<close>

definition fork_node :: "ptr option \<Rightarrow> ptr option \<Rightarrow> int \<Rightarrow> byte \<Rightarrow> blockNode" where
  "fork_node par anc k st =
     \<lparr>nd_parent = par, nd_ancestor = anc, nd_hash = replicate 32 (word_of_int k), nd_workSum = k + 1, nd_height = k, nd_version = 1, nd_bits = 0x207fffff,
      nd_nonce = 0, nd_timestamp = k, nd_merkleRoot = replicate 32 0, nd_status = st\<rparr>"

definition fork_heap :: heap where
  "fork_heap = [0 \<mapsto> fork_node None None 0 3, 1 \<mapsto> fork_node (Some 0) (Some 0) 1 3,
     2 \<mapsto> fork_node (Some 1) (Some 0) 2 3, 3 \<mapsto> fork_node (Some 1) (Some 0) 2 1]"

definition fork_index :: blockIndex where
  "fork_index = \<lparr>heap_of = fork_heap, idx = Map.empty, dirty = {}\<rparr>"

lemma fork_nd:
  "nd fork_heap 0 = fork_node None None 0 3" "nd fork_heap 1 = fork_node (Some 0) (Some 0) 1 3"
  "nd fork_heap 2 = fork_node (Some 1) (Some 0) 2 3" "nd fork_heap 3 = fork_node (Some 1) (Some 0) 2 1"
  "nd fork_heap (Suc 0) = fork_node (Some 0) (Some 0) 1 3"
  by (simp_all add: nd_def fork_heap_def)

lemma fork_dom: "fork_heap p \<noteq> None \<longleftrightarrow> p = 0 \<or> p = 1 \<or> p = 2 \<or> p = 3"
  by (auto simp: fork_heap_def)

lemma fork_walk: "walk fork_heap 1 1 = Some 0" "walk fork_heap 2 2 = Some 0" "walk fork_heap 2 3 = Some 0"
    "walk fork_heap 1 2 = Some 1" "walk fork_heap 1 3 = Some 1" "walk fork_heap 0 p = Some p"
  by (simp_all add: numeral_2_eq_2 fork_nd [unfolded numeral_2_eq_2] fork_nd fork_node_def)

lemma fork_tree_ok: "tree_ok fork_heap"
proof -
  have "node_ok fork_heap p" if "p = 0 \<or> p = 1 \<or> p = 2 \<or> p = 3" for p
    using that fork_walk fork_dom
    by (elim disjE) (simp_all add: node_ok_def fork_nd fork_node_def getAncestorHeight_def invertLowestOne_def)
  then show ?thesis
    unfolding tree_ok_def fork_dom by blast
qed

lemma fork_common: "on_branch fork_heap 1 2" "on_branch fork_heap 1 3"
  using fork_walk unfolding on_branch_def by blast+

lemmas fork_in = fork_dom [THEN iffD2]

theorem ancestor_is_walk_witness: "Ancestor fork_heap 2 1 = Some (Some 1) \<and> Ancestor fork_heap 2 3 = Some None"
  using ancestor_is_walk [OF fork_tree_ok fork_in, of 2 1] ancestor_is_walk [OF fork_tree_ok fork_in, of 2 3] fork_walk
  by (simp add: fork_nd fork_node_def)

theorem set_tip_is_branch_witness: "setTip fork_heap (Some 3) (branch fork_heap 2) = Some [Some 0, Some 1, Some 3]"
proof -
  have "view_ok fork_heap (branch fork_heap 2)"
    unfolding view_ok_def using fork_in [of 2] by blast
  from set_tip_is_branch [OF fork_tree_ok this fork_in, of 3] show ?thesis
    using fork_walk by (simp add: branch_def fork_nd fork_node_def upt_rec numeral_2_eq_2)
qed


theorem locator_to_genesis_witness:
  "\<exists>ps. blockLocator fork_heap (branch fork_heap 2) (Some 3) = Some (map (\<lambda>q. nd_hash (nd fork_heap q)) (3 # ps)) \<and>
    hgt fork_heap (last (3 # ps)) = 0 \<and> sorted_wrt (\<lambda>a b. hgt fork_heap a > hgt fork_heap b) (3 # ps) \<and>
    (\<forall>n \<in> set ps. on_branch fork_heap n 3)"
  using locator_to_genesis [OF fork_tree_ok fork_in fork_in, of 2 3] by simp

end
