(* ===== verification/Spec2Isabelle.thy ===== *)
theory Spec2Isabelle
  imports Job_Handlers Peer_Table File_Share Script_Invariant Script_Der Taproot_Tree Sighash_Commit Chain_Double Chain_Cache Chain_Tree
begin

text \<open>A verification development for the OrcaNet peer and coin node.\<close>

section \<open>From offering a file to downloading it\<close>

text \<open>
  C2: Sharing a file end to end.  A peer offers a file whose reads fill the buffer except perhaps
  for the last one, without hash collisions, and all its steps succeed.  Another peer then
  downloads the offered key, every round succeeding and being answered by the first peer, while
  other goroutines may work on other jobs.  Then the client ends without error, the job is
  finished, one payment was made per chunk, and the downloaded file begins with exactly the
  original file.  Its length, however, is a multiple of the chunk size: the last chunk arrives
  with the unused tail of the server's read buffer.
\<close>

theorem shared_file_downloaded:
  assumes "chunked gots" and "length (concat gots) < 2 ^ 63" and "length gots < 2 ^ 63"
    and "inj_on sha (set gots)"
    and "SetupRegisterFile menv node now get put addr sha Is_file None (map (\<lambda>g. (g, Written)) gots) None
           name price port sw = (Ok (), sw')"
    and "cf_hash cf = offered_key sha gots name"
    and "dial denv ip (cf_hash cf) = Ok ()"
    and "wire_ok json cf (stored_data sha (stored sw') gots)"
    and "length rs = length gots"
    and "\<forall>i<length gots. good_round json (StoredFileInfoMap sw') (stored sw') cf i (rs ! i) \<and>
           list_all (quiet (cf_job cf)) (before_check (rs ! i))"
    and "jobs_inv (cw_Manager w)" and "jobs_abs (cw_Manager w) (cf_job cf) = Some job"
    and "Status job \<notin> {''completed'', ''terminated'', ''paused''}"
    and "- (2 ^ 63) \<le> AccumulatedCost job" and "AccumulatedCost job < 2 ^ 63"
    and "cf_price cf = show_int p" and "- (2 ^ 63) \<le> p" and "p < 2 ^ 63"
    and "requested w (cf_hash cf) = None"
  shows "\<exists>w' c. GetFileOnce json denv cf ip rs w = Some (Returned (Ok ()), w') \<and>
    requested w' (cf_hash cf) = Some c \<and> take (length (concat gots)) c = concat gots \<and>
    length c = length gots * chunkSize \<and> paid w' = paid w + length gots \<and>
    GetJobStatus (cf_job cf) (cw_Manager w') = ''finished''"
proof -
  let ?data = "stored_data sha (stored sw') gots"
  have len: "length ?data = length gots"
    by (simp add: stored_data_def)
  have ne: "?data \<noteq> []"
    using assms(1) len by (auto simp: chunked_def)
  note held = setup_server_holds [OF assms(1,2,4,5)]
  from download_run [OF assms(7) held(1) [folded assms(6)] ne _ assms(8) _ _ assms(11-18)] assms(3,9,10) len
  obtain w' where w': "GetFileOnce json denv cf ip rs w = Some (Returned (Ok ()), w')"
      "requested w' = append_file (cf_hash cf) (concat ?data) (requested w)"
      "paid w' = paid w + length gots"
      "jobs_abs (cw_Manager w') (cf_job cf) = Some (job\<lparr>Status := ''finished'',
         AccumulatedCost := wrap64 (AccumulatedCost job + int (length gots) * p)\<rparr>)"
    by auto
  then show ?thesis
    using held(2,3) assms(19) GetJobStatus_abs [OF w'(4)] by (auto simp: append_file_def)
qed

definition sample_share :: share_world where
  "sample_share = snd (SetupRegisterFile sample_env sample_node 2000 (\<lambda>_. Err ''not found'') (\<lambda>_ _. Ok ())
     ''ip'' sample_sha Is_file None [([7], Written)] None ''f'' 9 1
     \<lparr>stored = Map.empty, StoredFileInfoMap = Map.empty, handlers = {}\<rparr>)"

definition sample_served :: bytes where
  "sample_served = put_frame (0 # 1 # the (stored sample_share ''01''))"

lemma sample_key_05: "offered_key sample_sha [[7]] ''f'' = ''05''"
  by code_simp

lemma sample_setup:
  "SetupRegisterFile sample_env sample_node 2000 (\<lambda>_. Err ''not found'') (\<lambda>_ _. Ok ())
     ''ip'' sample_sha Is_file None [([7], Written)] None ''f'' 9 1
     \<lparr>stored = Map.empty, StoredFileInfoMap = Map.empty, handlers = {}\<rparr> = (Ok (), sample_share)"
proof -
  have "RegisterFile sample_env sample_node 2000 (\<lambda>_. Err ''not found'') (\<lambda>_ _. Ok ()) k u = Ok ()" for k u
    by (simp add: RegisterFile_def sample_node_def sample_env_def Let_def drop_timestamp_def
        remove_own_loop.simps)
  then show ?thesis
    by (simp add: sample_share_def SetupRegisterFile_def SaveChunkedFile_def WriteFile_def Let_def)
qed

lemma sample_reads_single:
  "chunked [[7]]" "length (concat [[7 :: byte]]) < 2 ^ 63" "inj_on sample_sha (set [[7]])"
  by (simp_all add: chunked_def proper_reads_def chunkSize_def)

lemma sample_share_state:
  "StoredFileInfoMap sample_share ''05'' = Some (offered_info sample_sha [[7]] ''f'')"
  "\<exists>c. stored sample_share ''01'' = Some c \<and> length c = chunkSize"
proof -
  have "map (\<lambda>g. (g, Written)) [[7]] = [([7], Written)]" and one: "chunk_name sample_sha [7] = ''01''"
    by simp code_simp
  then have "StoredFileInfoMap sample_share (offered_key sample_sha [[7]] ''f'') = Some (offered_info sample_sha [[7]] ''f'') \<and>
      (\<forall>g\<in>set [[7]]. holds_chunk sample_sha (stored sample_share) g)"
    using setup_run [of "[[7]]" sample_sha] sample_reads_single sample_setup unfolding chunked_def by metis
  then show "StoredFileInfoMap sample_share ''05'' = Some (offered_info sample_sha [[7]] ''f'')"
    and "\<exists>c. stored sample_share ''01'' = Some c \<and> length c = chunkSize"
    unfolding sample_key_05 by (auto simp: holds_chunk_def one)
qed

lemma sample_share_round:
  "good_round (sample_json ''05'') (StoredFileInfoMap sample_share) (stored sample_share) (sample_cfg ''05'') 0
     (sample_round sample_served [])"
  "wire_ok (sample_json ''05'') (sample_cfg ''05'') (stored_data sample_sha (stored sample_share) [[7]])"
proof -
  obtain c where c: "stored sample_share ''01'' = Some c" "length c = 4194304"
    using sample_share_state(2) by (auto simp: chunkSize_def)
  have one: "chunk_name sample_sha [7] = ''01''"
    by code_simp
  show "good_round (sample_json ''05'') (StoredFileInfoMap sample_share) (stored sample_share) (sample_cfg ''05'') 0
     (sample_round sample_served [])"
    using c sample_share_state(1) one
    by (simp add: good_round_def sample_round_def small_frame serve_request_def frame_length_def
        sample_json_def bind_def next_request_def sample_cfg_def Let_def sample_served_def offered_info_def)
  show "wire_ok (sample_json ''05'') (sample_cfg ''05'') (stored_data sample_sha (stored sample_share) [[7]])"
    using c one
    by (simp add: wire_ok_def wire_req_def wire_chunk_def stored_data_def sample_json_def
        sample_cfg_def next_request_def chunk_msg_def)
qed

theorem shared_file_downloaded_witness:
  "\<exists>w' c. GetFileOnce (sample_json ''05'') sample_dial (sample_cfg ''05'') ''ip'' [sample_round sample_served []] sample_client =
      Some (Returned (Ok ()), w') \<and>
    requested w' ''05'' = Some c \<and> take 1 c = [7] \<and> length c = 4194304 \<and> paid w' = 1"
  using shared_file_downloaded [of "[[7]]" sample_sha sample_env sample_node 2000 "\<lambda>_. Err ''not found''"
      "\<lambda>_ _. Ok ()" "''ip''" "''f''" 9 1 "\<lparr>stored = Map.empty, StoredFileInfoMap = Map.empty, handlers = {}\<rparr>"
      sample_share "sample_cfg ''05''" sample_dial "''ip''" "sample_json ''05''" "[sample_round sample_served []]"
      sample_client "sample_job ''j'' ''active''" 5]
    sample_reads_single sample_setup sample_key_05 sample_share_round sample_job_active
  by (simp add: sample_cfg_def dial_def sample_dial_def bind_def sample_round_def chunkSize_def
      paid_def sample_client_def) blast

end
